(* ===== verification/Prelude.thy ===== *)
theory Prelude
  imports Main "HOL-Library.Word"
begin

text \<open>
  Shared vocabulary of the development: names for the machine integers of the Rust
  sources, the result type of fallible operations, the big- and little-endian byte
  encodings of the standard library (\<open>to_be_bytes\<close>, \<open>to_le_bytes\<close> and their
  inverses), the read cursor over a byte stream, association lists read as hash maps,
  and the lemma collections \<open>bytes_simps\<close> and \<open>alist_simps\<close> the component
  theories build on.
\<close>

named_theorems bytes_simps
named_theorems alist_simps

section \<open>Machine types and results\<close>

type_synonym u8 = "8 word"
type_synonym u16 = "16 word"
type_synonym u32 = "32 word"
type_synonym u64 = "64 word"
type_synonym bytes = "8 word list"

text \<open>Rust's \<open>Result<T, E>\<close>.\<close>

datatype ('a, 'e) result = Ok 'a | Err 'e

primrec bind_result :: "('a, 'e) result \<Rightarrow> ('a \<Rightarrow> ('b, 'e) result) \<Rightarrow> ('b, 'e) result" where
  "bind_result (Ok x) k = k x"
| "bind_result (Err e) k = Err e"

primrec map_err :: "('e \<Rightarrow> 'f) \<Rightarrow> ('a, 'e) result \<Rightarrow> ('a, 'f) result" where
  "map_err f (Ok x) = Ok x"
| "map_err f (Err e) = Err (f e)"

primrec is_ok :: "('a, 'e) result \<Rightarrow> bool" where
  "is_ok (Ok x) = True"
| "is_ok (Err e) = False"

text \<open>\<open>min\<close> and \<open>max\<close> of the 64-bit signed integers, and the value a wrapping cast keeps.\<close>

definition wrap_signed :: "nat \<Rightarrow> int \<Rightarrow> int" where
  "wrap_signed w x = (x + 2 ^ (w - 1)) mod 2 ^ w - 2 ^ (w - 1)"

section \<open>Byte encodings\<close>

primrec le_bytes :: "nat \<Rightarrow> nat \<Rightarrow> bytes" where
  "le_bytes 0 v = []"
| "le_bytes (Suc n) v = of_nat v # le_bytes n (v div 256)"

primrec of_le_bytes :: "bytes \<Rightarrow> nat" where
  "of_le_bytes [] = 0"
| "of_le_bytes (b # bs) = unat b + 256 * of_le_bytes bs"

definition be_bytes :: "nat \<Rightarrow> nat \<Rightarrow> bytes" where
  "be_bytes n v = rev (le_bytes n v)"

definition of_be_bytes :: "bytes \<Rightarrow> nat" where
  "of_be_bytes bs = of_le_bytes (rev bs)"

section \<open>Reading a stream\<close>

text \<open>\<open>Read::read_exact\<close> on a byte stream: the first \<open>n\<close> bytes and the rest, or nothing when
  the stream ends first.\<close>

definition read_exact :: "nat \<Rightarrow> bytes \<Rightarrow> (bytes \<times> bytes) option" where
  "read_exact n s = (if length s < n then None else Some (take n s, drop n s))"

section \<open>Association lists as hash maps\<close>

text \<open>\<open>HashMap::insert\<close> and \<open>HashMap::remove\<close> over an association list without
  duplicate keys.\<close>

fun alist_insert :: "'k \<Rightarrow> 'v \<Rightarrow> ('k \<times> 'v) list \<Rightarrow> ('k \<times> 'v) list" where
  "alist_insert k v [] = [(k, v)]"
| "alist_insert k v ((k', v') # xs) =
     (if k = k' then (k, v) # xs else (k', v') # alist_insert k v xs)"

definition alist_remove :: "'k \<Rightarrow> ('k \<times> 'v) list \<Rightarrow> ('k \<times> 'v) list" where
  "alist_remove k xs = filter (\<lambda>p. fst p \<noteq> k) xs"

definition alist_update :: "'k \<Rightarrow> ('v \<Rightarrow> 'v) \<Rightarrow> ('k \<times> 'v) list \<Rightarrow> ('k \<times> 'v) list" where
  "alist_update k f xs = map (\<lambda>p. if fst p = k then (fst p, f (snd p)) else p) xs"

abbreviation alist_keys :: "('k \<times> 'v) list \<Rightarrow> 'k list" where
  "alist_keys xs \<equiv> map fst xs"

abbreviation alist_mem :: "'k \<Rightarrow> ('k \<times> 'v) list \<Rightarrow> bool" where
  "alist_mem k xs \<equiv> map_of xs k \<noteq> None"

section \<open>Text\<close>

definition digit_char :: "nat \<Rightarrow> char" where
  "digit_char d = char_of (48 + d)"

fun dec_str :: "nat \<Rightarrow> string" where
  "dec_str n = (if n < 10 then [digit_char n] else dec_str (n div 10) @ [digit_char (n mod 10)])"

declare dec_str.simps [simp del]

definition int_str :: "int \<Rightarrow> string" where
  "int_str i = (if i < 0 then ''-'' @ dec_str (nat (- i)) else dec_str (nat i))"

definition starts_with :: "string \<Rightarrow> string \<Rightarrow> bool" where
  "starts_with p s \<longleftrightarrow> take (length p) s = p"

definition strip_prefix :: "string \<Rightarrow> string \<Rightarrow> string option" where
  "strip_prefix p s = (if starts_with p s then Some (drop (length p) s) else None)"

section \<open>Lemmas: results\<close>

lemma bind_result_Ok_iff [simp]:
  "bind_result r k = Ok y \<longleftrightarrow> (\<exists>x. r = Ok x \<and> k x = Ok y)"
  by (cases r) auto

lemma bind_result_Err_iff:
  "bind_result r k = Err e \<longleftrightarrow> r = Err e \<or> (\<exists>x. r = Ok x \<and> k x = Err e)"
  by (cases r) auto

lemma map_err_Ok_iff [simp]: "map_err f r = Ok x \<longleftrightarrow> r = Ok x"
  by (cases r) auto

lemma is_ok_iff: "is_ok r \<longleftrightarrow> (\<exists>x. r = Ok x)"
  by (cases r) auto

lemma wrap_signed_id:
  assumes "0 < w" "- (2 ^ (w - 1)) \<le> x" "x < 2 ^ (w - 1)"
  shows "wrap_signed w x = x"
proof -
  from \<open>0 < w\<close> have "(2::int) ^ w = 2 * 2 ^ (w - 1)"
    by (cases w) auto
  with assms show ?thesis
    by (simp add: wrap_signed_def)
qed

section \<open>Lemmas: byte encodings\<close>

lemma length_le_bytes [simp, bytes_simps]: "length (le_bytes n v) = n"
  by (induction n arbitrary: v) auto

lemma le_bytes_numeral:
  "le_bytes (numeral k) v = of_nat v # le_bytes (pred_numeral k) (v div 256)"
  by (simp only: numeral_eq_Suc [of k] le_bytes.simps)

lemma length_be_bytes [simp, bytes_simps]: "length (be_bytes n v) = n"
  by (simp add: be_bytes_def)

lemma of_le_bytes_append:
  "of_le_bytes (xs @ ys) = of_le_bytes xs + 256 ^ length xs * of_le_bytes ys"
  by (induction xs) (auto simp: algebra_simps)

lemma of_le_bytes_le_bytes [bytes_simps]: "of_le_bytes (le_bytes n v) = v mod 256 ^ n"
proof (induction n arbitrary: v)
  case 0
  show ?case by simp
next
  case (Suc n)
  have "v mod (256 * 256 ^ n) = 256 * (v div 256 mod 256 ^ n) + v mod 256"
    by (rule mod_mult2_eq)
  with Suc show ?case
    by (simp add: unat_of_nat)
qed

lemma unat_u8_less: "unat (b :: u8) < 256"
  using unsigned_less [of b] by simp

lemma of_le_bytes_less: "of_le_bytes bs < 256 ^ length bs"
proof (induction bs)
  case Nil
  show ?case by simp
next
  case (Cons b bs)
  have "unat b < 256" by (rule unat_u8_less)
  moreover have "256 * (of_le_bytes bs + 1) \<le> 256 * 256 ^ length bs"
    using Cons by simp
  ultimately show ?case by simp
qed

lemma le_bytes_of_le_bytes [bytes_simps]: "le_bytes (length bs) (of_le_bytes bs) = bs"
proof (induction bs)
  case Nil
  show ?case by simp
next
  case (Cons b bs)
  have lt: "unat b < 256" by (rule unat_u8_less)
  have "(of_nat (unat b + 256 * of_le_bytes bs) :: u8) = b"
    by (rule word_unat_eq_iff [THEN iffD2]) (use lt in \<open>simp add: unat_of_nat del: of_nat_add of_nat_mult\<close>)
  with Cons lt show ?case by simp
qed

lemma of_be_bytes_be_bytes [bytes_simps]: "of_be_bytes (be_bytes n v) = v mod 256 ^ n"
  by (simp add: of_be_bytes_def be_bytes_def bytes_simps)

lemma be_bytes_of_be_bytes [bytes_simps]: "be_bytes (length bs) (of_be_bytes bs) = bs"
  using le_bytes_of_le_bytes [of "rev bs"] by (simp add: of_be_bytes_def be_bytes_def)

lemma of_be_bytes_less: "of_be_bytes bs < 256 ^ length bs"
  using of_le_bytes_less [of "rev bs"] by (simp add: of_be_bytes_def)

lemma of_be_bytes_Cons:
  "of_be_bytes (b # bs) = unat b * 256 ^ length bs + of_be_bytes bs"
  by (simp add: of_be_bytes_def of_le_bytes_append)

lemma take_le_bytes: "m \<le> n \<Longrightarrow> take m (le_bytes n v) = le_bytes m v"
proof (induction m arbitrary: n v)
  case 0
  show ?case by simp
next
  case (Suc m)
  then show ?case by (cases n) auto
qed

lemma drop_be_bytes: "m \<le> n \<Longrightarrow> drop (n - m) (be_bytes n v) = be_bytes m v"
  by (simp add: be_bytes_def drop_rev take_le_bytes)

lemma read_exact_append [bytes_simps]:
  "length xs = n \<Longrightarrow> read_exact n (xs @ ys) = Some (xs, ys)"
  by (simp add: read_exact_def)

lemma read_exact_Some:
  "read_exact n s = Some (a, b) \<longleftrightarrow> length a = n \<and> s = a @ b"
  by (auto simp: read_exact_def)

section \<open>Lemmas: association lists\<close>

lemma map_of_alist_insert [simp, alist_simps]:
  "map_of (alist_insert k v xs) = (map_of xs)(k \<mapsto> v)"
  by (induction k v xs rule: alist_insert.induct) (auto simp: fun_eq_iff)

lemma set_keys_alist_insert [simp, alist_simps]:
  "fst ` set (alist_insert k v xs) = insert k (fst ` set xs)"
  by (induction k v xs rule: alist_insert.induct) auto

lemma distinct_alist_insert [simp, alist_simps]:
  "distinct (alist_keys (alist_insert k v xs)) = distinct (alist_keys xs)"
  by (induction k v xs rule: alist_insert.induct) auto

lemma map_of_alist_remove [simp, alist_simps]:
  "map_of (alist_remove k xs) = (map_of xs)(k := None)"
  by (induction xs) (auto simp: alist_remove_def fun_eq_iff)

lemma distinct_alist_remove [simp, alist_simps]:
  "distinct (alist_keys xs) \<Longrightarrow> distinct (alist_keys (alist_remove k xs))"
  by (induction xs) (auto simp: alist_remove_def)

lemma map_of_alist_update [simp, alist_simps]:
  "map_of (alist_update k f xs) = (map_of xs)(k := map_option f (map_of xs k))"
  by (induction xs) (auto simp: alist_update_def fun_eq_iff)

lemma keys_alist_update [simp, alist_simps]:
  "alist_keys (alist_update k f xs) = alist_keys xs"
  by (induction xs) (auto simp: alist_update_def)

section \<open>Lemmas: text\<close>

lemma strip_prefix_append [simp]: "strip_prefix p (p @ s) = Some s"
  by (simp add: strip_prefix_def starts_with_def)

lemma strip_prefix_Some: "strip_prefix p t = Some s \<longleftrightarrow> t = p @ s"
  by (auto simp: strip_prefix_def starts_with_def) (metis append_take_drop_id)

end
