(* ===== verification/Codec.thy ===== *)
theory Codec
  imports Prelude
begin

text \<open>
  The frame codec of \<open>waymux-protocol/src/codec.rs\<close>: a 32-bit big-endian length and a
  MessagePack payload of at most 20 MiB. The MessagePack library is outside the
  repository, so its writer and reader are the arguments \<open>wn\<close> (the bytes
  \<open>write_named\<close> appended and the error it stopped with, if any) and \<open>de\<close>
  (\<open>from_slice\<close>); \<open>serde_ok\<close> names the documented law that a value written is
  read back. The second half reads frames off a socket: \<open>read_frame\<close> of
  \<open>waymux-daemon/src/server.rs\<close>, with the locale \<open>self_delimiting\<close> for
  encodings that can be concatenated and read back one by one.
\<close>

section \<open>Frames\<close>

definition MAX_FRAME_SIZE :: nat where
  "MAX_FRAME_SIZE = 20 * 2 ^ 20"

datatype 'e encode_error =
    EncMsgpack 'e
  | EncTooLarge (enc_actual: nat)

datatype 'e decode_error =
    DecMsgpack 'e
  | DecTooLarge nat
  | DecTruncated (dec_need: nat) (dec_have: nat)

definition encode_frame ::
    "('a \<Rightarrow> bytes \<times> 'e option) \<Rightarrow> 'a \<Rightarrow> bytes \<Rightarrow> bytes \<times> (unit, 'e encode_error) result" where
  "encode_frame wn v buf =
     (let frame_start = length buf;
          buf = buf @ [0, 0, 0, 0];
          payload_start = length buf;
          (written, err) = wn v;
          buf = buf @ written
      in case err of
           Some e \<Rightarrow> (take frame_start buf, Err (EncMsgpack e))
         | None \<Rightarrow>
             let len = length buf - payload_start
             in if len > MAX_FRAME_SIZE then (take frame_start buf, Err (EncTooLarge len))
                else (take frame_start buf @ be_bytes 4 (len mod 2 ^ 32)
                        @ drop (frame_start + 4) buf, Ok ()))"

definition decode_frame ::
    "(bytes \<Rightarrow> ('a, 'e) result) \<Rightarrow> bytes \<Rightarrow> ('a, 'e decode_error) result" where
  "decode_frame de bs =
     (if length bs < 4 then Err (DecTruncated 4 (length bs))
      else let len = of_be_bytes (take 4 bs)
           in if len > MAX_FRAME_SIZE then Err (DecTooLarge len)
              else if length bs \<noteq> 4 + len then Err (DecTruncated (4 + len) (length bs))
              else map_err DecMsgpack (de (drop 4 bs)))"

text \<open>The law of the serialisation library the code relies on: the bytes of a successful
  write deserialise to the value written.\<close>

definition serde_ok :: "('a \<Rightarrow> bytes \<times> 'e option) \<Rightarrow> (bytes \<Rightarrow> ('a, 'd) result) \<Rightarrow> bool" where
  "serde_ok wn de \<longleftrightarrow> (\<forall>v p. wn v = (p, None) \<longrightarrow> de p = Ok v)"

section \<open>Reading frames off a socket\<close>

text \<open>What a socket still holds: the bytes before its end, and whether the end is a clean
  EOF or an I/O error.\<close>

datatype stream_end = AtEof | AtIoError

type_synonym instream = "bytes \<times> stream_end"

datatype read_error = ReadLength | ReadTooLarge nat | ReadPayload

definition read_frame :: "instream \<Rightarrow> (bytes option \<times> instream, read_error) result" where
  "read_frame s =
     (case read_exact 4 (fst s) of
        None \<Rightarrow> (case snd s of AtEof \<Rightarrow> Ok (None, ([], AtEof)) | AtIoError \<Rightarrow> Err ReadLength)
      | Some (len_buf, rest) \<Rightarrow>
          let len = of_be_bytes len_buf
          in if len > MAX_FRAME_SIZE then Err (ReadTooLarge len)
             else case read_exact len rest of
                    None \<Rightarrow> Err ReadPayload
                  | Some (body, rest') \<Rightarrow> Ok (Some (len_buf @ body), (rest', snd s)))"

text \<open>The bytes one successful \<open>encode_frame\<close> appends for a payload.\<close>

definition frame_bytes :: "bytes \<Rightarrow> bytes" where
  "frame_bytes p = be_bytes 4 (length p) @ p"

text \<open>One frame's payload off a stream that ends cleanly, as a partial reader.\<close>

definition next_payload :: "bytes \<Rightarrow> (bytes \<times> bytes) option" where
  "next_payload s =
     (case read_frame (s, AtEof) of
        Ok (Some f, (rest, _)) \<Rightarrow> Some (drop 4 f, rest)
      | _ \<Rightarrow> None)"

text \<open>Reading \<open>n\<close> items one after another.\<close>

primrec read_items :: "(bytes \<Rightarrow> ('a \<times> bytes) option) \<Rightarrow> nat \<Rightarrow> bytes \<Rightarrow> ('a list \<times> bytes) option" where
  "read_items rd 0 s = Some ([], s)"
| "read_items rd (Suc n) s =
     (case rd s of
        None \<Rightarrow> None
      | Some (x, s') \<Rightarrow> map_option (\<lambda>(xs, s''). (x # xs, s'')) (read_items rd n s'))"

section \<open>Self-delimiting encodings\<close>

locale self_delimiting =
  fixes enc :: "'a \<Rightarrow> bytes"
    and rd :: "bytes \<Rightarrow> ('a \<times> bytes) option"
    and ok :: "'a \<Rightarrow> bool"
  assumes rd_enc: "ok x \<Longrightarrow> rd (enc x @ rest) = Some (x, rest)"
begin

lemma enc_prefix_free:
  assumes "ok x" "ok y" "enc x @ r = enc y @ r'"
  shows "x = y \<and> r = r'"
  using rd_enc [OF assms(1), of r] rd_enc [OF assms(2), of r'] assms(3)
  by (metis option.inject prod.inject)

lemma read_items_concat:
  "list_all ok xs \<Longrightarrow>
    read_items rd (length xs) (concat (map enc xs) @ rest) = Some (xs, rest)"
  by (induction xs) (simp_all add: rd_enc)

lemma concat_injective:
  assumes "list_all ok xs" "list_all ok ys" "length xs = length ys"
    and "concat (map enc xs) @ r = concat (map enc ys) @ r'"
  shows "xs = ys \<and> r = r'"
  using read_items_concat [OF assms(1), of r] read_items_concat [OF assms(2), of r'] assms(3,4)
  by (metis option.inject prod.inject)

end

section \<open>Lemmas: frames\<close>

lemma max_frame_size_u32: "len \<le> MAX_FRAME_SIZE \<Longrightarrow> len mod 4294967296 = len"
  by (simp add: MAX_FRAME_SIZE_def)

lemma encode_frame_ok_iff:
  "encode_frame wn v buf = (buf', Ok ()) \<longleftrightarrow>
    (\<exists>p. wn v = (p, None) \<and> length p \<le> MAX_FRAME_SIZE \<and> buf' = buf @ frame_bytes p)"
  by (cases "wn v"; cases "snd (wn v)")
    (auto simp: encode_frame_def frame_bytes_def Let_def max_frame_size_u32)

lemma encode_frame_err:
  assumes "encode_frame wn v buf = (buf', Err e)"
  shows "buf' = buf"
  using assms by (cases "wn v"; cases "snd (wn v)")
    (auto simp: encode_frame_def Let_def split: if_splits)

lemma frame_length_less: "length p \<le> MAX_FRAME_SIZE \<Longrightarrow> length p < 256 ^ 4"
  by (simp add: MAX_FRAME_SIZE_def)

lemma of_be_frame_len [bytes_simps]:
  "length p \<le> MAX_FRAME_SIZE \<Longrightarrow> of_be_bytes (be_bytes 4 (length p)) = length p"
  using frame_length_less [of p] by (simp add: bytes_simps)

lemma decode_frame_bytes:
  assumes "length p \<le> MAX_FRAME_SIZE"
  shows "decode_frame de (frame_bytes p) = map_err DecMsgpack (de p)"
  using assms by (simp add: decode_frame_def frame_bytes_def of_be_frame_len Let_def)

lemma read_frame_bytes:
  assumes "length p \<le> MAX_FRAME_SIZE"
  shows "read_frame (frame_bytes p @ rest, e) = Ok (Some (frame_bytes p), (rest, e))"
  using assms
  by (simp add: read_frame_def frame_bytes_def read_exact_append of_be_frame_len Let_def)

lemma next_payload_bytes:
  "length p \<le> MAX_FRAME_SIZE \<Longrightarrow> next_payload (frame_bytes p @ rest) = Some (p, rest)"
  by (simp add: next_payload_def read_frame_bytes) (simp add: frame_bytes_def)

interpretation payload_frames:
  self_delimiting frame_bytes next_payload "\<lambda>p. length p \<le> MAX_FRAME_SIZE"
  by unfold_locales (rule next_payload_bytes)

lemma read_frame_Some_decodes:
  assumes "read_frame s = Ok (Some f, s')"
  shows "\<exists>p. f = frame_bytes p \<and> length p \<le> MAX_FRAME_SIZE \<and> fst s = f @ fst s' \<and> snd s' = snd s"
proof -
  from assms obtain h body rest where
      h: "read_exact 4 (fst s) = Some (h, body @ rest)" "of_be_bytes h \<le> MAX_FRAME_SIZE"
         "length body = of_be_bytes h" "f = h @ body" "s' = (rest, snd s)"
    by (auto simp: read_frame_def Let_def read_exact_Some split: option.splits prod.splits
        if_splits stream_end.splits)
  then have "length h = 4" by (simp add: read_exact_Some)
  then have "be_bytes 4 (of_be_bytes h) = h"
    using be_bytes_of_be_bytes [of h] by simp
  then have "f = frame_bytes body"
    unfolding frame_bytes_def h(3) h(4) by simp
  with h(1,2,3,5) show ?thesis
    by (intro exI [of _ body]) (simp add: read_exact_Some h(4))
qed

section \<open>Properties\<close>

text \<open>C2: A value the serialiser accepts in at most 20 MiB is framed, the frame is read back
  off the socket whatever follows it, leaving exactly what follows, and decodes to the
  value; the bytes already in the buffer stay in front.\<close>

theorem frame_round_trip:
  assumes "serde_ok wn de" and "wn v = (p, None)" and "length p \<le> MAX_FRAME_SIZE"
  shows "\<exists>f. encode_frame wn v buf = (buf @ f, Ok ()) \<and>
           read_frame (f @ rest, e) = Ok (Some f, (rest, e)) \<and>
           decode_frame de f = Ok v"
proof -
  have "encode_frame wn v buf = (buf @ frame_bytes p, Ok ())"
    using assms(2,3) by (simp add: encode_frame_ok_iff)
  moreover have "decode_frame de (frame_bytes p) = Ok v"
    using assms by (simp add: decode_frame_bytes serde_ok_def)
  ultimately show ?thesis using read_frame_bytes [OF assms(3)] by blast
qed

theorem frame_round_trip_witness:
  "\<exists>f. encode_frame (\<lambda>b. ([b], None :: unit option)) 7 [1, 2] = ([1, 2] @ f, Ok ()) \<and>
     read_frame (f @ [9], AtEof) = Ok (Some f, ([9], AtEof)) \<and>
     decode_frame (\<lambda>p. if length p = 1 then Ok (hd p) else Err ()) f = Ok 7"
  by (rule frame_round_trip [where p = "[7]"]) (simp_all add: serde_ok_def MAX_FRAME_SIZE_def)

text \<open>Encoding never leaves half a frame behind. Either the buffer grows by one whole
  frame no longer than the cap, or it is returned byte for byte as it was, with the
  serialiser's error or the oversize error that names the payload's length.\<close>

theorem encode_frame_atomic:
  "case encode_frame wn v buf of
     (buf', Ok _) \<Rightarrow> snd (wn v) = None \<and> length (fst (wn v)) \<le> MAX_FRAME_SIZE
        \<and> buf' = buf @ frame_bytes (fst (wn v))
   | (buf', Err (EncMsgpack err)) \<Rightarrow> buf' = buf \<and> snd (wn v) = Some err
   | (buf', Err (EncTooLarge n)) \<Rightarrow>
        buf' = buf \<and> snd (wn v) = None \<and> n = length (fst (wn v)) \<and> n > MAX_FRAME_SIZE"
  by (cases "wn v"; cases "snd (wn v)")
    (auto simp: encode_frame_def frame_bytes_def Let_def max_frame_size_u32 not_less)

text \<open>The reader of untrusted bytes: whatever the socket holds, a frame it delivers is a
  whole frame no longer than the cap plus its prefix, which is the front of the stream;
  a length field above the cap is refused before any payload byte is read.\<close>

theorem read_frame_sound:
  "case read_frame s of
     Ok (Some f, s') \<Rightarrow> (\<exists>p. f = frame_bytes p \<and> length p \<le> MAX_FRAME_SIZE)
        \<and> fst s = f @ fst s' \<and> snd s' = snd s
   | Ok (None, s') \<Rightarrow> length (fst s) < 4 \<and> snd s = AtEof
   | Err (ReadTooLarge n) \<Rightarrow> n > MAX_FRAME_SIZE \<and> n = of_be_bytes (take 4 (fst s))
   | Err ReadLength \<Rightarrow> length (fst s) < 4 \<and> snd s = AtIoError
   | Err ReadPayload \<Rightarrow> length (fst s) < 4 + of_be_bytes (take 4 (fst s))"
proof (cases "read_frame s")
  case (Ok r)
  obtain f s' where r: "r = (f, s')" by (cases r)
  show ?thesis
  proof (cases f)
    case None
    with Ok r show ?thesis
      by (auto simp: read_frame_def read_exact_def Let_def split: stream_end.splits if_splits)
  next
    case (Some g)
    with Ok r show ?thesis
      using read_frame_Some_decodes [of s g s'] by auto
  qed
next
  case (Err e)
  then show ?thesis
    by (auto simp: read_frame_def read_exact_def Let_def split: stream_end.splits if_splits)
qed

end
