(* ===== verification/Ebml.thy ===== *)
theory Ebml
  imports Codec
begin

text \<open>
  The EBML primitives of \<open>waymux-mux-mkv/src/ebml.rs\<close>: variable-length integers,
  element identifiers, sizes and the element writers. Writers that only append are
  functions to the bytes they append. The reader (\<open>read_vint\<close>, \<open>read_id\<close>,
  \<open>read_element\<close>) is the decoding rule of RFC 8794 and serves as the
  specification; the interpretations of \<open>self_delimiting\<close> state that what the
  muxer writes is read back by that rule, one element after another.
\<close>

unbundle bit_operations_syntax

section \<open>Writers\<close>

definition UNKNOWN_SIZE :: u64 where
  "UNKNOWN_SIZE = 0x01FFFFFFFFFFFFFF"

text \<open>The loop over \<open>1..=8\<close>, from byte count \<open>b\<close> with \<open>k\<close> counts left.\<close>

primrec vint_len_from :: "nat \<Rightarrow> nat \<Rightarrow> u64 \<Rightarrow> nat" where
  "vint_len_from 0 b val = 8"
| "vint_len_from (Suc k) b val =
     (if val < push_bit (b * 7) 1 - 1 then b else vint_len_from k (Suc b) val)"

definition vint_len :: "u64 \<Rightarrow> nat" where
  "vint_len val = (if val = UNKNOWN_SIZE then 8 else vint_len_from 8 1 val)"

definition write_vint :: "u64 \<Rightarrow> bytes" where
  "write_vint val =
     (let n = vint_len val;
          marker = push_bit (n * 7) 1;
          combined = val OR marker;
          shifted = be_bytes 8 (unat combined)
      in drop (8 - n) shifted)"

definition id_len :: "u32 \<Rightarrow> nat" where
  "id_len i = (if i \<ge> 0x10000000 then 4 else if i \<ge> 0x100000 then 3
               else if i \<ge> 0x4000 then 2 else 1)"

definition write_element_id :: "u32 \<Rightarrow> bytes" where
  "write_element_id i = drop (4 - id_len i) (be_bytes 4 (unat i))"

definition write_element_size :: "u64 \<Rightarrow> bytes" where
  "write_element_size sz =
     (if sz = UNKNOWN_SIZE then [0x01, 0xFF, 0xFF, 0xFF, 0xFF, 0xFF, 0xFF, 0xFF]
      else write_vint sz)"

text \<open>The \<open>while v > 0\<close> loop; \<open>>>\<close> is division on unsigned words.\<close>

fun shift_count :: "nat \<Rightarrow> nat" where
  "shift_count v = (if v > 0 then 1 + shift_count (v div 256) else 0)"

declare shift_count.simps [simp del]

definition uint_byte_len :: "u64 \<Rightarrow> nat" where
  "uint_byte_len val = (if val = 0 then 1 else shift_count (unat val))"

definition write_element_bytes :: "u32 \<Rightarrow> bytes \<Rightarrow> bytes" where
  "write_element_bytes i data =
     write_element_id i @ write_element_size (of_nat (length data)) @ data"

definition write_element_u64 :: "u32 \<Rightarrow> u64 \<Rightarrow> bytes" where
  "write_element_u64 i val =
     (let len = uint_byte_len val
      in write_element_id i @ write_element_size (of_nat len)
         @ drop (8 - len) (be_bytes 8 (unat val)))"

text \<open>An \<open>f64\<close> is its 64 bits.\<close>

definition write_element_f64 :: "u32 \<Rightarrow> u64 \<Rightarrow> bytes" where
  "write_element_f64 i bits = write_element_id i @ write_element_size 8 @ be_bytes 8 (unat bits)"

definition str_bytes :: "string \<Rightarrow> bytes" where
  "str_bytes s = map of_char s"

definition write_element_str :: "u32 \<Rightarrow> string \<Rightarrow> bytes" where
  "write_element_str i val =
     write_element_id i @ write_element_size (of_nat (length (str_bytes val))) @ str_bytes val"

section \<open>The decoding rule of RFC 8794\<close>

text \<open>The length a leading byte announces; 0 for the reserved byte 0.\<close>

definition vint_width :: "u8 \<Rightarrow> nat" where
  "vint_width b =
     (let v = unat b
      in if v \<ge> 128 then 1 else if v \<ge> 64 then 2 else if v \<ge> 32 then 3 else if v \<ge> 16 then 4
         else if v \<ge> 8 then 5 else if v \<ge> 4 then 6 else if v \<ge> 2 then 7
         else if v = 1 then 8 else 0)"

definition read_vint_raw :: "bytes \<Rightarrow> (nat \<times> nat \<times> bytes) option" where
  "read_vint_raw s =
     (case s of
        [] \<Rightarrow> None
      | b # _ \<Rightarrow>
          let n = vint_width b
          in if n = 0 then None
             else map_option (\<lambda>(h, rest). (n, of_be_bytes h, rest)) (read_exact n s))"

definition read_vint :: "bytes \<Rightarrow> (nat \<times> bytes) option" where
  "read_vint s = map_option (\<lambda>(n, v, rest). (v - 2 ^ (7 * n), rest)) (read_vint_raw s)"

definition read_id :: "bytes \<Rightarrow> (nat \<times> bytes) option" where
  "read_id s = map_option (\<lambda>(n, v, rest). (v, rest)) (read_vint_raw s)"

text \<open>An element of unknown size has no payload of its own: its children follow.\<close>

datatype element = Sized nat bytes | Unsized nat

definition read_element :: "bytes \<Rightarrow> (element \<times> bytes) option" where
  "read_element s =
     (case read_id s of
        None \<Rightarrow> None
      | Some (i, r) \<Rightarrow>
          (case read_vint_raw r of
             None \<Rightarrow> None
           | Some (n, v, r') \<Rightarrow>
               if v = 2 ^ (7 * n + 1) - 1 then Some (Unsized i, r')
               else map_option (\<lambda>(p, r''). (Sized i p, r'')) (read_exact (v - 2 ^ (7 * n)) r')))"

text \<open>An identifier whose own marker bit agrees with the length it is written with.\<close>

definition valid_id :: "u32 \<Rightarrow> bool" where
  "valid_id i \<longleftrightarrow>
     (let v = unat i
      in 0x10000000 \<le> v \<and> v < 0x20000000 \<or> 0x200000 \<le> v \<and> v < 0x400000
         \<or> 0x4000 \<le> v \<and> v < 0x8000 \<or> 0x80 \<le> v \<and> v < 0x100)"

definition valid_size :: "nat \<Rightarrow> bool" where
  "valid_size n \<longleftrightarrow> n < 2 ^ 56 - 1"

section \<open>Lemmas: variable-length integers\<close>

lemma be_bytes_Suc: "be_bytes (Suc m) c = of_nat (c div 256 ^ m) # be_bytes m c"
proof -
  have "le_bytes (Suc m) c = le_bytes m c @ [of_nat (c div 256 ^ m)]" for c
    by (induction m arbitrary: c) (simp_all add: div_mult2_eq)
  then show ?thesis by (simp add: be_bytes_def)
qed

lemma read_vint_raw_step:
  assumes "s = b # t" "vint_width b = n" "0 < n"
  shows "read_vint_raw s = map_option (\<lambda>(h, rest). (n, of_be_bytes h, rest)) (read_exact n s)"
  using assms by (simp add: read_vint_raw_def)

lemma read_vint_raw_be_bytes:
  assumes n: "n \<in> {1..8}" and c: "2 ^ (7 * n) \<le> c" "c < 2 ^ (7 * n + 1)"
  shows "read_vint_raw (be_bytes n c @ rest) = Some (n, c, rest)"
proof -
  from n obtain m where m: "n = Suc m" "m \<le> 7" by (cases n) auto
  let ?b = "c div 256 ^ m"
  have "m \<in> {0, 1, 2, 3, 4, 5, 6, 7}" using m(2) by auto
  then have b: "2 ^ (7 - m) \<le> ?b \<and> ?b < 2 ^ (8 - m) \<and> c < 256 ^ n"
    using c m by (elim insertE emptyE) (auto simp: div_le_mono less_mult_imp_div_less)
  then have "?b < 2 ^ 8"
    by (meson diff_le_self le_less_trans less_le_trans one_le_numeral power_increasing)
  then have u: "unat (of_nat ?b :: u8) = ?b"
    by (simp add: unat_of_nat)
  have "vint_width (of_nat ?b) = n"
    using b m \<open>m \<in> _\<close> unfolding vint_width_def u Let_def by (elim insertE emptyE) auto
  then have "read_vint_raw (be_bytes n c @ rest) =
      map_option (\<lambda>(h, rest). (n, of_be_bytes h, rest)) (read_exact n (be_bytes n c @ rest))"
    using m by (intro read_vint_raw_step [where b = "of_nat ?b"]) (simp_all add: be_bytes_Suc)
  with b show ?thesis
    by (simp add: read_exact_append of_be_bytes_be_bytes)
qed

lemma unat_marker:
  assumes "k < 64"
  shows "unat (2 ^ k :: u64) = 2 ^ k"
proof -
  have "(2 :: nat) ^ k < 2 ^ 64" using assms by (intro power_strict_increasing) auto
  then have "unat (of_nat (2 ^ k) :: u64) = 2 ^ k" by (simp add: unat_of_nat del: of_nat_power)
  then show ?thesis by simp
qed

lemma vint_len_from_bounds:
  "\<lbrakk>k + b = 9; 1 \<le> b; unat val < 2 ^ 56 - 1\<rbrakk> \<Longrightarrow>
    vint_len_from k b val \<in> {1..8} \<and> unat val < 2 ^ (7 * vint_len_from k b val) - 1"
proof (induction k arbitrary: b)
  case 0
  then show ?case by simp
next
  case (Suc k)
  have "unat (push_bit (b * 7) 1 - 1 :: u64) = 2 ^ (7 * b) - 1"
  proof -
    have "b * 7 < 64" using Suc.prems by simp
    then have "unat (push_bit (b * 7) 1 :: u64) = 2 ^ (7 * b)"
      by (simp add: unat_marker mult.commute)
    then show ?thesis by (subst unat_sub) (simp_all add: word_le_nat_alt)
  qed
  with Suc show ?case by (auto simp: word_less_nat_alt)
qed

lemma unat_UNKNOWN_SIZE: "unat UNKNOWN_SIZE = 2 ^ 57 - 1"
  by (simp add: UNKNOWN_SIZE_def)

lemma vint_len_bounds:
  assumes "unat val < 2 ^ 56 - 1"
  shows "vint_len val \<in> {1..8}" "unat val < 2 ^ (7 * vint_len val) - 1"
proof -
  have "val \<noteq> UNKNOWN_SIZE" using assms unat_UNKNOWN_SIZE by auto
  then show "vint_len val \<in> {1..8}" "unat val < 2 ^ (7 * vint_len val) - 1"
    using vint_len_from_bounds [of 8 1 val] assms by (auto simp: vint_len_def)
qed

lemma unat_or_marker:
  assumes "unat (val :: u64) < 2 ^ k" "k < 63"
  shows "unat (val OR push_bit k 1) = unat val + 2 ^ k"
proof -
  have "\<not> bit val k"
  proof -
    have "\<not> bit (unat val) k" using assms(1) by (simp add: bit_iff_odd)
    then show ?thesis by (simp add: bit_unsigned_iff)
  qed
  then have "val OR push_bit k 1 = val + push_bit k 1"
    by (intro disjunctive_add [symmetric]) (auto simp: bit_simps)
  moreover have "unat val + 2 ^ k < 2 ^ 64"
  proof -
    have "unat val + 2 ^ k < 2 ^ Suc k" using assms(1) by simp
    also have "\<dots> \<le> 2 ^ 64" using assms(2) by (intro power_increasing) auto
    finally show ?thesis .
  qed
  ultimately show ?thesis
    using assms(2) by (simp add: unat_word_ariths unat_marker)
qed

lemma write_vint_eq:
  assumes "unat val < 2 ^ 56 - 1"
  defines "n \<equiv> vint_len val"
  shows "write_vint val = be_bytes n (unat val + 2 ^ (7 * n))"
proof -
  note b = vint_len_bounds [OF assms(1), folded n_def]
  then have "unat (val OR push_bit (n * 7) 1) = unat val + 2 ^ (7 * n)"
    by (subst unat_or_marker) (auto simp: mult.commute)
  with b show ?thesis
    by (simp add: write_vint_def Let_def drop_be_bytes flip: n_def)
qed

lemma read_vint_raw_write_vint:
  assumes "unat val < 2 ^ 56 - 1"
  shows "read_vint_raw (write_vint val @ rest) =
    Some (vint_len val, unat val + 2 ^ (7 * vint_len val), rest)"
  unfolding write_vint_eq [OF assms]
  using vint_len_bounds [OF assms] by (intro read_vint_raw_be_bytes) auto

lemma read_vint_write_vint:
  "unat val < 2 ^ 56 - 1 \<Longrightarrow> read_vint (write_vint val @ rest) = Some (unat val, rest)"
  by (simp add: read_vint_def read_vint_raw_write_vint)

section \<open>Lemmas: identifiers and elements\<close>

lemma valid_id_len:
  assumes "valid_id i"
  shows "id_len i \<in> {1..4}" "2 ^ (7 * id_len i) \<le> unat i" "unat i < 2 ^ (7 * id_len i + 1)"
  using assms by (auto simp: valid_id_def id_len_def Let_def word_le_nat_alt)

lemma read_id_write_element_id:
  assumes "valid_id i"
  shows "read_id (write_element_id i @ rest) = Some (unat i, rest)"
proof -
  note len = valid_id_len [OF assms]
  then have "write_element_id i = be_bytes (id_len i) (unat i)"
    by (simp add: write_element_id_def drop_be_bytes)
  moreover have "read_vint_raw (be_bytes (id_len i) (unat i) @ rest) = Some (id_len i, unat i, rest)"
    using len by (intro read_vint_raw_be_bytes) auto
  ultimately show ?thesis by (simp add: read_id_def)
qed

lemma unat_of_size: "valid_size n \<Longrightarrow> unat (of_nat n :: u64) = n"
  by (simp add: valid_size_def unat_of_nat)

lemma valid_size_known: "valid_size n \<Longrightarrow> (of_nat n :: u64) \<noteq> UNKNOWN_SIZE"
  using unat_UNKNOWN_SIZE unat_of_size [of n] by (auto simp: valid_size_def)

lemma read_element_sized:
  assumes "valid_id i" "valid_size (length data)"
  shows "read_element (write_element_bytes i data @ rest) = Some (Sized (unat i) data, rest)"
proof -
  let ?v = "of_nat (length data) :: u64"
  have v: "unat ?v = length data" "unat ?v < 2 ^ 56 - 1" "?v \<noteq> UNKNOWN_SIZE"
    using unat_of_size [OF assms(2)] valid_size_known [OF assms(2)] assms(2)
    by (simp_all add: valid_size_def)
  have "length data + 2 ^ (7 * vint_len ?v) \<noteq> 2 ^ (7 * vint_len ?v + 1) - 1"
    using vint_len_bounds(2) [OF v(2)] v(1) by simp
  with v assms(1) show ?thesis
    by (simp add: read_element_def write_element_bytes_def write_element_size_def
        read_id_write_element_id read_vint_raw_write_vint read_exact_append)
qed

lemma read_element_unsized:
  assumes "valid_id i"
  shows "read_element (write_element_id i @ write_element_size UNKNOWN_SIZE @ rest)
    = Some (Unsized (unat i), rest)"
proof -
  have "write_element_size UNKNOWN_SIZE = be_bytes 8 (2 ^ 57 - 1)"
    by (simp add: write_element_size_def be_bytes_def le_bytes_numeral)
  then have "read_vint_raw (write_element_size UNKNOWN_SIZE @ rest) = Some (8, 2 ^ 57 - 1, rest)"
    using read_vint_raw_be_bytes [of 8 "2 ^ 57 - 1" rest] by simp
  with assms show ?thesis
    by (simp add: read_element_def read_id_write_element_id)
qed

text \<open>Every known-size element the muxer writes is an instance of one self-delimiting
  encoding of an identifier and a payload.\<close>

abbreviation element_enc :: "u32 \<times> bytes \<Rightarrow> bytes" where
  "element_enc e \<equiv> write_element_bytes (fst e) (snd e)"

definition read_sized :: "bytes \<Rightarrow> ((u32 \<times> bytes) \<times> bytes) option" where
  "read_sized s =
     (case read_element s of Some (Sized i p, r) \<Rightarrow> Some ((of_nat i, p), r) | _ \<Rightarrow> None)"

interpretation ebml_elements:
  self_delimiting element_enc read_sized "\<lambda>e. valid_id (fst e) \<and> valid_size (length (snd e))"
  by unfold_locales (simp add: read_sized_def read_element_sized)

interpretation ebml_vints:
  self_delimiting write_vint "\<lambda>s. map_option (\<lambda>(v, r). (of_nat v :: u64, r)) (read_vint s)"
    "\<lambda>v. unat v < 2 ^ 56 - 1"
  by unfold_locales (simp add: read_vint_write_vint)

lemma shift_count_0 [simp]: "shift_count 0 = 0"
  by (simp add: shift_count.simps)

lemma shift_count_pos: "0 < v \<Longrightarrow> shift_count v = Suc (shift_count (v div 256))"
  by (subst shift_count.simps) simp

lemma shift_count_bound: "v < 256 ^ k \<Longrightarrow> shift_count v \<le> k"
proof (induction k arbitrary: v)
  case 0
  then show ?case by simp
next
  case (Suc k)
  have "v div 256 < 256 ^ k" using Suc.prems by (simp add: less_mult_imp_div_less mult.commute)
  then show ?case using Suc.IH by (cases "v = 0") (simp_all add: shift_count_pos)
qed

lemma less_shift_count: "v < 256 ^ shift_count v"
proof (induction v rule: shift_count.induct)
  case (1 v)
  show ?case
  proof (cases "v > 0")
    case True
    with 1 have "v div 256 < 256 ^ shift_count (v div 256)" by simp
    then have "v < 256 * 256 ^ shift_count (v div 256)"
      by (simp add: div_less_iff_less_mult mult.commute)
    with True show ?thesis by (simp add: shift_count_pos)
  qed simp
qed

lemma uint_byte_len_bounds:
  "uint_byte_len val \<in> {1..8}" "unat val < 256 ^ uint_byte_len val"
proof -
  have "unat val < 256 ^ 8" using unsigned_less [of val] by simp
  then have "shift_count (unat val) \<le> 8" by (rule shift_count_bound)
  moreover have "val \<noteq> 0 \<Longrightarrow> 0 < shift_count (unat val)"
    by (simp add: shift_count_pos unat_gt_0)
  ultimately show "uint_byte_len val \<in> {1..8}"
    by (auto simp: uint_byte_len_def Suc_le_eq)
  show "unat val < 256 ^ uint_byte_len val"
    using less_shift_count [of "unat val"] by (simp add: uint_byte_len_def)
qed

lemma write_element_u64_eq:
  "write_element_u64 i val = write_element_bytes i (be_bytes (uint_byte_len val) (unat val))"
  using uint_byte_len_bounds(1) [of val]
  by (simp add: write_element_u64_def write_element_bytes_def Let_def drop_be_bytes)

lemma write_element_f64_eq:
  "write_element_f64 i b = write_element_bytes i (be_bytes 8 (unat b))"
  by (simp add: write_element_f64_def write_element_bytes_def)

lemma write_element_str_eq: "write_element_str i s = write_element_bytes i (str_bytes s)"
  by (simp add: write_element_str_def write_element_bytes_def)

lemmas element_writer_eqs = write_element_u64_eq write_element_f64_eq write_element_str_eq

end
