(* ===== verification/Mkv.thy ===== *)
theory Mkv
  imports Ebml
begin

text \<open>
  The streaming Matroska muxer of \<open>waymux-mux-mkv/src/lib.rs\<close>. The output file is a
  byte array with a position (\<open>cursor\<close>), as a file or an in-memory cursor
  behaves; an I/O error of the medium ends the call that hit it and is not modelled.
  \<open>demux\<close> is the reading side, written from the Matroska layout rules, and the
  properties compare what was written with what it reads.
\<close>

section \<open>Element identifiers and constants\<close>

definition ID_EBML :: u32 where "ID_EBML = 0x1A45DFA3"
definition ID_EBML_VERSION :: u32 where "ID_EBML_VERSION = 0x4286"
definition ID_EBML_READ_VERSION :: u32 where "ID_EBML_READ_VERSION = 0x42F7"
definition ID_EBML_MAX_ID_LENGTH :: u32 where "ID_EBML_MAX_ID_LENGTH = 0x42F2"
definition ID_EBML_MAX_SIZE_LENGTH :: u32 where "ID_EBML_MAX_SIZE_LENGTH = 0x42F3"
definition ID_DOC_TYPE :: u32 where "ID_DOC_TYPE = 0x4282"
definition ID_DOC_TYPE_VERSION :: u32 where "ID_DOC_TYPE_VERSION = 0x4287"
definition ID_DOC_TYPE_READ_VERSION :: u32 where "ID_DOC_TYPE_READ_VERSION = 0x4285"
definition ID_SEGMENT :: u32 where "ID_SEGMENT = 0x18538067"
definition ID_INFO :: u32 where "ID_INFO = 0x1549A966"
definition ID_TIMECODE_SCALE :: u32 where "ID_TIMECODE_SCALE = 0x002AD7B1"
definition ID_MUXING_APP :: u32 where "ID_MUXING_APP = 0x4D80"
definition ID_WRITING_APP :: u32 where "ID_WRITING_APP = 0x5741"
definition ID_DURATION :: u32 where "ID_DURATION = 0x4489"
definition ID_TRACKS :: u32 where "ID_TRACKS = 0x1654AE6B"
definition ID_TRACK_ENTRY :: u32 where "ID_TRACK_ENTRY = 0xAE"
definition ID_TRACK_NUMBER :: u32 where "ID_TRACK_NUMBER = 0xD7"
definition ID_TRACK_UID :: u32 where "ID_TRACK_UID = 0x73C5"
definition ID_TRACK_TYPE :: u32 where "ID_TRACK_TYPE = 0x83"
definition ID_FLAG_LACING :: u32 where "ID_FLAG_LACING = 0x9C"
definition ID_CODEC_ID :: u32 where "ID_CODEC_ID = 0x86"
definition ID_CODEC_PRIVATE :: u32 where "ID_CODEC_PRIVATE = 0x63A2"
definition ID_VIDEO :: u32 where "ID_VIDEO = 0xE0"
definition ID_PIXEL_WIDTH :: u32 where "ID_PIXEL_WIDTH = 0xB0"
definition ID_PIXEL_HEIGHT :: u32 where "ID_PIXEL_HEIGHT = 0xBA"
definition ID_CLUSTER :: u32 where "ID_CLUSTER = 0x1F43B675"
definition ID_TIMECODE :: u32 where "ID_TIMECODE = 0xE7"
definition ID_SIMPLE_BLOCK :: u32 where "ID_SIMPLE_BLOCK = 0xA3"

definition TRACK_TYPE_VIDEO :: u64 where "TRACK_TYPE_VIDEO = 1"
definition TRACK_NUMBER :: u64 where "TRACK_NUMBER = 1"
definition TIMECODE_SCALE_NS :: u64 where "TIMECODE_SCALE_NS = 1000000"
definition CLUSTER_DURATION_MS :: int where "CLUSTER_DURATION_MS = 1000"

lemmas id_defs =
  ID_EBML_def ID_EBML_VERSION_def ID_EBML_READ_VERSION_def ID_EBML_MAX_ID_LENGTH_def
  ID_EBML_MAX_SIZE_LENGTH_def ID_DOC_TYPE_def ID_DOC_TYPE_VERSION_def
  ID_DOC_TYPE_READ_VERSION_def ID_SEGMENT_def ID_INFO_def ID_TIMECODE_SCALE_def
  ID_MUXING_APP_def ID_WRITING_APP_def ID_DURATION_def ID_TRACKS_def ID_TRACK_ENTRY_def
  ID_TRACK_NUMBER_def ID_TRACK_UID_def ID_TRACK_TYPE_def ID_FLAG_LACING_def ID_CODEC_ID_def
  ID_CODEC_PRIVATE_def ID_VIDEO_def ID_PIXEL_WIDTH_def ID_PIXEL_HEIGHT_def ID_CLUSTER_def
  ID_TIMECODE_def ID_SIMPLE_BLOCK_def

section \<open>The output file\<close>

record cursor =
  cur_data :: bytes
  cur_pos :: nat

text \<open>\<open>Write::write_all\<close>: overwrite from the position, padding with zeros when the position
  is past the end, and move the position behind what was written.\<close>

definition write_all :: "bytes \<Rightarrow> cursor \<Rightarrow> cursor" where
  "write_all bs c =
     (let p = cur_pos c; d = cur_data c
      in c\<lparr>cur_data := take p d @ replicate (p - length d) 0 @ bs @ drop (p + length bs) d,
           cur_pos := p + length bs\<rparr>)"

definition seek_start :: "nat \<Rightarrow> cursor \<Rightarrow> cursor" where
  "seek_start p c = c\<lparr>cur_pos := p\<rparr>"

definition seek_end :: "cursor \<Rightarrow> cursor" where
  "seek_end c = c\<lparr>cur_pos := length (cur_data c)\<rparr>"

section \<open>IEEE 754 doubles of natural numbers\<close>

text \<open>\<open>u as f64\<close> for a natural number: the position of its leading bit, then the nearest
  number with a 53-bit significand, ties to even.\<close>

fun top_bit :: "nat \<Rightarrow> nat" where
  "top_bit n = (if n < 2 then 0 else Suc (top_bit (n div 2)))"

declare top_bit.simps [simp del]

definition f64_round :: "nat \<Rightarrow> nat" where
  "f64_round n =
     (let e = top_bit n
      in if e \<le> 52 then n
         else let s = e - 52; q = n div 2 ^ s; r = n mod 2 ^ s; half = 2 ^ (s - 1)
              in (if r > half \<or> r = half \<and> odd q then q + 1 else q) * 2 ^ s)"

definition f64_bits :: "nat \<Rightarrow> u64" where
  "f64_bits n =
     (if n = 0 then 0
      else let m = f64_round n; e = top_bit m
           in of_nat ((e + 1023) * 2 ^ 52 +
                (if e \<le> 52 then m * 2 ^ (52 - e) else m div 2 ^ (e - 52)) - 2 ^ 52))"

text \<open>\<open>x as f64 + 16.0\<close>: both steps round.\<close>

definition f64_duration :: "nat \<Rightarrow> u64" where
  "f64_duration ms = f64_bits (f64_round ms + 16)"

section \<open>The preamble\<close>

definition write_ebml_header :: "cursor \<Rightarrow> cursor" where
  "write_ebml_header w =
     (let body = write_element_u64 ID_EBML_VERSION 1
                 @ write_element_u64 ID_EBML_READ_VERSION 1
                 @ write_element_u64 ID_EBML_MAX_ID_LENGTH 4
                 @ write_element_u64 ID_EBML_MAX_SIZE_LENGTH 8
                 @ write_element_str ID_DOC_TYPE ''matroska''
                 @ write_element_u64 ID_DOC_TYPE_VERSION 4
                 @ write_element_u64 ID_DOC_TYPE_READ_VERSION 2;
          w = write_all (write_element_id ID_EBML) w;
          w = write_all (write_element_size (of_nat (length body))) w
      in write_all body w)"

definition write_segment_start :: "cursor \<Rightarrow> cursor" where
  "write_segment_start w =
     write_all (write_element_size UNKNOWN_SIZE) (write_all (write_element_id ID_SEGMENT) w)"

text \<open>The Info element and the file offset of the Duration value in it.\<close>

definition write_info :: "cursor \<Rightarrow> nat \<times> cursor" where
  "write_info w =
     (let body = write_element_u64 ID_TIMECODE_SCALE TIMECODE_SCALE_NS
                 @ write_element_str ID_MUXING_APP ''waymux-mux-mkv''
                 @ write_element_str ID_WRITING_APP ''waymux-mux-mkv'';
          duration_value_offset_in_body = length body + 3;
          body = body @ write_element_f64 ID_DURATION 0;
          w = write_all (write_element_id ID_INFO) w;
          w = write_all (write_element_size (of_nat (length body))) w;
          body_start = cur_pos w;
          w = write_all body w
      in (body_start + duration_value_offset_in_body, w))"

definition write_tracks :: "u32 \<Rightarrow> u32 \<Rightarrow> bytes \<Rightarrow> string \<Rightarrow> cursor \<Rightarrow> cursor" where
  "write_tracks width height codec_private codec_id w =
     (let video_body = write_element_u64 ID_PIXEL_WIDTH (ucast width)
                       @ write_element_u64 ID_PIXEL_HEIGHT (ucast height);
          track_body = write_element_u64 ID_TRACK_NUMBER TRACK_NUMBER
                       @ write_element_u64 ID_TRACK_UID 0xDEADBEEF
                       @ write_element_u64 ID_TRACK_TYPE TRACK_TYPE_VIDEO
                       @ write_element_u64 ID_FLAG_LACING 0
                       @ write_element_str ID_CODEC_ID codec_id
                       @ write_element_bytes ID_CODEC_PRIVATE codec_private
                       @ write_element_id ID_VIDEO
                       @ write_element_size (of_nat (length video_body))
                       @ video_body;
          tracks_body = write_element_id ID_TRACK_ENTRY
                        @ write_element_size (of_nat (length track_body))
                        @ track_body;
          w = write_all (write_element_id ID_TRACKS) w;
          w = write_all (write_element_size (of_nat (length tracks_body))) w
      in write_all tracks_body w)"

section \<open>The writer\<close>

record mkv_writer =
  inner :: cursor
  cluster_open :: bool
  cluster_base_ms :: int
  frames_total :: u64
  last_pts_ms :: int
  duration_value_offset :: nat

definition new_for_codec :: "cursor \<Rightarrow> u32 \<Rightarrow> u32 \<Rightarrow> bytes \<Rightarrow> string \<Rightarrow> mkv_writer" where
  "new_for_codec c width height codec_private codec_id =
     (let c = write_ebml_header c;
          c = write_segment_start c;
          (off, c) = write_info c;
          c = write_tracks width height codec_private codec_id c
      in \<lparr>inner = c, cluster_open = False, cluster_base_ms = 0, frames_total = 0,
          last_pts_ms = 0, duration_value_offset = off\<rparr>)"

definition mkv_new :: "cursor \<Rightarrow> u32 \<Rightarrow> u32 \<Rightarrow> bytes \<Rightarrow> mkv_writer" where
  "mkv_new c width height codec_private =
     new_for_codec c width height codec_private ''V_MPEG4/ISO/AVC''"

definition write_cluster_start :: "int \<Rightarrow> cursor \<Rightarrow> cursor" where
  "write_cluster_start timecode_ms w =
     (let w = write_all (write_element_id ID_CLUSTER) w;
          w = write_all (write_element_size UNKNOWN_SIZE) w
      in write_all (write_element_u64 ID_TIMECODE (of_int (max timecode_ms 0))) w)"

text \<open>The delta is an \<open>i16\<close>, written as its two's-complement bytes.\<close>

definition write_simple_block :: "u64 \<Rightarrow> int \<Rightarrow> bool \<Rightarrow> bytes \<Rightarrow> cursor \<Rightarrow> cursor" where
  "write_simple_block track_number pts_delta is_keyframe payload w =
     (let header = write_vint track_number @ be_bytes 2 (nat (pts_delta mod 2 ^ 16))
                   @ [if is_keyframe then 0x80 else 0x00];
          body_len = length header + length payload;
          w = write_all (write_element_id ID_SIMPLE_BLOCK) w;
          w = write_all (write_element_size (of_nat body_len)) w;
          w = write_all header w
      in write_all payload w)"

definition need_new_cluster :: "mkv_writer \<Rightarrow> int \<Rightarrow> bool \<Rightarrow> bool" where
  "need_new_cluster m pts_ms is_keyframe \<longleftrightarrow>
     \<not> cluster_open m \<or> pts_ms - cluster_base_ms m > CLUSTER_DURATION_MS
     \<or> is_keyframe \<and> pts_ms - cluster_base_ms m > 50"

definition write_frame :: "bytes \<Rightarrow> int \<Rightarrow> bool \<Rightarrow> mkv_writer \<Rightarrow> mkv_writer" where
  "write_frame nal_data pts_ms is_keyframe m =
     (let m = (if need_new_cluster m pts_ms is_keyframe
               then m\<lparr>inner := write_cluster_start pts_ms (inner m),
                      cluster_open := True, cluster_base_ms := pts_ms\<rparr>
               else m);
          delta = wrap_signed 16 (pts_ms - cluster_base_ms m)
      in m\<lparr>inner := write_simple_block TRACK_NUMBER delta is_keyframe nal_data (inner m),
           frames_total := frames_total m + 1, last_pts_ms := pts_ms\<rparr>)"

definition finish :: "mkv_writer \<Rightarrow> cursor" where
  "finish m =
     (let duration = f64_duration (nat (max (last_pts_ms m) 0));
          c = seek_start (duration_value_offset m) (inner m);
          c = write_all (be_bytes 8 (unat duration)) c
      in seek_end c)"

section \<open>Reading back\<close>

type_synonym mkv_frame = "bytes \<times> int \<times> bool"

text \<open>A SimpleBlock: the track, the signed timecode relative to the cluster's, the flags.\<close>

definition parse_block :: "int \<Rightarrow> bytes \<Rightarrow> mkv_frame option" where
  "parse_block base body =
     (case read_vint body of
        Some (trk, b1 # b2 # flags # payload) \<Rightarrow>
          if trk = 1
          then Some (payload, base + wrap_signed 16 (int (of_be_bytes [b1, b2])), unat flags \<ge> 128)
          else None
      | _ \<Rightarrow> None)"

text \<open>The element stream after the preamble: clusters of unknown size, timecodes, blocks.
  \<open>fuel\<close> bounds the number of elements.\<close>

fun demux :: "nat \<Rightarrow> int \<Rightarrow> bytes \<Rightarrow> mkv_frame list option" where
  "demux fuel base [] = Some []"
| "demux 0 base s = None"
| "demux (Suc fuel) base s =
     (case read_element s of
        None \<Rightarrow> None
      | Some (Unsized i, r) \<Rightarrow> if i = unat ID_CLUSTER then demux fuel base r else None
      | Some (Sized i p, r) \<Rightarrow>
          if i = unat ID_TIMECODE then demux fuel (int (of_be_bytes p)) r
          else if i = unat ID_SIMPLE_BLOCK then
            (case parse_block base p of
               None \<Rightarrow> None
             | Some f \<Rightarrow> map_option (\<lambda>fs. f # fs) (demux fuel base r))
          else None)"

text \<open>Frames a recording can hold: presentation times that fit the signed 64-bit clock and are
  no more than 32768 ms behind the latest one, payloads below the EBML size limit.\<close>

primrec pts_ok :: "int \<Rightarrow> mkv_frame list \<Rightarrow> bool" where
  "pts_ok latest [] = True"
| "pts_ok latest (f # fs) =
     (case f of (nal, pts, key) \<Rightarrow>
        0 \<le> pts \<and> pts < 2 ^ 63 \<and> latest - 32768 \<le> pts \<and> valid_size (length nal + 4)
        \<and> pts_ok (max latest pts) fs)"

definition put_frame :: "mkv_frame \<Rightarrow> mkv_writer \<Rightarrow> mkv_writer" where
  "put_frame f m = (case f of (nal, pts, key) \<Rightarrow> write_frame nal pts key m)"

section \<open>Lemmas: the output file\<close>

definition at_end :: "cursor \<Rightarrow> bool" where
  "at_end c \<longleftrightarrow> cur_pos c = length (cur_data c)"

lemma write_all_at_end [simp]:
  assumes "at_end c"
  shows "cur_data (write_all bs c) = cur_data c @ bs" "at_end (write_all bs c)"
    "cur_pos (write_all bs c) = length (cur_data c) + length bs"
  using assms by (simp_all add: write_all_def at_end_def Let_def)

definition block_body :: "int \<Rightarrow> bool \<Rightarrow> bytes \<Rightarrow> bytes" where
  "block_body delta key payload =
     write_vint TRACK_NUMBER @ be_bytes 2 (nat (delta mod 2 ^ 16))
       @ [if key then 0x80 else 0x00] @ payload"

definition cluster_bytes :: "int \<Rightarrow> bytes" where
  "cluster_bytes pts =
     write_element_id ID_CLUSTER @ write_element_size UNKNOWN_SIZE
       @ write_element_u64 ID_TIMECODE (of_int (max pts 0))"

lemma write_cluster_start_at_end [simp]:
  assumes "at_end c"
  shows "cur_data (write_cluster_start pts c) = cur_data c @ cluster_bytes pts"
    "at_end (write_cluster_start pts c)"
  using assms by (simp_all add: write_cluster_start_def cluster_bytes_def Let_def)

lemma write_simple_block_at_end [simp]:
  assumes "at_end c"
  shows "cur_data (write_simple_block TRACK_NUMBER d key pl c) =
      cur_data c @ write_element_bytes ID_SIMPLE_BLOCK (block_body d key pl)"
    "at_end (write_simple_block TRACK_NUMBER d key pl c)"
  using assms
  by (simp_all add: write_simple_block_def block_body_def write_element_bytes_def Let_def algebra_simps)

section \<open>Lemmas: reading blocks and clusters back\<close>

lemma valid_ids [simp]:
  "valid_id ID_EBML" "valid_id ID_EBML_VERSION" "valid_id ID_EBML_READ_VERSION"
  "valid_id ID_EBML_MAX_ID_LENGTH" "valid_id ID_EBML_MAX_SIZE_LENGTH" "valid_id ID_DOC_TYPE"
  "valid_id ID_DOC_TYPE_VERSION" "valid_id ID_DOC_TYPE_READ_VERSION" "valid_id ID_SEGMENT"
  "valid_id ID_INFO" "valid_id ID_TIMECODE_SCALE" "valid_id ID_MUXING_APP"
  "valid_id ID_WRITING_APP" "valid_id ID_DURATION" "valid_id ID_TRACKS" "valid_id ID_TRACK_ENTRY"
  "valid_id ID_TRACK_NUMBER" "valid_id ID_TRACK_UID" "valid_id ID_TRACK_TYPE"
  "valid_id ID_FLAG_LACING" "valid_id ID_CODEC_ID" "valid_id ID_CODEC_PRIVATE"
  "valid_id ID_VIDEO" "valid_id ID_PIXEL_WIDTH" "valid_id ID_PIXEL_HEIGHT" "valid_id ID_CLUSTER"
  "valid_id ID_TIMECODE" "valid_id ID_SIMPLE_BLOCK"
  by (simp_all add: valid_id_def id_defs)

lemma wrap_signed_16_mod:
  assumes "- 32768 \<le> d" "d \<le> 32767"
  shows "wrap_signed 16 (d mod 65536) = d"
  using assms by (simp add: wrap_signed_def mod_add_left_eq)

lemma length_write_vint_1: "length (write_vint TRACK_NUMBER) = 1"
proof -
  have "(8 :: nat) = Suc 7" by simp
  then have "vint_len_from 8 1 1 = 1"
    by (simp only: vint_len_from.simps) simp
  then have "vint_len 1 = 1" by (simp add: vint_len_def UNKNOWN_SIZE_def)
  then show ?thesis by (simp add: write_vint_def TRACK_NUMBER_def)
qed

lemma parse_block_body:
  assumes "- 32768 \<le> d" "d \<le> 32767"
  shows "parse_block base (block_body d key pl) = Some (pl, base + d, key)"
proof -
  have two: "be_bytes 2 n = [of_nat (n div 256), of_nat n]" for n
    by (simp add: be_bytes_def le_bytes_numeral)
  have "nat (d mod 65536) < 256 ^ 2"
    using pos_mod_bound [of 65536 d] by simp
  then have "of_be_bytes (be_bytes 2 (nat (d mod 65536))) = nat (d mod 65536)"
    by (simp add: of_be_bytes_be_bytes)
  then have "int (of_be_bytes [of_nat (nat (d mod 65536) div 256), of_nat (nat (d mod 65536))])
      = d mod 65536"
    by (simp add: two)
  with assms show ?thesis
    by (simp add: parse_block_def block_body_def two read_vint_write_vint TRACK_NUMBER_def
        wrap_signed_16_mod)
qed

lemma length_block_body: "length (block_body d key pl) = length pl + 4"
  by (simp add: block_body_def length_write_vint_1)

lemma demux_step:
  assumes "read_element s = Some (e, r)"
  shows "demux (Suc n) base s =
     (case e of
        Unsized i \<Rightarrow> if i = unat ID_CLUSTER then demux n base r else None
      | Sized i p \<Rightarrow>
          if i = unat ID_TIMECODE then demux n (int (of_be_bytes p)) r
          else if i = unat ID_SIMPLE_BLOCK then
            (case parse_block base p of
               None \<Rightarrow> None
             | Some f \<Rightarrow> map_option (\<lambda>fs. f # fs) (demux n base r))
          else None)"
proof -
  have "s \<noteq> []" using assms by (auto simp: read_element_def read_id_def read_vint_raw_def)
  with assms show ?thesis by (cases s) (auto split: element.splits)
qed

lemma demux_block:
  assumes "- 32768 \<le> d" "d \<le> 32767" "valid_size (length pl + 4)"
  shows "demux (Suc n) base (write_element_bytes ID_SIMPLE_BLOCK (block_body d key pl) @ r) =
    map_option (\<lambda>fs. (pl, base + d, key) # fs) (demux n base r)"
proof -
  have "read_element (write_element_bytes ID_SIMPLE_BLOCK (block_body d key pl) @ r) =
      Some (Sized (unat ID_SIMPLE_BLOCK) (block_body d key pl), r)"
    using assms(3) by (intro read_element_sized) (simp_all add: length_block_body)
  from demux_step [OF this] parse_block_body [OF assms(1,2)] show ?thesis
    by (simp add: id_defs)
qed

lemma demux_cluster:
  assumes "0 \<le> pts" "pts < 2 ^ 63"
  shows "demux (Suc (Suc n)) base (cluster_bytes pts @ r) = demux n pts r"
proof -
  let ?v = "of_int (max pts 0) :: u64"
  let ?p = "be_bytes (uint_byte_len ?v) (unat ?v)"
  have v: "unat ?v = nat pts"
    using assms by (simp add: unat_eq_nat_uint uint_word_of_int)
  have "valid_size (length ?p)"
    using uint_byte_len_bounds(1) [of ?v] by (simp add: valid_size_def)
  then have "read_element (write_element_bytes ID_TIMECODE ?p @ r) =
      Some (Sized (unat ID_TIMECODE) ?p, r)"
    by (intro read_element_sized) simp_all
  moreover have "of_be_bytes ?p = nat pts"
    using uint_byte_len_bounds(2) [of ?v] by (simp add: of_be_bytes_be_bytes v)
  moreover note read_element_unsized [of ID_CLUSTER "write_element_bytes ID_TIMECODE ?p @ r"]
  ultimately show ?thesis
    using assms(1) by (simp add: cluster_bytes_def write_element_u64_eq demux_step)
qed

section \<open>Lemmas: whole recordings\<close>

text \<open>The bytes one frame adds to the file.\<close>

definition frame_chunk :: "mkv_writer \<Rightarrow> mkv_frame \<Rightarrow> bytes" where
  "frame_chunk m f =
     (case f of (nal, pts, key) \<Rightarrow>
        let fresh = need_new_cluster m pts key;
            base = (if fresh then pts else cluster_base_ms m)
        in (if fresh then cluster_bytes pts else [])
           @ write_element_bytes ID_SIMPLE_BLOCK (block_body (wrap_signed 16 (pts - base)) key nal))"

lemma put_frame_effect:
  assumes "at_end (inner m)"
  shows "at_end (inner (put_frame (nal, pts, key) m))"
    "cur_data (inner (put_frame (nal, pts, key) m)) = cur_data (inner m) @ frame_chunk m (nal, pts, key)"
    "cluster_open (put_frame (nal, pts, key) m)"
    "cluster_base_ms (put_frame (nal, pts, key) m) =
       (if need_new_cluster m pts key then pts else cluster_base_ms m)"
    "duration_value_offset (put_frame (nal, pts, key) m) = duration_value_offset m"
    "frames_total (put_frame (nal, pts, key) m) = frames_total m + 1"
    "last_pts_ms (put_frame (nal, pts, key) m) = pts"
  using assms by (auto simp: put_frame_def write_frame_def frame_chunk_def Let_def need_new_cluster_def)

text \<open>What every call to \<open>write_frame\<close> keeps: the position is at the end, and the open
  cluster's timecode is not ahead of the latest presentation time.\<close>

definition mkv_inv :: "int \<Rightarrow> mkv_writer \<Rightarrow> bool" where
  "mkv_inv latest m \<longleftrightarrow> at_end (inner m) \<and> 0 \<le> latest
     \<and> (cluster_open m \<longrightarrow> 0 \<le> cluster_base_ms m \<and> cluster_base_ms m \<le> latest)"

lemma mkv_inv_put_frame:
  assumes "mkv_inv latest m" "0 \<le> pts"
  shows "mkv_inv (max latest pts) (put_frame (nal, pts, key) m)"
  using assms by (auto simp: mkv_inv_def put_frame_effect need_new_cluster_def)

lemma frame_delta_range:
  assumes "mkv_inv latest m" "latest - 32768 \<le> pts"
    and base_def: "base = (if need_new_cluster m pts key then pts else cluster_base_ms m)"
  shows "- 32768 \<le> pts - base" "pts - base \<le> 1000" "wrap_signed 16 (pts - base) = pts - base"
proof -
  show r: "- 32768 \<le> pts - base" "pts - base \<le> 1000"
    using assms(1,2) by (auto simp: base_def mkv_inv_def need_new_cluster_def CLUSTER_DURATION_MS_def)
  show "wrap_signed 16 (pts - base) = pts - base"
    using r by (intro wrap_signed_id) auto
qed

lemma demux_frame_chunk:
  assumes inv: "mkv_inv latest m" and pts: "0 \<le> pts" "pts < 2 ^ 63" "latest - 32768 \<le> pts"
    and sz: "valid_size (length nal + 4)" and b: "cluster_open m \<longrightarrow> b = cluster_base_ms m"
    and r: "\<And>n'. n \<le> n' \<Longrightarrow>
      demux n' (cluster_base_ms (put_frame (nal, pts, key) m)) r = Some fs"
  shows "n + 3 \<le> n' \<Longrightarrow> demux n' b (frame_chunk m (nal, pts, key) @ r) = Some ((nal, pts, key) # fs)"
proof -
  assume n': "n + 3 \<le> n'"
  define k where "k = n' - 3"
  with n' have k: "n' = Suc (Suc (Suc k))" "n \<le> k" by auto
  have "at_end (inner m)" using inv by (simp add: mkv_inv_def)
  note eff = put_frame_effect [OF this]
  note d = frame_delta_range [OF inv pts(3) refl, of key]
  show ?thesis
  proof (cases "need_new_cluster m pts key")
    case True
    with d k sz pts r [of k] eff(4) show ?thesis
      by (simp add: frame_chunk_def Let_def demux_cluster demux_block)
  next
    case False
    with b have "b = cluster_base_ms m" by (simp add: need_new_cluster_def)
    with False d k sz r [of "Suc (Suc k)"] eff(4) show ?thesis
      by (simp add: frame_chunk_def Let_def demux_block)
  qed
qed

lemma put_frames_demux:
  assumes "mkv_inv latest m" "pts_ok latest fs" "cluster_open m \<longrightarrow> b = cluster_base_ms m"
  shows "\<exists>chunk. cur_data (inner (fold put_frame fs m)) = cur_data (inner m) @ chunk
    \<and> (\<forall>n. 3 * length fs \<le> n \<longrightarrow> demux n b chunk = Some fs)"
  using assms
proof (induction fs arbitrary: m latest b)
  case Nil
  have "demux n b [] = Some []" for n by simp
  then show ?case by (intro exI [of _ "[]"]) simp
next
  case (Cons f fs)
  obtain nal pts key where f: "f = (nal, pts, key)" by (cases f) auto
  let ?m = "put_frame (nal, pts, key) m"
  have end_m: "at_end (inner m)" using Cons.prems(1) by (simp add: mkv_inv_def)
  note eff = put_frame_effect [OF end_m, of nal pts key]
  from Cons.prems(2) f have p: "0 \<le> pts" "pts < 2 ^ 63" "latest - 32768 \<le> pts"
    "valid_size (length nal + 4)" "pts_ok (max latest pts) fs" by auto
  from Cons.IH [OF mkv_inv_put_frame [OF Cons.prems(1) p(1)] p(5), where b = "cluster_base_ms ?m"]
  obtain chunk where c: "cur_data (inner (fold put_frame fs ?m)) = cur_data (inner ?m) @ chunk"
    "\<And>n. 3 * length fs \<le> n \<Longrightarrow> demux n (cluster_base_ms ?m) chunk = Some fs" by blast
  from demux_frame_chunk [OF Cons.prems(1) p(1-4) Cons.prems(3) c(2)]
  have "3 * length fs + 3 \<le> n \<Longrightarrow> demux n b (frame_chunk m f @ chunk) = Some (f # fs)" for n
    by (simp add: f)
  moreover have "cur_data (inner (fold put_frame (f # fs) m)) = cur_data (inner m) @ frame_chunk m f @ chunk"
    using c(1) eff(2) by (simp add: f)
  ultimately show ?case by (intro exI [of _ "frame_chunk m f @ chunk"]) auto
qed

lemma pts_ok_last: "pts_ok latest fs \<Longrightarrow> fs \<noteq> [] \<Longrightarrow> 0 \<le> fst (snd (last fs))"
  by (induction fs arbitrary: latest) (auto split: prod.splits)

lemma fold_put_frame_fields:
  assumes "at_end (inner m)"
  shows "duration_value_offset (fold put_frame fs m) = duration_value_offset m \<and>
    frames_total (fold put_frame fs m) = frames_total m + of_nat (length fs) \<and>
    last_pts_ms (fold put_frame fs m) = (if fs = [] then last_pts_ms m else fst (snd (last fs))) \<and>
    at_end (inner (fold put_frame fs m))"
  using assms
proof (induction fs arbitrary: m)
  case (Cons f fs)
  obtain nal pts key where f: "f = (nal, pts, key)" by (cases f) auto
  note eff = put_frame_effect [OF Cons.prems, of nal pts key]
  with Cons.IH [of "put_frame f m"] show ?case by (simp add: f)
qed simp

section \<open>Lemmas: the preamble\<close>

abbreviation empty_file :: cursor where
  "empty_file \<equiv> \<lparr>cur_data = [], cur_pos = 0\<rparr>"

definition header_body :: bytes where
  "header_body =
     write_element_u64 ID_EBML_VERSION 1 @ write_element_u64 ID_EBML_READ_VERSION 1
     @ write_element_u64 ID_EBML_MAX_ID_LENGTH 4 @ write_element_u64 ID_EBML_MAX_SIZE_LENGTH 8
     @ write_element_str ID_DOC_TYPE ''matroska''
     @ write_element_u64 ID_DOC_TYPE_VERSION 4 @ write_element_u64 ID_DOC_TYPE_READ_VERSION 2"

text \<open>The Info body with a given Duration.\<close>

definition info_front :: bytes where
  "info_front =
     write_element_u64 ID_TIMECODE_SCALE TIMECODE_SCALE_NS
     @ write_element_str ID_MUXING_APP ''waymux-mux-mkv''
     @ write_element_str ID_WRITING_APP ''waymux-mux-mkv''"

definition info_body :: "u64 \<Rightarrow> bytes" where
  "info_body bits = info_front @ write_element_f64 ID_DURATION bits"

definition tracks_bytes :: "u32 \<Rightarrow> u32 \<Rightarrow> bytes \<Rightarrow> string \<Rightarrow> bytes" where
  "tracks_bytes width height codec_private codec_id =
     write_element_bytes ID_TRACKS (write_element_bytes ID_TRACK_ENTRY
       (write_element_u64 ID_TRACK_NUMBER TRACK_NUMBER
        @ write_element_u64 ID_TRACK_UID 0xDEADBEEF
        @ write_element_u64 ID_TRACK_TYPE TRACK_TYPE_VIDEO
        @ write_element_u64 ID_FLAG_LACING 0
        @ write_element_str ID_CODEC_ID codec_id
        @ write_element_bytes ID_CODEC_PRIVATE codec_private
        @ write_element_bytes ID_VIDEO
            (write_element_u64 ID_PIXEL_WIDTH (ucast width)
             @ write_element_u64 ID_PIXEL_HEIGHT (ucast height))))"

text \<open>The file up to the first cluster, had the duration been known when it was opened.\<close>

definition preamble :: "u64 \<Rightarrow> u32 \<Rightarrow> u32 \<Rightarrow> bytes \<Rightarrow> string \<Rightarrow> bytes" where
  "preamble bits width height codec_private codec_id =
     write_element_bytes ID_EBML header_body
     @ (write_element_id ID_SEGMENT @ write_element_size UNKNOWN_SIZE)
     @ write_element_bytes ID_INFO (info_body bits)
     @ tracks_bytes width height codec_private codec_id"

lemma write_vint_8: "write_element_size 8 = [0x88]"
proof -
  have "(8 :: nat) = Suc 7" by simp
  then have "vint_len_from 8 1 8 = 1"
    by (simp only: vint_len_from.simps) simp
  then have "vint_len 8 = 1" by (simp add: vint_len_def UNKNOWN_SIZE_def)
  then show ?thesis
    by (simp add: write_element_size_def UNKNOWN_SIZE_def write_vint_def be_bytes_def le_bytes_numeral)
qed

lemma duration_element:
  "write_element_f64 ID_DURATION bits = [0x44, 0x89, 0x88] @ be_bytes 8 (unat bits)"
  by (simp add: write_element_f64_def write_vint_8 write_element_id_def id_len_def ID_DURATION_def
      be_bytes_def [of 4] le_bytes_numeral)

definition info_offset :: "nat" where
  "info_offset =
     length (write_element_bytes ID_EBML header_body)
     + length (write_element_id ID_SEGMENT @ write_element_size UNKNOWN_SIZE)
     + length (write_element_id ID_INFO)
     + length (write_element_size (of_nat (length (info_body 0))))
     + length info_front + 3"

lemma length_info_body: "length (info_body bits) = length (info_body 0)"
  by (simp add: info_body_def duration_element)

lemma new_for_codec_preamble:
  fixes width height :: u32 and codec_private :: bytes and codec_id :: string
  defines "m \<equiv> new_for_codec empty_file width height codec_private codec_id"
  shows "cur_data (inner m) = preamble 0 width height codec_private codec_id"
    "at_end (inner m)" "duration_value_offset m = info_offset"
    "\<not> cluster_open m" "frames_total m = 0" "last_pts_ms m = 0"
proof -
  have e: "at_end empty_file" by (simp add: at_end_def)
  show "cur_data (inner m) = preamble 0 width height codec_private codec_id"
    "at_end (inner m)" "duration_value_offset m = info_offset"
    "\<not> cluster_open m" "frames_total m = 0" "last_pts_ms m = 0"
    unfolding m_def new_for_codec_def write_ebml_header_def write_segment_start_def write_info_def
      write_tracks_def Let_def
    by (simp_all add: e preamble_def header_body_def info_body_def info_front_def tracks_bytes_def
        info_offset_def write_element_bytes_def)
qed

lemma write_element_size_le:
  assumes "valid_size n"
  shows "length (write_element_size (of_nat n)) \<le> 8"
proof -
  have "unat (of_nat n :: u64) < 2 ^ 56 - 1"
    using assms unat_of_size [OF assms] by (simp add: valid_size_def)
  then show ?thesis
    using vint_len_bounds(1) write_vint_eq valid_size_known [OF assms]
    by (auto simp: write_element_size_def)
qed

lemma write_element_bytes_le:
  assumes "length data \<le> k" "k < 2 ^ 50" "valid_id i"
  shows "length (write_element_bytes i data) \<le> k + 12"
proof -
  have "valid_size (length data)" using assms(1,2) by (simp add: valid_size_def)
  from write_element_size_le [OF this] valid_id_len(1) [OF assms(3)] assms(1) show ?thesis
    by (simp add: write_element_bytes_def write_element_id_def)
qed

lemma write_element_u64_le: "valid_id i \<Longrightarrow> length (write_element_u64 i v) \<le> 20"
  using uint_byte_len_bounds(1) [of v]
    write_element_bytes_le [of "be_bytes (uint_byte_len v) (unat v)" 8 i]
  by (simp add: write_element_u64_eq)

lemma tracks_bytes_sized:
  assumes "length codec_private + length codec_id < 2 ^ 40"
  shows "\<exists>tracks. tracks_bytes width height codec_private codec_id = write_element_bytes ID_TRACKS tracks
    \<and> valid_size (length tracks)"
proof -
  let ?vid = "write_element_u64 ID_PIXEL_WIDTH (ucast width)
    @ write_element_u64 ID_PIXEL_HEIGHT (ucast height)"
  let ?entry = "write_element_u64 ID_TRACK_NUMBER TRACK_NUMBER
        @ write_element_u64 ID_TRACK_UID 0xDEADBEEF
        @ write_element_u64 ID_TRACK_TYPE TRACK_TYPE_VIDEO
        @ write_element_u64 ID_FLAG_LACING 0
        @ write_element_str ID_CODEC_ID codec_id
        @ write_element_bytes ID_CODEC_PRIVATE codec_private
        @ write_element_bytes ID_VIDEO ?vid"
  note u = write_element_u64_le
  have "length (write_element_bytes ID_VIDEO ?vid) \<le> 40 + 12"
    using u [of ID_PIXEL_WIDTH "ucast width"] u [of ID_PIXEL_HEIGHT "ucast height"]
    by (intro write_element_bytes_le) simp_all
  moreover have "length (write_element_str ID_CODEC_ID codec_id) \<le> length codec_id + 12"
    unfolding write_element_str_eq
    using assms by (intro write_element_bytes_le) (simp_all add: str_bytes_def)
  moreover have "length (write_element_bytes ID_CODEC_PRIVATE codec_private) \<le> length codec_private + 12"
    using assms by (intro write_element_bytes_le) simp_all
  ultimately have "length ?entry \<le> length codec_private + length codec_id + 200"
    using u [of ID_TRACK_NUMBER TRACK_NUMBER] u [of ID_TRACK_UID "0xDEADBEEF"]
      u [of ID_TRACK_TYPE TRACK_TYPE_VIDEO] u [of ID_FLAG_LACING 0] by simp
  from write_element_bytes_le [OF this, of ID_TRACK_ENTRY] assms
  have "length (write_element_bytes ID_TRACK_ENTRY ?entry) \<le> length codec_private + length codec_id + 212"
    by simp
  with assms have "valid_size (length (write_element_bytes ID_TRACK_ENTRY ?entry))"
    by (simp add: valid_size_def)
  then show ?thesis unfolding tracks_bytes_def by blast
qed

lemma header_body_size: "valid_size (length header_body)"
proof -
  have "length (write_element_bytes ID_DOC_TYPE (str_bytes ''matroska'')) \<le> 8 + 12"
    by (rule write_element_bytes_le) (simp_all add: str_bytes_def)
  then have "length header_body \<le> 200"
    using write_element_u64_le [of ID_EBML_VERSION 1] write_element_u64_le [of ID_EBML_READ_VERSION 1]
      write_element_u64_le [of ID_EBML_MAX_ID_LENGTH 4] write_element_u64_le [of ID_EBML_MAX_SIZE_LENGTH 8]
      write_element_u64_le [of ID_DOC_TYPE_VERSION 4] write_element_u64_le [of ID_DOC_TYPE_READ_VERSION 2]
    by (simp add: header_body_def write_element_str_eq)
  then show ?thesis by (simp add: valid_size_def)
qed

lemma info_body_size: "valid_size (length (info_body bits))"
proof -
  have "length (write_element_bytes i (str_bytes ''waymux-mux-mkv'')) \<le> 14 + 12" if "valid_id i" for i
    using that by (intro write_element_bytes_le) (simp_all add: str_bytes_def)
  from this [of ID_MUXING_APP] this [of ID_WRITING_APP] have "length (info_body bits) \<le> 200"
    using write_element_u64_le [of ID_TIMECODE_SCALE TIMECODE_SCALE_NS]
    by (simp add: info_body_def info_front_def duration_element write_element_str_eq)
  then show ?thesis by (simp add: valid_size_def)
qed

lemma timecode_scale_bytes:
  "be_bytes (uint_byte_len TIMECODE_SCALE_NS) (unat TIMECODE_SCALE_NS) = [0x0F, 0x42, 0x40]"
proof -
  have "uint_byte_len TIMECODE_SCALE_NS = 3"
    by (simp add: uint_byte_len_def TIMECODE_SCALE_NS_def shift_count_pos)
  then show ?thesis by (simp add: TIMECODE_SCALE_NS_def be_bytes_def le_bytes_numeral)
qed

text \<open>The preamble splits at the Duration value, eight bytes from \<open>info_offset\<close> on.\<close>

lemma preamble_split:
  "\<exists>pre post. length pre = info_offset \<and>
    (\<forall>bits. preamble bits width height codec_private codec_id = pre @ be_bytes 8 (unat bits) @ post)"
proof -
  let ?pre = "write_element_bytes ID_EBML header_body
    @ (write_element_id ID_SEGMENT @ write_element_size UNKNOWN_SIZE)
    @ write_element_id ID_INFO @ write_element_size (of_nat (length (info_body 0)))
    @ info_front @ [0x44, 0x89, 0x88]"
  have "preamble bits width height codec_private codec_id =
      ?pre @ be_bytes 8 (unat bits) @ tracks_bytes width height codec_private codec_id" for bits
    unfolding preamble_def write_element_bytes_def [of ID_INFO] length_info_body [of bits]
    by (simp add: info_body_def duration_element)
  then show ?thesis
    by (intro exI [of _ ?pre] exI [of _ "tracks_bytes width height codec_private codec_id"])
      (simp add: info_offset_def)
qed

lemma finish_data:
  assumes "cur_data (inner m) = pre @ old @ post" "length pre = duration_value_offset m"
    "length old = 8"
  shows "cur_data (finish m) =
    pre @ be_bytes 8 (unat (f64_duration (nat (max (last_pts_ms m) 0)))) @ post"
    "at_end (finish m)"
  using assms
  by (simp_all add: finish_def Let_def seek_start_def seek_end_def write_all_def at_end_def)

section \<open>Properties\<close>

text \<open>C3: A recording that is opened on an empty file, given any frames whose times are
  within 32.768 s of the latest one, and finished, is byte for byte the preamble with the
  final duration followed by a cluster stream, from which a Matroska reader recovers
  every frame in order with its exact time, keyframe flag and payload.\<close>

theorem mkv_recording_round_trip:
  assumes "pts_ok 0 fs"
  shows "\<exists>chunk.
    cur_data (finish (fold put_frame fs (new_for_codec empty_file width height codec_private codec_id)))
      = preamble (f64_duration (if fs = [] then 0 else nat (fst (snd (last fs)))))
          width height codec_private codec_id @ chunk
    \<and> demux (3 * length fs) 0 chunk = Some fs"
proof -
  let ?w = "new_for_codec empty_file width height codec_private codec_id"
  let ?m = "fold put_frame fs ?w"
  note new = new_for_codec_preamble [of width height codec_private codec_id]
  have "mkv_inv 0 ?w" using new by (simp add: mkv_inv_def)
  with assms new(4) obtain chunk where
      c: "cur_data (inner ?m) = preamble 0 width height codec_private codec_id @ chunk"
         "demux (3 * length fs) 0 chunk = Some fs"
    using put_frames_demux [of 0 ?w fs 0] new(1) by auto
  obtain pre post where s: "length pre = info_offset"
      "\<And>bits. preamble bits width height codec_private codec_id = pre @ be_bytes 8 (unat bits) @ post"
    using preamble_split by blast
  note f = fold_put_frame_fields [OF new(2), of fs]
  have "max (last_pts_ms ?m) 0 = (if fs = [] then 0 else fst (snd (last fs)))"
    using f new(6) pts_ok_last [OF assms] by auto
  moreover have "cur_data (finish ?m) =
      pre @ be_bytes 8 (unat (f64_duration (nat (max (last_pts_ms ?m) 0)))) @ post @ chunk"
    using c(1) s f new(3) by (intro finish_data(1) [where old = "be_bytes 8 0"]) simp_all
  ultimately show ?thesis
    using c(2) s(2) by (intro exI [of _ chunk]) auto
qed

theorem mkv_recording_round_trip_witness:
  "\<exists>chunk.
    cur_data (finish (fold put_frame [([1, 2], 0, True), ([3], 60, True), ([4], 40, False)]
        (new_for_codec empty_file 64 48 [7] ''V_FFV1'')))
      = preamble (f64_duration 40) 64 48 [7] ''V_FFV1'' @ chunk
    \<and> demux 9 0 chunk = Some [([1, 2], 0, True), ([3], 60, True), ([4], 40, False)]"
  using mkv_recording_round_trip [of "[([1, 2], 0, True), ([3], 60, True), ([4], 40, False)]"
      64 48 "[7]" "''V_FFV1''"]
  by (simp add: valid_size_def)

text \<open>The preamble is well-formed EBML: a reader finds the EBML header, the Segment of
  unknown size, the Info element whose four children end in the Duration of exactly the
  bits given, and the Tracks element, and then stands at the first cluster.\<close>

theorem mkv_preamble_parses:
  assumes "length codec_private + length codec_id < 2 ^ 40"
  shows "\<exists>r1 r2 r3 tracks.
    read_element (preamble bits width height codec_private codec_id @ rest)
      = Some (Sized (unat ID_EBML) header_body, r1)
    \<and> read_element r1 = Some (Unsized (unat ID_SEGMENT), r2)
    \<and> read_element r2 = Some (Sized (unat ID_INFO) (info_body bits), r3)
    \<and> read_items read_sized 4 (info_body bits) =
         Some ([(ID_TIMECODE_SCALE, [0x0F, 0x42, 0x40]), (ID_MUXING_APP, str_bytes ''waymux-mux-mkv''),
                (ID_WRITING_APP, str_bytes ''waymux-mux-mkv''), (ID_DURATION, be_bytes 8 (unat bits))], [])
    \<and> read_element r3 = Some (Sized (unat ID_TRACKS) tracks, rest)"
proof -
  let ?ib = "info_body bits"
  let ?es = "[(ID_TIMECODE_SCALE, [0x0F, 0x42, 0x40]), (ID_MUXING_APP, str_bytes ''waymux-mux-mkv''),
      (ID_WRITING_APP, str_bytes ''waymux-mux-mkv''), (ID_DURATION, be_bytes 8 (unat bits))]"
  obtain tracks where t: "tracks_bytes width height codec_private codec_id
      = write_element_bytes ID_TRACKS tracks" "valid_size (length tracks)"
    using tracks_bytes_sized [OF assms] by blast
  have ib: "?ib = concat (map element_enc ?es)"
    by (simp add: info_body_def info_front_def element_writer_eqs timecode_scale_bytes)
  have "read_items read_sized (length ?es) (concat (map element_enc ?es) @ []) = Some (?es, [])"
    by (rule ebml_elements.read_items_concat) (simp add: valid_size_def str_bytes_def)
  moreover have "length ?es = 4" by simp
  ultimately have "read_items read_sized 4 ?ib = Some (?es, [])"
    unfolding ib by (simp only: append_Nil2)
  then show ?thesis
    using t by (simp add: preamble_def read_element_sized read_element_unsized header_body_size
        info_body_size)
qed

theorem mkv_preamble_parses_witness:
  "\<exists>r1 r2 r3 tracks.
    read_element (preamble 5 64 48 [7] ''V_FFV1'' @ [1])
      = Some (Sized (unat ID_EBML) header_body, r1)
    \<and> read_element r1 = Some (Unsized (unat ID_SEGMENT), r2)
    \<and> read_element r2 = Some (Sized (unat ID_INFO) (info_body 5), r3)
    \<and> read_items read_sized 4 (info_body 5) =
         Some ([(ID_TIMECODE_SCALE, [0x0F, 0x42, 0x40]), (ID_MUXING_APP, str_bytes ''waymux-mux-mkv''),
                (ID_WRITING_APP, str_bytes ''waymux-mux-mkv''), (ID_DURATION, be_bytes 8 (unat (5 :: u64)))], [])
    \<and> read_element r3 = Some (Sized (unat ID_TRACKS) tracks, [1])"
  by (rule mkv_preamble_parses) simp

end
