(* ===== verification/Viewer_Protocol.thy ===== *)
theory Viewer_Protocol
  imports Codec
begin

text \<open>
  The wire format between the session and the viewer bridge,
  \<open>waymux-session/src/viewer/protocol.rs\<close>: a tag byte, a little-endian 32-bit
  length and a payload. \<open>f32\<close> values are their 32 bits. The properties: what is
  written is read back (an interpretation of \<open>self_delimiting\<close>, so streams of
  frames are read back too), and what an untrusted peer can make the reader accept.
\<close>

section \<open>Frames\<close>

definition TAG_NALU :: u8 where "TAG_NALU = 0x01"
definition TAG_PTS :: u8 where "TAG_PTS = 0x02"
definition TAG_FORCE_KEYFRAME :: u8 where "TAG_FORCE_KEYFRAME = 0x10"
definition TAG_INJECT_OP :: u8 where "TAG_INJECT_OP = 0x11"
definition TAG_SET_BITRATE :: u8 where "TAG_SET_BITRATE = 0x12"
definition TAG_CURSOR_IMAGE :: u8 where "TAG_CURSOR_IMAGE = 0x03"
definition TAG_CURSOR_POS :: u8 where "TAG_CURSOR_POS = 0x04"
definition TAG_SHUTDOWN :: u8 where "TAG_SHUTDOWN = 0xF0"

lemmas tag_defs = TAG_NALU_def TAG_PTS_def TAG_FORCE_KEYFRAME_def TAG_INJECT_OP_def
  TAG_SET_BITRATE_def TAG_CURSOR_IMAGE_def TAG_CURSOR_POS_def TAG_SHUTDOWN_def

definition MAX_PAYLOAD_BYTES :: nat where
  "MAX_PAYLOAD_BYTES = 1024 * 1024"

datatype viewer_frame =
    Nalu bytes
  | PtsHint u64
  | ForceKeyframe
  | InjectOpJson bytes
  | SetBitrate u32
  | Shutdown u8
  | CursorImage (ci_w: u16) (ci_h: u16) (ci_hot_x: u16) (ci_hot_y: u16) (ci_rgba: bytes)
  | CursorPos (cp_x: u32) (cp_y: u32) (cp_seq: u32)

datatype viewer_error =
    PayloadExceedsU32
  | UnexpectedEof
  | PayloadTooLarge nat
  | PtsHintSize
  | SetBitrateSize
  | ShutdownSize
  | CursorImageShort
  | CursorImageSize nat nat
  | CursorPosSize
  | UnknownTag u8

definition write_payload :: "u8 \<Rightarrow> bytes \<Rightarrow> (bytes, viewer_error) result" where
  "write_payload tag payload =
     (if length payload \<ge> 2 ^ 32 then Err PayloadExceedsU32
      else Ok ([tag] @ le_bytes 4 (length payload) @ payload))"

fun write_viewer_frame :: "viewer_frame \<Rightarrow> (bytes, viewer_error) result" where
  "write_viewer_frame (Nalu b) = write_payload TAG_NALU b"
| "write_viewer_frame (PtsHint ms) = write_payload TAG_PTS (le_bytes 8 (unat ms))"
| "write_viewer_frame ForceKeyframe = write_payload TAG_FORCE_KEYFRAME []"
| "write_viewer_frame (InjectOpJson j) = write_payload TAG_INJECT_OP j"
| "write_viewer_frame (SetBitrate bps) = write_payload TAG_SET_BITRATE (le_bytes 4 (unat bps))"
| "write_viewer_frame (Shutdown reason) = write_payload TAG_SHUTDOWN [reason]"
| "write_viewer_frame (CursorImage cw ch hot_x hot_y rgba) =
     write_payload TAG_CURSOR_IMAGE
       (le_bytes 2 (unat cw) @ le_bytes 2 (unat ch) @ le_bytes 2 (unat hot_x)
        @ le_bytes 2 (unat hot_y) @ rgba)"
| "write_viewer_frame (CursorPos x y seq) =
     write_payload TAG_CURSOR_POS
       (le_bytes 4 (unat x) @ le_bytes 4 (unat y) @ le_bytes 4 (unat seq))"

text \<open>\<open>u16::from_le_bytes\<close> and its kin on a slice of the payload.\<close>

definition le_field :: "nat \<Rightarrow> nat \<Rightarrow> bytes \<Rightarrow> 'a::len word" where
  "le_field start n p = of_nat (of_le_bytes (take n (drop start p)))"

text \<open>The \<open>match tag\<close> once header and payload are read.\<close>

definition parse_payload :: "u8 \<Rightarrow> nat \<Rightarrow> bytes \<Rightarrow> (viewer_frame, viewer_error) result" where
  "parse_payload tag len p =
     (if tag = TAG_NALU then Ok (Nalu p)
      else if tag = TAG_PTS then
        (if len \<noteq> 8 then Err PtsHintSize else Ok (PtsHint (le_field 0 8 p)))
      else if tag = TAG_FORCE_KEYFRAME then Ok ForceKeyframe
      else if tag = TAG_INJECT_OP then Ok (InjectOpJson p)
      else if tag = TAG_SET_BITRATE then
        (if len \<noteq> 4 then Err SetBitrateSize else Ok (SetBitrate (le_field 0 4 p)))
      else if tag = TAG_SHUTDOWN then
        (if len \<noteq> 1 then Err ShutdownSize else Ok (Shutdown (hd p)))
      else if tag = TAG_CURSOR_IMAGE then
        (if len < 8 then Err CursorImageShort
         else let w = le_field 0 2 p; h = le_field 2 2 p; hot_x = le_field 4 2 p;
                  hot_y = le_field 6 2 p;
                  expected = 8 + unat (w :: u16) * unat (h :: u16) * 4
              in if len \<noteq> expected then Err (CursorImageSize len expected)
                 else Ok (CursorImage w h hot_x hot_y (drop 8 p)))
      else if tag = TAG_CURSOR_POS then
        (if len \<noteq> 12 then Err CursorPosSize
         else Ok (CursorPos (le_field 0 4 p) (le_field 4 4 p) (le_field 8 4 p)))
      else Err (UnknownTag tag))"

definition read_viewer_frame :: "bytes \<Rightarrow> (viewer_frame \<times> bytes, viewer_error) result" where
  "read_viewer_frame s =
     (case read_exact 5 s of
        None \<Rightarrow> Err UnexpectedEof
      | Some (header, r) \<Rightarrow>
          let tag = hd header; len = of_le_bytes (tl header)
          in if len > MAX_PAYLOAD_BYTES then Err (PayloadTooLarge len)
             else case read_exact len r of
                    None \<Rightarrow> Err UnexpectedEof
                  | Some (payload, r') \<Rightarrow>
                      bind_result (parse_payload tag len payload) (\<lambda>f. Ok (f, r')))"

section \<open>Contract\<close>

text \<open>The frames the session and the bridge exchange: payloads within the read-side cap and
  a cursor bitmap of exactly its announced size.\<close>

fun payload_len :: "viewer_frame \<Rightarrow> nat" where
  "payload_len (Nalu b) = length b"
| "payload_len (PtsHint _) = 8"
| "payload_len ForceKeyframe = 0"
| "payload_len (InjectOpJson j) = length j"
| "payload_len (SetBitrate _) = 4"
| "payload_len (Shutdown _) = 1"
| "payload_len (CursorImage _ _ _ _ rgba) = 8 + length rgba"
| "payload_len (CursorPos _ _ _) = 12"

fun viewer_frame_ok :: "viewer_frame \<Rightarrow> bool" where
  "viewer_frame_ok (CursorImage w h _ _ rgba) \<longleftrightarrow>
     length rgba = unat w * unat h * 4 \<and> 8 + length rgba \<le> MAX_PAYLOAD_BYTES"
| "viewer_frame_ok f \<longleftrightarrow> payload_len f \<le> MAX_PAYLOAD_BYTES"

primrec unwrap_ok :: "'a \<Rightarrow> ('a, 'e) result \<Rightarrow> 'a" where
  "unwrap_ok d (Ok x) = x"
| "unwrap_ok d (Err e) = d"

definition viewer_enc :: "viewer_frame \<Rightarrow> bytes" where
  "viewer_enc f = unwrap_ok [] (write_viewer_frame f)"

definition viewer_rd :: "bytes \<Rightarrow> (viewer_frame \<times> bytes) option" where
  "viewer_rd s = (case read_viewer_frame s of Ok x \<Rightarrow> Some x | Err _ \<Rightarrow> None)"

section \<open>Lemmas\<close>

lemma le_field_skip:
  "length xs = k \<Longrightarrow> k \<le> start \<Longrightarrow> le_field start n (xs @ ys) = le_field (start - k) n ys"
  by (simp add: le_field_def)

lemma le_field_here:
  fixes w :: "'a::len word"
  assumes "256 ^ n = (2 :: nat) ^ LENGTH('a)"
  shows "le_field 0 n (le_bytes n (unat w) @ ys) = w"
proof -
  have "unat w mod 256 ^ n = unat w" using unsigned_less [of w] assms by simp
  then show ?thesis by (simp add: le_field_def of_le_bytes_le_bytes)
qed

lemma le_field_here_all:
  fixes w :: "'a::len word"
  assumes "256 ^ n = (2 :: nat) ^ LENGTH('a)"
  shows "le_field 0 n (le_bytes n (unat w)) = w"
  using le_field_here [OF assms, of w "[]"] by simp

lemma read_written_payload:
  assumes "length p \<le> MAX_PAYLOAD_BYTES" "parse_payload tag (length p) p = Ok f"
  shows "\<exists>bs. write_payload tag p = Ok bs \<and> read_viewer_frame (bs @ rest) = Ok (f, rest)"
proof -
  have len: "of_le_bytes (le_bytes 4 (length p)) = length p" "length p < 2 ^ 32"
    using assms(1) by (simp_all add: of_le_bytes_le_bytes MAX_PAYLOAD_BYTES_def)
  have "read_exact 5 ((tag # le_bytes 4 (length p)) @ p @ rest) = Some (tag # le_bytes 4 (length p), p @ rest)"
    by (rule read_exact_append) simp
  with assms len show ?thesis
    by (simp add: write_payload_def read_viewer_frame_def read_exact_append not_less)
qed

text \<open>The tag and payload each frame is written with.\<close>

fun viewer_parts :: "viewer_frame \<Rightarrow> u8 \<times> bytes" where
  "viewer_parts (Nalu b) = (TAG_NALU, b)"
| "viewer_parts (PtsHint ms) = (TAG_PTS, le_bytes 8 (unat ms))"
| "viewer_parts ForceKeyframe = (TAG_FORCE_KEYFRAME, [])"
| "viewer_parts (InjectOpJson j) = (TAG_INJECT_OP, j)"
| "viewer_parts (SetBitrate bps) = (TAG_SET_BITRATE, le_bytes 4 (unat bps))"
| "viewer_parts (Shutdown reason) = (TAG_SHUTDOWN, [reason])"
| "viewer_parts (CursorImage cw ch hot_x hot_y rgba) =
     (TAG_CURSOR_IMAGE, le_bytes 2 (unat cw) @ le_bytes 2 (unat ch) @ le_bytes 2 (unat hot_x)
        @ le_bytes 2 (unat hot_y) @ rgba)"
| "viewer_parts (CursorPos x y seq) =
     (TAG_CURSOR_POS, le_bytes 4 (unat x) @ le_bytes 4 (unat y) @ le_bytes 4 (unat seq))"

lemma write_viewer_parts: "write_viewer_frame f = write_payload (fst (viewer_parts f)) (snd (viewer_parts f))"
  by (cases f) simp_all

lemma parse_viewer_parts:
  assumes "viewer_frame_ok f" "viewer_parts f = (tag, p)"
  shows "length p \<le> MAX_PAYLOAD_BYTES" "parse_payload tag (length p) p = Ok f"
proof -
  show "length p \<le> MAX_PAYLOAD_BYTES"
    using assms by (cases f) (auto simp: MAX_PAYLOAD_BYTES_def)
  show "parse_payload tag (length p) p = Ok f"
    using assms by (cases f) (auto simp: parse_payload_def tag_defs Let_def le_field_skip
        le_field_here le_field_here_all)
qed

lemma viewer_written:
  assumes "viewer_frame_ok f"
  shows "\<exists>bs. write_viewer_frame f = Ok bs \<and> read_viewer_frame (bs @ rest) = Ok (f, rest)"
  unfolding write_viewer_parts
  using parse_viewer_parts [OF assms] by (intro read_written_payload) (cases "viewer_parts f"; simp)+

interpretation viewer_frames: self_delimiting viewer_enc viewer_rd viewer_frame_ok
proof
  fix f rest
  assume "viewer_frame_ok f"
  from viewer_written [OF this, of rest] show "viewer_rd (viewer_enc f @ rest) = Some (f, rest)"
    by (auto simp: viewer_enc_def viewer_rd_def)
qed

lemma parse_payload_ok:
  assumes "parse_payload tag (length p) p = Ok f" "length p \<le> MAX_PAYLOAD_BYTES"
  shows "viewer_frame_ok f"
  using assms by (auto simp: parse_payload_def Let_def MAX_PAYLOAD_BYTES_def split: if_splits)

section \<open>Properties\<close>

text \<open>C7: Every well-formed viewer frame is written without error, and any sequence of them
  written back to back is read back exactly, in order, leaving the bytes that follow.\<close>

theorem viewer_stream_round_trip:
  assumes "list_all viewer_frame_ok fs"
  shows "list_all (\<lambda>f. is_ok (write_viewer_frame f)) fs
    \<and> read_items viewer_rd (length fs) (concat (map viewer_enc fs) @ rest) = Some (fs, rest)"
proof
  show "list_all (\<lambda>f. is_ok (write_viewer_frame f)) fs"
    using assms by (auto simp: list_all_iff is_ok_iff dest: viewer_written)
  show "read_items viewer_rd (length fs) (concat (map viewer_enc fs) @ rest) = Some (fs, rest)"
    using assms by (rule viewer_frames.read_items_concat)
qed

theorem viewer_stream_round_trip_witness:
  "list_all (\<lambda>f. is_ok (write_viewer_frame f))
     [Nalu [0, 0, 0, 1, 9], CursorImage 1 1 0 0 [1, 2, 3, 4], SetBitrate 70000]
   \<and> read_items viewer_rd 3
       (concat (map viewer_enc [Nalu [0, 0, 0, 1, 9], CursorImage 1 1 0 0 [1, 2, 3, 4], SetBitrate 70000]) @ [5])
     = Some ([Nalu [0, 0, 0, 1, 9], CursorImage 1 1 0 0 [1, 2, 3, 4], SetBitrate 70000], [5])"
  using viewer_stream_round_trip
    [of "[Nalu [0, 0, 0, 1, 9], CursorImage 1 1 0 0 [1, 2, 3, 4], SetBitrate 70000]" "[5]"]
  by (simp add: MAX_PAYLOAD_BYTES_def numeral_3_eq_3)

text \<open>The reader never hands on a malformed frame: whatever bytes the peer sends, an
  accepted frame has a payload of at most 1 MiB and a cursor bitmap of exactly four bytes
  per pixel, consumes a header and that payload from the front of the stream, and a
  length above the cap is refused.\<close>

theorem viewer_reader_sound:
  "case read_viewer_frame s of
     Ok (f, r) \<Rightarrow> viewer_frame_ok f \<and> (\<exists>h p. s = h @ p @ r \<and> length h = 5 \<and> length p \<le> MAX_PAYLOAD_BYTES)
   | Err (PayloadTooLarge n) \<Rightarrow> n > MAX_PAYLOAD_BYTES
   | Err _ \<Rightarrow> True"
proof (cases "read_viewer_frame s")
  case (Ok x)
  then obtain h p f r where hp: "x = (f, r)" "read_exact 5 s = Some (h, p @ r)"
      "length p = of_le_bytes (tl h)" "length p \<le> MAX_PAYLOAD_BYTES"
      "parse_payload (hd h) (length p) p = Ok f"
    by (auto simp: read_viewer_frame_def Let_def read_exact_Some split: option.splits if_splits)
  have "viewer_frame_ok f" using parse_payload_ok [OF hp(5,4)] .
  moreover have "\<exists>h p. s = h @ p @ r \<and> length h = 5 \<and> length p \<le> MAX_PAYLOAD_BYTES"
    using hp(2,4) by (intro exI [of _ h] exI [of _ p]) (simp add: read_exact_Some)
  ultimately show ?thesis
    using Ok hp(1) by simp
next
  case (Err e)
  then show ?thesis
    by (auto simp: read_viewer_frame_def Let_def bind_result_Err_iff parse_payload_def
        split: option.splits if_splits viewer_error.splits)
qed

end
