(* ===== verification/Buffer_Hold.thy ===== *)
theory Buffer_Hold
  imports Prelude
begin

text \<open>
  When an inner client's buffer goes back to it: the deferred-release queue, the holds
  that pin a buffer while an encoder reads it, and the timeline points to signal, from
  \<open>waymux-session/src/state.rs\<close> and \<open>InnerBufferHold\<close> of \<open>recording.rs\<close>. A buffer and a
  timeline point are named by numbers. The log \<open>buf_log\<close> records what the client is sent:
  \<open>wl_buffer.release\<close> and the signal of a point. Each operation takes one lock after
  another, so \<open>buf_step\<close> interleaves the operations of all threads; it also keeps
  \<open>live\<close>, the number of \<open>InnerBufferHold\<close> objects that exist for a buffer, which the code
  does not store.
\<close>

section \<open>State and operations\<close>

type_synonym buffer = nat
type_synonym point = nat

record hold_state =
  hold_count :: nat
  release_requested :: bool

datatype buf_event = BufReleased buffer | PointSignalled buffer point

record buffers =
  pending_releases :: "buffer list"
  release_signals :: "(buffer \<times> point list) list"
  hold_states :: "(buffer \<times> hold_state) list"
  dead :: "buffer list"
  buf_log :: "buf_event list"

definition buffers_new :: buffers where
  "buffers_new = \<lparr>pending_releases = [], release_signals = [], hold_states = [], dead = [], buf_log = []\<rparr>"

definition queue_deferred_release :: "buffer \<Rightarrow> buffers \<Rightarrow> buffers" where
  "queue_deferred_release b s = s\<lparr>pending_releases := pending_releases s @ [b]\<rparr>"

definition note_buffer_release_point :: "buffer \<Rightarrow> point \<Rightarrow> buffers \<Rightarrow> buffers" where
  "note_buffer_release_point b pt s =
     (let q = (case map_of (release_signals s) b of Some q \<Rightarrow> q | None \<Rightarrow> [])
      in s\<lparr>release_signals := alist_insert b (q @ [pt]) (release_signals s)\<rparr>)"

text \<open>\<open>do_release_inner_buffer\<close>: pop the buffer's first point, drop its entry when that was the
  last one, release, signal.\<close>

definition do_release_inner_buffer :: "buffer \<Rightarrow> buffers \<Rightarrow> buffers" where
  "do_release_inner_buffer b s =
     (if b \<in> set (dead s) then s
      else
        let q = (case map_of (release_signals s) b of Some q \<Rightarrow> q | None \<Rightarrow> []);
            signals = (if map_of (release_signals s) b = None then release_signals s
                       else if tl q = [] then alist_remove b (release_signals s)
                       else alist_insert b (tl q) (release_signals s));
            s = s\<lparr>release_signals := signals, buf_log := buf_log s @ [BufReleased b]\<rparr>
        in if q = [] then s else s\<lparr>buf_log := buf_log s @ [PointSignalled b (hd q)]\<rparr>)"

definition release_inner_buffer :: "buffer \<Rightarrow> buffers \<Rightarrow> buffers" where
  "release_inner_buffer b s =
     (if b \<in> set (dead s) then s
      else case map_of (hold_states s) b of
             Some h \<Rightarrow>
               if hold_count h > 0
               then s\<lparr>hold_states := alist_insert b (h\<lparr>release_requested := True\<rparr>) (hold_states s)\<rparr>
               else do_release_inner_buffer b s
           | None \<Rightarrow> do_release_inner_buffer b s)"

definition register_buffer_hold :: "buffer \<Rightarrow> buffers \<Rightarrow> buffers" where
  "register_buffer_hold b s =
     (let h = (case map_of (hold_states s) b of
                 Some h \<Rightarrow> h | None \<Rightarrow> \<lparr>hold_count = 0, release_requested = False\<rparr>)
      in s\<lparr>hold_states := alist_insert b (h\<lparr>hold_count := hold_count h + 1\<rparr>) (hold_states s)\<rparr>)"

definition drop_buffer_hold :: "buffer \<Rightarrow> buffers \<Rightarrow> buffers" where
  "drop_buffer_hold b s =
     (case map_of (hold_states s) b of
        None \<Rightarrow> s
      | Some h \<Rightarrow>
          if hold_count h - 1 = 0
          then let s = s\<lparr>hold_states := alist_remove b (hold_states s)\<rparr>
               in if release_requested h then do_release_inner_buffer b s else s
          else s\<lparr>hold_states := alist_insert b (h\<lparr>hold_count := hold_count h - 1\<rparr>) (hold_states s)\<rparr>)"

text \<open>\<open>take_pending_releases_split\<close>: \<open>kind b\<close> is the dmabuf a buffer wraps, if it wraps one.\<close>

definition take_pending_releases_split ::
    "(buffer \<Rightarrow> nat option) \<Rightarrow> nat \<Rightarrow> buffers \<Rightarrow> (buffer list \<times> buffer list) \<times> buffers" where
  "take_pending_releases_split kind forwarded s =
     (let all = pending_releases s
      in ((filter (\<lambda>b. kind b = Some forwarded) all, filter (\<lambda>b. kind b \<noteq> Some forwarded) all),
          s\<lparr>pending_releases := []\<rparr>))"

definition take_pending_releases :: "buffers \<Rightarrow> buffer list \<times> buffers" where
  "take_pending_releases s = (pending_releases s, s\<lparr>pending_releases := []\<rparr>)"

definition flush_pending_releases :: "buffers \<Rightarrow> buffers" where
  "flush_pending_releases s =
     (let (bufs, s) = take_pending_releases s in fold release_inner_buffer bufs s)"

section \<open>Steps\<close>

record world =
  bufs :: buffers
  live :: "buffer \<Rightarrow> nat"
  noted :: "buffer \<Rightarrow> point list"

definition world_new :: world where
  "world_new = \<lparr>bufs = buffers_new, live = (\<lambda>_. 0), noted = (\<lambda>_. [])\<rparr>"

text \<open>A hold is dropped when the last reference to its object goes, so only a live one is. A
  buffer that is destroyed stays so.\<close>

inductive buf_step :: "world \<Rightarrow> world \<Rightarrow> bool" where
  Defer: "buf_step w (w\<lparr>bufs := queue_deferred_release b (bufs w)\<rparr>)"
| Note: "buf_step w (w\<lparr>bufs := note_buffer_release_point b pt (bufs w), noted := (noted w)(b := noted w b @ [pt])\<rparr>)"
| Release: "buf_step w (w\<lparr>bufs := release_inner_buffer b (bufs w)\<rparr>)"
| Hold: "buf_step w (w\<lparr>bufs := register_buffer_hold b (bufs w), live := (live w)(b := live w b + 1)\<rparr>)"
| Unhold: "live w b > 0 \<Longrightarrow>
    buf_step w (w\<lparr>bufs := drop_buffer_hold b (bufs w), live := (live w)(b := live w b - 1)\<rparr>)"
| Split: "buf_step w (w\<lparr>bufs := snd (take_pending_releases_split kind d (bufs w))\<rparr>)"
| Flush: "buf_step w (w\<lparr>bufs := flush_pending_releases (bufs w)\<rparr>)"
| Die: "buf_step w (w\<lparr>bufs := (bufs w)\<lparr>dead := b # dead (bufs w)\<rparr>\<rparr>)"

inductive buf_reach :: "world \<Rightarrow> bool" where
  buf_new: "buf_reach world_new"
| buf_more: "\<lbrakk>buf_reach w; buf_step w w'\<rbrakk> \<Longrightarrow> buf_reach w'"

section \<open>The invariant\<close>

definition signalled :: "buffers \<Rightarrow> buffer \<Rightarrow> point list" where
  "signalled s b = concat (map (\<lambda>e. case e of PointSignalled b' pt \<Rightarrow> if b' = b then [pt] else [] | BufReleased _ \<Rightarrow> []) (buf_log s))"

definition queued_points :: "buffers \<Rightarrow> buffer \<Rightarrow> point list" where
  "queued_points s b = (case map_of (release_signals s) b of Some q \<Rightarrow> q | None \<Rightarrow> [])"

text \<open>The stored count is the number of live holds, an entry exists only while there is one,
  and the points of a buffer are signalled in the order they were noted.\<close>

fun hold_ok :: "hold_state option \<Rightarrow> nat \<Rightarrow> bool" where
  "hold_ok None n \<longleftrightarrow> n = 0"
| "hold_ok (Some h) n \<longleftrightarrow> hold_count h = n \<and> n > 0"

definition holds_ok :: "buffers \<Rightarrow> (buffer \<Rightarrow> nat) \<Rightarrow> bool" where
  "holds_ok s lv \<longleftrightarrow> (\<forall>b. hold_ok (map_of (hold_states s) b) (lv b))"

definition points_ok :: "buffers \<Rightarrow> (buffer \<Rightarrow> point list) \<Rightarrow> bool" where
  "points_ok s nt \<longleftrightarrow> (\<forall>b. signalled s b @ queued_points s b = nt b)"

definition world_inv :: "world \<Rightarrow> bool" where
  "world_inv w \<longleftrightarrow> holds_ok (bufs w) (live w) \<and> points_ok (bufs w) (noted w)"

section \<open>Lemmas\<close>

lemma do_release_hold_states [simp]: "hold_states (do_release_inner_buffer b s) = hold_states s"
  by (simp add: do_release_inner_buffer_def Let_def)

lemma do_release_points [simp]: "points_ok (do_release_inner_buffer b s) nt = points_ok s nt"
proof -
  have "signalled (do_release_inner_buffer b s) b' @ queued_points (do_release_inner_buffer b s) b'
      = signalled s b' @ queued_points s b'" for b'
    by (auto simp: do_release_inner_buffer_def Let_def signalled_def queued_points_def neq_Nil_conv
        split: option.splits)
  then show ?thesis by (simp add: points_ok_def)
qed

lemma points_ok_frame [simp]:
  "points_ok (s\<lparr>hold_states := hs\<rparr>) nt = points_ok s nt"
  "points_ok (s\<lparr>pending_releases := ps\<rparr>) nt = points_ok s nt"
  "points_ok (s\<lparr>dead := ds\<rparr>) nt = points_ok s nt"
  by (simp_all add: points_ok_def signalled_def queued_points_def)

lemma holds_ok_frame [simp]:
  "holds_ok (s\<lparr>release_signals := rs\<rparr>) lv = holds_ok s lv"
  "holds_ok (s\<lparr>pending_releases := ps\<rparr>) lv = holds_ok s lv"
  "holds_ok (s\<lparr>dead := ds\<rparr>) lv = holds_ok s lv"
  by (simp_all add: holds_ok_def)

lemma release_points [simp]: "points_ok (release_inner_buffer b s) nt = points_ok s nt"
  by (simp add: release_inner_buffer_def split: option.splits)

lemma release_holds [simp]: "holds_ok (release_inner_buffer b s) lv = holds_ok s lv"
proof -
  have "hold_ok (map_of (hold_states (release_inner_buffer b s)) b') n = hold_ok (map_of (hold_states s) b') n" for b' n
    by (auto simp: release_inner_buffer_def split: option.splits)
  then show ?thesis by (simp add: holds_ok_def)
qed

lemma fold_release [simp]:
  "points_ok (fold release_inner_buffer bs s) nt = points_ok s nt"
  "holds_ok (fold release_inner_buffer bs s) lv = holds_ok s lv"
  by (induction bs arbitrary: s) simp_all

lemma holds_ok_upd:
  assumes "holds_ok s lv" "hold_ok (map_of (hold_states s') b) n"
    and "\<And>b'. b' \<noteq> b \<Longrightarrow> map_of (hold_states s') b' = map_of (hold_states s) b'"
  shows "holds_ok s' (lv(b := n))"
  using assms by (simp add: holds_ok_def)

lemma holds_ok_register:
  assumes "holds_ok s lv"
  shows "holds_ok (register_buffer_hold b s) (lv(b := lv b + 1))"
  using assms
proof (rule holds_ok_upd)
  from assms have "hold_ok (map_of (hold_states s) b) (lv b)" by (simp add: holds_ok_def)
  then show "hold_ok (map_of (hold_states (register_buffer_hold b s)) b) (lv b + 1)"
    by (cases "map_of (hold_states s) b") (simp_all add: register_buffer_hold_def)
qed (simp add: register_buffer_hold_def Let_def)

lemma holds_ok_drop:
  assumes "holds_ok s lv" "lv b > 0"
  shows "holds_ok (drop_buffer_hold b s) (lv(b := lv b - 1))"
  using assms(1)
proof (rule holds_ok_upd)
  from assms have "hold_ok (map_of (hold_states s) b) (lv b)" "lv b > 0" by (simp_all add: holds_ok_def)
  then show "hold_ok (map_of (hold_states (drop_buffer_hold b s)) b) (lv b - 1)"
    by (cases "map_of (hold_states s) b") (auto simp: drop_buffer_hold_def Let_def)
next
  fix b' assume "b' \<noteq> b"
  then show "map_of (hold_states (drop_buffer_hold b s)) b' = map_of (hold_states s) b'"
    by (simp add: drop_buffer_hold_def Let_def split: option.splits)
qed

lemma points_ok_drop [simp]: "points_ok (drop_buffer_hold b s) nt = points_ok s nt"
  by (simp add: drop_buffer_hold_def Let_def split: option.splits)

lemma points_ok_note:
  "points_ok s nt \<Longrightarrow> points_ok (note_buffer_release_point b pt s) (nt(b := nt b @ [pt]))"
  by (auto simp: note_buffer_release_point_def Let_def points_ok_def signalled_def queued_points_def
      split: option.splits)

lemma world_inv_step:
  assumes "buf_step w w'" "world_inv w"
  shows "world_inv w'"
  using assms
proof (induction rule: buf_step.induct)
  case (Note w b pt)
  then show ?case
    using points_ok_note [of "bufs w" "noted w" b pt] by (simp add: world_inv_def note_buffer_release_point_def Let_def)
next
  case (Hold w b)
  then show ?case
    using holds_ok_register [of "bufs w" "live w" b] by (simp add: world_inv_def register_buffer_hold_def Let_def)
next
  case (Unhold w b)
  then show ?case using holds_ok_drop [of "bufs w" "live w" b] by (simp add: world_inv_def)
qed (simp_all add: world_inv_def queue_deferred_release_def take_pending_releases_split_def Let_def
    flush_pending_releases_def take_pending_releases_def)

lemma world_inv_reach: "buf_reach w \<Longrightarrow> world_inv w"
proof (induction rule: buf_reach.induct)
  case buf_new
  show ?case
    by (simp add: world_inv_def world_new_def buffers_new_def holds_ok_def points_ok_def signalled_def queued_points_def)
qed (rule world_inv_step)

section \<open>Lemmas: what is released\<close>

text \<open>The log only grows, and by releases of buffers without a live hold.\<close>

definition releases_free :: "(buffer \<Rightarrow> nat) \<Rightarrow> buffers \<Rightarrow> buffers \<Rightarrow> bool" where
  "releases_free lv s s' \<longleftrightarrow>
     (\<exists>new. buf_log s' = buf_log s @ new \<and> (\<forall>b. BufReleased b \<in> set new \<longrightarrow> lv b = 0))"

lemma releases_free_refl: "buf_log s' = buf_log s \<Longrightarrow> releases_free lv s s'"
  by (simp add: releases_free_def)

lemma releases_free_trans:
  assumes "releases_free lv a b" "releases_free lv b c"
  shows "releases_free lv a c"
proof -
  from assms obtain x y where "buf_log b = buf_log a @ x" "\<forall>b. BufReleased b \<in> set x \<longrightarrow> lv b = 0"
      "buf_log c = buf_log b @ y" "\<forall>b. BufReleased b \<in> set y \<longrightarrow> lv b = 0"
    by (auto simp: releases_free_def)
  then show ?thesis unfolding releases_free_def by (intro exI [of _ "x @ y"]) auto
qed

lemma do_release_log:
  "b \<notin> set (dead s) \<Longrightarrow> buf_log (do_release_inner_buffer b s) = buf_log s @ BufReleased b #
     (case queued_points s b of [] \<Rightarrow> [] | pt # _ \<Rightarrow> [PointSignalled b pt])"
  by (auto simp: do_release_inner_buffer_def Let_def queued_points_def split: option.splits list.splits)

lemma do_release_free: "lv b = 0 \<Longrightarrow> releases_free lv s (do_release_inner_buffer b s)"
proof (cases "b \<in> set (dead s)")
  case True
  then show ?thesis by (simp add: releases_free_refl do_release_inner_buffer_def)
next
  case False
  assume "lv b = 0"
  with do_release_log [OF False] show ?thesis by (auto simp: releases_free_def split: list.splits)
qed

lemma release_free:
  assumes "holds_ok s lv"
  shows "releases_free lv s (release_inner_buffer b s)"
proof (cases "map_of (hold_states s) b")
  case None
  with assms have "lv b = 0" by (metis holds_ok_def hold_ok.simps(1))
  with None show ?thesis by (simp add: release_inner_buffer_def do_release_free releases_free_refl)
next
  case (Some h)
  with assms have "hold_count h > 0" by (metis holds_ok_def hold_ok.simps(2))
  with Some show ?thesis by (simp add: release_inner_buffer_def releases_free_refl)
qed

lemma fold_release_free: "holds_ok s lv \<Longrightarrow> releases_free lv s (fold release_inner_buffer bs s)"
proof (induction bs arbitrary: s)
  case (Cons b bs)
  then have "releases_free lv s (release_inner_buffer b s)" by (simp add: release_free)
  moreover have "releases_free lv (release_inner_buffer b s) (fold release_inner_buffer bs (release_inner_buffer b s))"
    using Cons by simp
  ultimately show ?case using releases_free_trans by simp
qed (simp add: releases_free_refl)

lemma drop_free:
  assumes "holds_ok s lv" "lv b > 0"
  shows "releases_free (lv(b := lv b - 1)) s (drop_buffer_hold b s)"
proof -
  obtain h where h: "map_of (hold_states s) b = Some h" "hold_count h = lv b"
    using assms by (metis holds_ok_def hold_ok.elims(2) not_gr_zero)
  show ?thesis
  proof (cases "lv b = 1")
    case True
    let ?s = "s\<lparr>hold_states := alist_remove b (hold_states s)\<rparr>"
    have "releases_free (lv(b := lv b - 1)) ?s (do_release_inner_buffer b ?s)"
      using True by (intro do_release_free) simp
    then have "releases_free (lv(b := lv b - 1)) s (do_release_inner_buffer b ?s)" by (simp add: releases_free_def)
    with True h show ?thesis by (simp add: drop_buffer_hold_def releases_free_refl Let_def)
  next
    case False
    with h assms(2) show ?thesis by (simp add: drop_buffer_hold_def releases_free_refl)
  qed
qed

lemma step_releases_free:
  assumes "buf_step w w'" "holds_ok (bufs w) (live w)"
  shows "releases_free (live w') (bufs w) (bufs w')"
  using assms
proof (induction rule: buf_step.induct)
  case (Flush w)
  then have "releases_free (live w) ((bufs w)\<lparr>pending_releases := []\<rparr>) (flush_pending_releases (bufs w))"
    by (simp add: flush_pending_releases_def take_pending_releases_def fold_release_free)
  then show ?case by (simp add: releases_free_def)
next
  case (Unhold w b)
  then show ?case using drop_free [of "bufs w" "live w" b] by (simp add: fun_upd_def)
qed (simp_all add: release_free releases_free_refl queue_deferred_release_def
    note_buffer_release_point_def register_buffer_hold_def take_pending_releases_split_def Let_def)

lemma drop_decrements:
  assumes "map_of (hold_states s) b = Some h" "hold_count h = n + 2"
  shows "map_of (hold_states (drop_buffer_hold b s)) b = Some (h\<lparr>hold_count := n + 1\<rparr>)"
    and "buf_log (drop_buffer_hold b s) = buf_log s" "dead (drop_buffer_hold b s) = dead s"
    and "queued_points (drop_buffer_hold b s) b = queued_points s b"
  using assms by (simp_all add: drop_buffer_hold_def queued_points_def)

text \<open>Every hold but the last only counts down; the last one releases.\<close>

lemma drops_release:
  assumes "map_of (hold_states s) b = Some h" "hold_count h = n + 1" "release_requested h" "b \<notin> set (dead s)"
  shows "(\<forall>k \<le> n. buf_log ((drop_buffer_hold b ^^ k) s) = buf_log s)
    \<and> buf_log ((drop_buffer_hold b ^^ (n + 1)) s) = buf_log s @ BufReleased b #
        (case queued_points s b of [] \<Rightarrow> [] | pt # _ \<Rightarrow> [PointSignalled b pt])"
  using assms
proof (induction n arbitrary: s h)
  case 0
  then show ?case
    by (simp add: drop_buffer_hold_def do_release_log queued_points_def)
next
  case (Suc n)
  let ?s = "drop_buffer_hold b s"
  have d: "map_of (hold_states ?s) b = Some (h\<lparr>hold_count := n + 1\<rparr>)" "buf_log ?s = buf_log s"
      "dead ?s = dead s" "queued_points ?s b = queued_points s b"
    using drop_decrements [of s b h n] Suc.prems by simp_all
  have pow: "(drop_buffer_hold b ^^ Suc k) s = (drop_buffer_hold b ^^ k) ?s" for k
    by (simp only: funpow_Suc_right comp_def)
  have IH: "(\<forall>k \<le> n. buf_log ((drop_buffer_hold b ^^ k) ?s) = buf_log s)"
    "buf_log ((drop_buffer_hold b ^^ (n + 1)) ?s) = buf_log s @ BufReleased b #
        (case queued_points s b of [] \<Rightarrow> [] | pt # _ \<Rightarrow> [PointSignalled b pt])"
    using Suc.IH [OF d(1)] Suc.prems d by simp_all
  show ?case
  proof (intro conjI allI impI)
    fix k assume "k \<le> Suc n"
    then show "buf_log ((drop_buffer_hold b ^^ k) s) = buf_log s"
      using IH(1) pow by (cases k) (auto simp del: funpow.simps(2))
  qed (use IH(2) pow [of "n + 1"] in simp)
qed

section \<open>Properties\<close>



text \<open>C20: A release asked for while a buffer is pinned is not lost. Nothing is sent until the
  last of the live holds is dropped; then the buffer is released, once, and its oldest
  timeline point is signalled.\<close>

theorem deferred_release_happens:
  assumes "buf_reach w" "live w b = n + 1" "b \<notin> set (dead (bufs w))"
  shows "(\<forall>k \<le> n. buf_log ((drop_buffer_hold b ^^ k) (release_inner_buffer b (bufs w))) = buf_log (bufs w))
    \<and> buf_log ((drop_buffer_hold b ^^ (n + 1)) (release_inner_buffer b (bufs w))) = buf_log (bufs w) @ BufReleased b #
        (case queued_points (bufs w) b of [] \<Rightarrow> [] | pt # _ \<Rightarrow> [PointSignalled b pt])"
proof -
  have "holds_ok (bufs w) (live w)" using world_inv_reach [OF assms(1)] by (simp add: world_inv_def)
  with assms(2) obtain h where h: "map_of (hold_states (bufs w)) b = Some h" "hold_count h = n + 1"
    by (metis holds_ok_def hold_ok.elims(2) add_is_0 one_neq_zero)
  let ?s = "release_inner_buffer b (bufs w)"
  have "map_of (hold_states ?s) b = Some (h\<lparr>release_requested := True\<rparr>)" "buf_log ?s = buf_log (bufs w)"
      "dead ?s = dead (bufs w)" "queued_points ?s b = queued_points (bufs w) b"
    using h assms(3) by (simp_all add: release_inner_buffer_def queued_points_def)
  with drops_release [of ?s b "h\<lparr>release_requested := True\<rparr>" n] h(2) assms(3) show ?thesis by simp
qed

theorem deferred_release_happens_witness:
  "buf_log (drop_buffer_hold 3 (release_inner_buffer 3 (register_buffer_hold 3 buffers_new))) = [BufReleased 3]"
proof -
  let ?w = "world_new\<lparr>bufs := register_buffer_hold 3 (bufs world_new), live := (live world_new)(3 := live world_new 3 + 1)\<rparr>"
  have "buf_reach ?w" by (rule buf_more [OF buf_new Hold])
  from deferred_release_happens [OF this, of 3 0] show ?thesis
    by (simp add: world_new_def register_buffer_hold_def buffers_new_def queued_points_def)
qed

end
