(* ===== verification/Messages.thy ===== *)
theory Messages
  imports Codec Complex_Main
begin

text \<open>
  The protocol types of \<open>waymux-protocol/src/messages.rs\<close>: requests and responses of
  the daemon socket, events, and the session-control messages between the daemon and a
  session process. Integers keep their width. An \<open>f64\<close> coordinate is a rational
  number: the values the code compares and adds are exact here, rounding and NaN are not
  modelled. A response's result is a self-describing MessagePack value; its type and the
  conversion into it belong to the serialisation library, so they are the type variable
  \<open>'v\<close> and the argument \<open>to_value\<close> below.
\<close>

section \<open>Requests\<close>

type_synonym f64 = rat
type_synonym env = "(string \<times> string) list"

definition CURRENT_PROTOCOL_VERSION :: u32 where
  "CURRENT_PROTOCOL_VERSION = 4"

datatype screenshot_format = Dmabuf | Png

datatype recording_codec =
    Ffv1 | X264Lossless | H264Nvenc | H264Vaapi | H264Vulkan | Ffv1Vulkan
  | H264VulkanLossless | HevcVulkanLossless | CudaNvenc

datatype capture_mode = FocusedWindow | WholeDesktop

datatype key_state = Pressed | Released

datatype touch_phase = Down | Motion | Up

datatype inject_op =
    OpKey (op_keycode: u32) (op_state: key_state) (op_modifiers: u32)
  | OpPointer (op_x: f64) (op_y: f64) (op_button: u32) (op_state: key_state) (op_axis_x: f64)
      (op_axis_y: f64) (op_window_id: "u32 option") (op_content: bool) (op_seq: u32)
  | OpTouch (op_id: u32) (op_x: f64) (op_y: f64) (op_phase: touch_phase)
      (op_window_id: "u32 option") (op_content: bool)

record create_session_params =
  csp_name :: string
  csp_width :: u32
  csp_height :: u32
  csp_scale :: u32
  csp_env :: env
  csp_share_clipboard :: bool
  csp_share_audio :: bool
  csp_mem_cap_mb :: "u32 option"
  csp_cpu_cap_pct :: "u32 option"
  csp_disk_quota_mb :: "u32 option"
  csp_fd_limit :: "u32 option"
  csp_api_key_id :: "string option"
  csp_codec :: "string option"
  csp_gpu_type :: "string option"

definition default_scale :: u32 where
  "default_scale = 1"

datatype request_method =
    Hello (client_protocol: u32)
  | ListSessions
  | CreateSession create_session_params
  | DestroySession string
  | Attach string
  | Detach string
  | Resize string u32 u32
  | Spawn string "string list" env bool
  | ListWindows string
  | TagWindow string u32 "string list"
  | Screenshot string "u32 option" screenshot_format
  | ScreenshotDesktop string screenshot_format
  | WaitForIdle string u32 u32
  | Subscribe "string list"
  | InjectKey string u32 key_state u32
  | InjectPointer string f64 f64 u32 key_state f64 f64 "u32 option" bool
  | InjectTouch string u32 f64 f64 touch_phase "u32 option" bool
  | InjectBatch string "inject_op list"
  | InjectSelector string string u32 bool bool
  | StreamLogs string bool
  | RecordStart string "string option" "recording_codec option" "recording_codec option"
      "capture_mode option" "u32 option"
  | RecordStop string
  | RecordStatus string
  | ViewerStart string "string option" "u16 option"
  | ViewerStop string
  | ViewerStatus string

record request =
  req_id :: u32
  req_method :: request_method

section \<open>Responses and errors\<close>

datatype error_code =
    NotFound | AlreadyExists | ProtoVersion | NoRenderNode | ResizeRejected | Backpressure
  | NotImplemented | BadRequest | Internal | Unknown

text \<open>The wire strings; an unknown one reads as \<open>Unknown\<close>, which a server never sends.\<close>

fun error_code_wire :: "error_code \<Rightarrow> string option" where
  "error_code_wire NotFound = Some ''E_NOT_FOUND''"
| "error_code_wire AlreadyExists = Some ''E_ALREADY_EXISTS''"
| "error_code_wire ProtoVersion = Some ''E_PROTO_VERSION''"
| "error_code_wire NoRenderNode = Some ''E_NO_RENDER_NODE''"
| "error_code_wire ResizeRejected = Some ''E_RESIZE_REJECTED''"
| "error_code_wire Backpressure = Some ''E_BACKPRESSURE''"
| "error_code_wire NotImplemented = Some ''E_NOT_IMPLEMENTED''"
| "error_code_wire BadRequest = Some ''E_BAD_REQUEST''"
| "error_code_wire Internal = Some ''E_INTERNAL''"
| "error_code_wire Unknown = None"

definition error_code_of_wire :: "string \<Rightarrow> error_code" where
  "error_code_of_wire s =
     (case find (\<lambda>c. error_code_wire c = Some s)
        [NotFound, AlreadyExists, ProtoVersion, NoRenderNode, ResizeRejected, Backpressure,
         NotImplemented, BadRequest, Internal] of
        Some c \<Rightarrow> c
      | None \<Rightarrow> Unknown)"

record 'v response_error =
  err_code :: error_code
  err_message :: string
  err_detail :: "'v option"

definition response_error_new :: "error_code \<Rightarrow> string \<Rightarrow> 'v response_error" where
  "response_error_new code message = \<lparr>err_code = code, err_message = message, err_detail = None\<rparr>"

record 'v response =
  resp_id :: u32
  resp_ok :: bool
  resp_result :: "'v option"
  resp_error :: "'v response_error option"

definition response_success :: "('r \<Rightarrow> ('v, string) result) \<Rightarrow> u32 \<Rightarrow> 'r \<Rightarrow> ('v response, string) result" where
  "response_success to_value i x =
     bind_result (to_value x)
       (\<lambda>v. Ok \<lparr>resp_id = i, resp_ok = True, resp_result = Some v, resp_error = None\<rparr>)"

definition response_failure :: "u32 \<Rightarrow> 'v response_error \<Rightarrow> 'v response" where
  "response_failure i e = \<lparr>resp_id = i, resp_ok = False, resp_result = None, resp_error = Some e\<rparr>"

definition response_decode_result ::
    "('v \<Rightarrow> ('r, string) result) \<Rightarrow> 'v response \<Rightarrow> ('r, string) result" where
  "response_decode_result of_value r =
     (case resp_result r of
        Some v \<Rightarrow> of_value v
      | None \<Rightarrow> Err ''response has no result'')"

record session_unavailable =
  su_error :: string
  su_reason :: string
  su_retry_after_s :: "u32 option"

definition session_unavailable_new :: "string \<Rightarrow> u32 option \<Rightarrow> session_unavailable" where
  "session_unavailable_new reason retry =
     \<lparr>su_error = ''session_unavailable'', su_reason = reason, su_retry_after_s = retry\<rparr>"

section \<open>Events\<close>

record rect =
  rect_x :: int
  rect_y :: int
  rect_width :: u32
  rect_height :: u32

record window_change =
  wc_title :: "string option"
  wc_app_id :: "string option"
  wc_geometry :: "rect option"
  wc_focused :: "bool option"

datatype event_body =
    SessionCreated (ev_name: string)
  | SessionDestroyed (ev_name: string) (ev_exit_code: int)
  | ChildExited (ev_name: string) (ev_pid: int) (ev_exit_code: int)
  | SessionCrashed (ev_name: string) (ev_pid: int) (ev_exit_code: int)
  | Occluded (ev_name: string) (ev_occluded: bool)
  | WindowCreated (ev_name: string) (ev_window_id: u32) (ev_app_id: string) (ev_title: string) (ev_pid: int)
  | WindowDestroyed (ev_name: string) (ev_window_id: u32)
  | WindowChanged (ev_name: string) (ev_window_id: u32) (ev_fields: window_change)
  | Damage (ev_name: string) (ev_serial: u64) (ev_timestamp_ns: u64)
  | Log (ev_name: string) (ev_stream: string) (ev_text: string)

record event =
  event_id :: u32
  event_body :: event_body

definition event_new :: "event_body \<Rightarrow> event" where
  "event_new b = \<lparr>event_id = 0, event_body = b\<rparr>"

section \<open>Results\<close>

record hello_result =
  server_protocol :: u32
  capabilities :: "string list"

record session_info =
  si_name :: string
  si_pid :: int
  si_width :: u32
  si_height :: u32
  si_scale :: u32
  si_attached :: bool
  si_created_at :: u64

record create_session_result =
  csr_name :: string
  csr_inner_socket_path :: string

record attach_result =
  attach_socket_path :: string

record window_info =
  wi_id :: u32
  wi_app_id :: string
  wi_title :: string
  wi_tags :: "string list"
  wi_geometry :: rect
  wi_focused :: bool
  wi_pid :: int
  wi_content_rect :: "rect option"

section \<open>Session control\<close>

datatype session_ctl_method =
    CtlInfo
  | CtlListWindows
  | CtlResize u32 u32
  | CtlScreenshot u32
  | CtlScreenshotDesktop
  | CtlInjectKey u32 key_state u32
  | CtlInjectPointer f64 f64 u32 key_state f64 f64 "u32 option" bool
  | CtlInjectTouch u32 f64 f64 touch_phase "u32 option" bool
  | CtlInjectBatch "inject_op list"
  | CtlShutdown
  | CtlRecordStart "string option" "recording_codec option" "recording_codec option"
      "capture_mode option" "u32 option"
  | CtlRecordStop
  | CtlRecordStatus
  | CtlViewerStart "string option" "u16 option"
  | CtlViewerStop
  | CtlViewerStatus

record session_ctl_request =
  ctl_id :: u32
  ctl_method :: session_ctl_method

definition default_released :: key_state where
  "default_released = Released"

record session_ctl_info =
  sci_width :: u32
  sci_height :: u32
  sci_scale :: u32
  sci_window_count :: u32
  sci_last_damage_ns :: u64

record session_ctl_record_started =
  rs_path :: string
  rs_secondary_path :: "string option"

record record_status_response =
  rst_recording :: bool
  rst_path :: "string option"
  rst_secondary_path :: "string option"
  rst_codec :: "string option"

record session_ctl_screenshot =
  ss_width :: u32
  ss_height :: u32
  ss_png :: bytes

text \<open>The typed results a session-control response can carry.\<close>

datatype ctl_result =
    CtlUnit
  | CtlInfoResult session_ctl_info
  | CtlWindows "window_info list"
  | CtlScreenshotResult session_ctl_screenshot
  | CtlRecordStarted session_ctl_record_started
  | CtlRecordStatusResult record_status_response
  | CtlViewerStarted string
  | CtlViewerStatusResult "string option"

text \<open>A session-control response. Its \<open>result\<close> is the typed value the handler serialised; the
  conversion through the self-describing value is the identity on what both ends agree on.\<close>

record session_ctl_response =
  ctlr_id :: u32
  ctlr_ok :: bool
  ctlr_result :: "ctl_result option"
  ctlr_error :: "string option"

definition ctl_success :: "u32 \<Rightarrow> ctl_result \<Rightarrow> session_ctl_response" where
  "ctl_success i x = \<lparr>ctlr_id = i, ctlr_ok = True, ctlr_result = Some x, ctlr_error = None\<rparr>"

definition ctl_failure :: "u32 \<Rightarrow> string \<Rightarrow> session_ctl_response" where
  "ctl_failure i message =
     \<lparr>ctlr_id = i, ctlr_ok = False, ctlr_result = None, ctlr_error = Some message\<rparr>"

definition ctl_decode_result ::
    "(ctl_result \<Rightarrow> 'r option) \<Rightarrow> session_ctl_response \<Rightarrow> ('r, string) result" where
  "ctl_decode_result as r =
     (case ctlr_result r of
        Some v \<Rightarrow> (case as v of Some x \<Rightarrow> Ok x | None \<Rightarrow> Err ''invalid type'')
      | None \<Rightarrow> Err ''session-control response has no result'')"

section \<open>Lemmas\<close>

lemma error_code_round_trip:
  "error_code_wire c = Some s \<Longrightarrow> error_code_of_wire s = c"
  by (cases c) (auto simp: error_code_of_wire_def)

lemma error_code_wire_total: "c \<noteq> Unknown \<Longrightarrow> \<exists>s. error_code_wire c = Some s"
  by (cases c) auto

end
