(* ===== verification/Session_State.thy ===== *)
theory Session_State
  imports Messages Buffer_Hold
begin

text \<open>
  The session's shared state, \<open>waymux-session/src/state.rs\<close>: the window table and its
  events, the map from windows to surfaces, keyboard focus, the input resources of the
  clients, synthetic input, resizing, the attach state. Wayland objects (surfaces,
  clients, resources, buffers) are numbers; \<open>dead_res\<close> lists the destroyed resources and
  \<open>res_version\<close> gives the bound version. What clients are sent is the log \<open>wl_sent\<close>, what
  the session emits to the daemon the log \<open>emitted_events\<close>. The clock is the argument
  \<open>now\<close>. A hash map is an association list: where the code iterates over one in no fixed
  order, the list gives the order. Coordinates are exact, as in \<open>Messages\<close>.
\<close>

section \<open>State\<close>

type_synonym surface = nat
type_synonym client = nat
type_synonym resource = nat

datatype axis = VerticalScroll | HorizontalScroll

datatype wl_event =
    KbdEnter resource u32 surface
  | KbdLeave resource u32 surface
  | KbdModifiers resource u32 u32 u32 u32 u32
  | KbdKey resource u32 u32 u32 bool
  | PtrEnter resource u32 surface
  | PtrLeave resource u32 surface
  | PtrMotion resource u32 f64 f64
  | PtrButton resource u32 u32 u32 bool
  | PtrAxisSource resource nat
  | PtrAxis resource u32 axis f64
  | PtrAxisStop resource u32 axis
  | PtrFrame resource
  | TouchDown resource u32 u32 surface int f64 f64
  | TouchMotion resource u32 int f64 f64
  | TouchUp resource u32 u32 int
  | TouchFrame resource
  | OutMode resource int int
  | OutDone resource
  | TopConfigure resource int int
  | XdgConfigure resource u32
  | PlasmaWindow resource u32
  | PlasmaWindowUuid resource u32 string
  | PlasmaUnmapped resource
  | PlasmaTitle resource string
  | PlasmaAppId resource string

record session_state =
  ses_name :: string
  ses_width :: u32
  ses_height :: u32
  ses_scale :: u32
  next_window_id :: u32
  windows :: "(u32 \<times> window_info) list"
  has_sink :: bool
  emitted_events :: "event_body list"
  last_damage_ns :: u64
  windows_by_id :: "(u32 \<times> surface \<times> client) list"
  keyboards :: "(client \<times> resource list) list"
  pointers :: "(client \<times> resource list) list"
  touches :: "(client \<times> resource list) list"
  focused_window :: "u32 option"
  content_fallback_warned :: "u32 list"
  next_serial_ctr :: u64
  last_activity_ms :: u64
  wakes :: nat
  outer_wake_fd :: "nat option"
  outer_pokes :: nat
  plasma_managers :: "resource list"
  plasma_windows :: "(u32 \<times> resource list) list"
  output_globals :: "resource list"
  toplevels :: "(u32 \<times> resource \<times> resource) list"
  ses_bufs :: buffers
  cursor_pos :: "(f64 \<times> f64 \<times> u32) option"
  surf_rect :: "surface \<Rightarrow> rect option"
  dead_res :: "resource list"
  res_version :: "resource \<Rightarrow> nat"
  wl_sent :: "wl_event list"

definition state_new :: "string \<Rightarrow> u32 \<Rightarrow> u32 \<Rightarrow> u32 \<Rightarrow> bool \<Rightarrow> u64 \<Rightarrow> session_state" where
  "state_new name width height scale sink now =
     \<lparr>ses_name = name, ses_width = width, ses_height = height, ses_scale = scale,
      next_window_id = 1, windows = [], has_sink = sink, emitted_events = [], last_damage_ns = 0,
      windows_by_id = [], keyboards = [], pointers = [], touches = [], focused_window = None,
      content_fallback_warned = [], next_serial_ctr = 1, last_activity_ms = now, wakes = 0,
      outer_wake_fd = None, outer_pokes = 0, plasma_managers = [], plasma_windows = [],
      output_globals = [], toplevels = [], ses_bufs = buffers_new, cursor_pos = None,
      surf_rect = (\<lambda>_. None), dead_res = [], res_version = (\<lambda>_. 1), wl_sent = []\<rparr>"

section \<open>Serials, events, wakeups\<close>

definition next_serial :: "session_state \<Rightarrow> u32 \<times> session_state" where
  "next_serial s = (ucast (next_serial_ctr s), s\<lparr>next_serial_ctr := next_serial_ctr s + 1\<rparr>)"

definition send_wl :: "wl_event list \<Rightarrow> session_state \<Rightarrow> session_state" where
  "send_wl es s = s\<lparr>wl_sent := wl_sent s @ es\<rparr>"

definition alive_of :: "session_state \<Rightarrow> resource list \<Rightarrow> resource list" where
  "alive_of s rs = filter (\<lambda>r. r \<notin> set (dead_res s)) rs"

definition emit_event :: "event_body \<Rightarrow> session_state \<Rightarrow> session_state" where
  "emit_event b s = (if has_sink s then s\<lparr>emitted_events := emitted_events s @ [b]\<rparr> else s)"

definition session_name :: "session_state \<Rightarrow> string" where
  "session_name s = (if has_sink s then ses_name s else [])"

definition wake_compositor :: "u64 \<Rightarrow> session_state \<Rightarrow> session_state" where
  "wake_compositor now s = s\<lparr>last_activity_ms := now, wakes := wakes s + 1\<rparr>"

definition note_activity :: "u64 \<Rightarrow> session_state \<Rightarrow> session_state" where
  "note_activity now s = s\<lparr>last_activity_ms := now\<rparr>"

definition poke_outer_view :: "session_state \<Rightarrow> session_state" where
  "poke_outer_view s = (case outer_wake_fd s of Some _ \<Rightarrow> s\<lparr>outer_pokes := outer_pokes s + 1\<rparr> | None \<Rightarrow> s)"

definition record_damage :: "u64 \<Rightarrow> session_state \<Rightarrow> session_state" where
  "record_damage now_ns s = poke_outer_view (s\<lparr>last_damage_ns := now_ns\<rparr>)"

definition is_attached :: "session_state \<Rightarrow> bool" where
  "is_attached s \<longleftrightarrow> outer_wake_fd s \<noteq> None"

definition flush_releases :: "u64 \<Rightarrow> session_state \<Rightarrow> session_state" where
  "flush_releases now s =
     (let any = pending_releases (ses_bufs s) \<noteq> [];
          s = s\<lparr>ses_bufs := flush_pending_releases (ses_bufs s)\<rparr>
      in if any then wake_compositor now s else s)"

definition set_outer_wake_fd :: "u64 \<Rightarrow> nat option \<Rightarrow> session_state \<Rightarrow> session_state" where
  "set_outer_wake_fd now fd s =
     (let was_attached = outer_wake_fd s \<noteq> None;
          s = s\<lparr>outer_wake_fd := fd\<rparr>;
          now_attached = fd \<noteq> None
      in if was_attached \<noteq> now_attached
         then let s = (if \<not> now_attached then flush_releases now s else s)
              in emit_event (Occluded (ses_name s) (\<not> now_attached)) s
         else s)"

definition clear_outer_wake_fd_if_mine :: "nat \<Rightarrow> session_state \<Rightarrow> session_state" where
  "clear_outer_wake_fd_if_mine fd s = (if outer_wake_fd s = Some fd then s\<lparr>outer_wake_fd := None\<rparr> else s)"

text \<open>The end of an attach. The view thread clears its own wake fd as its last act; the
  \<open>Detach\<close> handler joins the thread and then clears the fd a second time.\<close>

definition detach_view :: "u64 \<Rightarrow> nat \<Rightarrow> session_state \<Rightarrow> session_state" where
  "detach_view now fd s = set_outer_wake_fd now None (clear_outer_wake_fd_if_mine fd s)"

section \<open>Windows\<close>

definition plasma_send :: "u32 \<Rightarrow> (resource \<Rightarrow> wl_event) \<Rightarrow> session_state \<Rightarrow> session_state" where
  "plasma_send window_id ev s =
     (case map_of (plasma_windows s) window_id of
        Some wins \<Rightarrow> send_wl (map ev (alive_of s wins)) s
      | None \<Rightarrow> s)"

definition notify_plasma_window_created :: "u32 \<Rightarrow> session_state \<Rightarrow> session_state" where
  "notify_plasma_window_created window_id s =
     send_wl (concat (map (\<lambda>m. PlasmaWindow m window_id
          # (if res_version s m \<ge> 13 then [PlasmaWindowUuid m window_id (dec_str (unat window_id))] else []))
        (alive_of s (plasma_managers s)))) s"

definition add_window :: "int \<Rightarrow> rect \<Rightarrow> session_state \<Rightarrow> session_state \<times> u32" where
  "add_window pid geometry s =
     (let i = next_window_id s;
          s = s\<lparr>next_window_id := next_window_id s + 1,
                windows := alist_insert i
                  \<lparr>wi_id = i, wi_app_id = [], wi_title = [], wi_tags = [], wi_geometry = geometry,
                   wi_focused = False, wi_pid = pid, wi_content_rect = None\<rparr> (windows s)\<rparr>;
          s = emit_event (WindowCreated (session_name s) i [] [] pid) s
      in (notify_plasma_window_created i s, i))"

definition remove_window :: "u32 \<Rightarrow> session_state \<Rightarrow> session_state \<times> bool" where
  "remove_window i s =
     (let removed = (map_of (windows s) i \<noteq> None);
          s = s\<lparr>windows := alist_remove i (windows s)\<rparr>;
          now_empty = (removed \<and> windows s = [])
      in if removed
         then let s = plasma_send i PlasmaUnmapped s;
                  s = emit_event (WindowDestroyed (session_name s) i) s
              in (if now_empty then poke_outer_view s else s, True)
         else (s, False))"

definition no_change :: window_change where
  "no_change = \<lparr>wc_title = None, wc_app_id = None, wc_geometry = None, wc_focused = None\<rparr>"

definition set_app_id :: "u32 \<Rightarrow> string \<Rightarrow> session_state \<Rightarrow> session_state" where
  "set_app_id i app_id s =
     (case map_of (windows s) i of
        Some w \<Rightarrow>
          if wi_app_id w \<noteq> app_id
          then let s = s\<lparr>windows := alist_insert i (w\<lparr>wi_app_id := app_id\<rparr>) (windows s)\<rparr>;
                   s = plasma_send i (\<lambda>r. PlasmaAppId r app_id) s
               in emit_event (WindowChanged (session_name s) i (no_change\<lparr>wc_app_id := Some app_id\<rparr>)) s
          else s
      | None \<Rightarrow> s)"

definition set_title :: "u32 \<Rightarrow> string \<Rightarrow> session_state \<Rightarrow> session_state" where
  "set_title i title s =
     (case map_of (windows s) i of
        Some w \<Rightarrow>
          if wi_title w \<noteq> title
          then let s = s\<lparr>windows := alist_insert i (w\<lparr>wi_title := title\<rparr>) (windows s)\<rparr>;
                   s = plasma_send i (\<lambda>r. PlasmaTitle r title) s
               in emit_event (WindowChanged (session_name s) i (no_change\<lparr>wc_title := Some title\<rparr>)) s
          else s
      | None \<Rightarrow> s)"

text \<open>\<open>windows\<close>: the listing, with the content rectangle of each window's surface laid over it.\<close>

definition windows_list :: "session_state \<Rightarrow> window_info list" where
  "windows_list s =
     map (\<lambda>(i, info). case map_of (windows_by_id s) (wi_id info) of
            Some (surf, _) \<Rightarrow> info\<lparr>wi_content_rect := surf_rect s surf\<rparr>
          | None \<Rightarrow> info) (windows s)"

definition window_count :: "session_state \<Rightarrow> u32" where
  "window_count s = of_nat (length (windows s))"

section \<open>Registrations\<close>

definition push_entry :: "'k \<Rightarrow> resource \<Rightarrow> ('k \<times> resource list) list \<Rightarrow> ('k \<times> resource list) list" where
  "push_entry k r xs = alist_insert k ((case map_of xs k of Some rs \<Rightarrow> rs | None \<Rightarrow> []) @ [r]) xs"

definition drop_entry_res :: "'k \<Rightarrow> resource \<Rightarrow> ('k \<times> resource list) list \<Rightarrow> ('k \<times> resource list) list" where
  "drop_entry_res k r xs =
     (case map_of xs k of
        Some rs \<Rightarrow> (let rs' = filter (\<lambda>x. x \<noteq> r) rs
                   in if rs' = [] then alist_remove k xs else alist_insert k rs' xs)
      | None \<Rightarrow> xs)"

definition register_plasma_manager :: "resource \<Rightarrow> session_state \<Rightarrow> session_state" where
  "register_plasma_manager m s = s\<lparr>plasma_managers := alive_of s (plasma_managers s) @ [m]\<rparr>"

definition register_plasma_window :: "u32 \<Rightarrow> resource \<Rightarrow> session_state \<Rightarrow> session_state" where
  "register_plasma_window i r s = s\<lparr>plasma_windows := push_entry i r (plasma_windows s)\<rparr>"

definition unregister_plasma_window :: "u32 \<Rightarrow> resource \<Rightarrow> session_state \<Rightarrow> session_state" where
  "unregister_plasma_window i r s = s\<lparr>plasma_windows := drop_entry_res i r (plasma_windows s)\<rparr>"

definition register_output :: "resource \<Rightarrow> session_state \<Rightarrow> session_state" where
  "register_output r s = s\<lparr>output_globals := alive_of s (output_globals s) @ [r]\<rparr>"

definition register_toplevel :: "u32 \<Rightarrow> resource \<Rightarrow> resource \<Rightarrow> session_state \<Rightarrow> session_state" where
  "register_toplevel i xs tlv s = s\<lparr>toplevels := alist_insert i (xs, tlv) (toplevels s)\<rparr>"

definition unregister_toplevel :: "u32 \<Rightarrow> session_state \<Rightarrow> session_state" where
  "unregister_toplevel i s = s\<lparr>toplevels := alist_remove i (toplevels s)\<rparr>"

section \<open>Focus\<close>

definition res_of :: "client \<Rightarrow> (client \<times> resource list) list \<Rightarrow> resource list" where
  "res_of c xs = (case map_of xs c of Some rs \<Rightarrow> rs | None \<Rightarrow> [])"

definition enter_keyboard :: "surface \<Rightarrow> resource \<Rightarrow> session_state \<Rightarrow> session_state" where
  "enter_keyboard surf k s =
     (let (serial, s) = next_serial s;
          s = send_wl [KbdEnter k serial surf] s;
          (serial, s) = next_serial s
      in send_wl [KbdModifiers k serial 0 0 0 0] s)"

definition frame_if :: "session_state \<Rightarrow> resource \<Rightarrow> wl_event list" where
  "frame_if s p = (if res_version s p \<ge> 5 then [PtrFrame p] else [])"

definition enter_pointer :: "surface \<Rightarrow> resource \<Rightarrow> session_state \<Rightarrow> session_state" where
  "enter_pointer surf p s =
     (let (serial, s) = next_serial s in send_wl (PtrEnter p serial surf # frame_if s p) s)"

definition leave_keyboard :: "surface \<Rightarrow> resource \<Rightarrow> session_state \<Rightarrow> session_state" where
  "leave_keyboard surf k s = (let (serial, s) = next_serial s in send_wl [KbdLeave k serial surf] s)"

definition leave_pointer :: "surface \<Rightarrow> resource \<Rightarrow> session_state \<Rightarrow> session_state" where
  "leave_pointer surf p s =
     (let (serial, s) = next_serial s in send_wl (PtrLeave p serial surf # frame_if s p) s)"

definition send_enter :: "u64 \<Rightarrow> u32 \<Rightarrow> session_state \<Rightarrow> session_state" where
  "send_enter now i s =
     (case map_of (windows_by_id s) i of
        None \<Rightarrow> s
      | Some (surf, c) \<Rightarrow>
          let ks = alive_of s (res_of c (keyboards s));
              ps = alive_of s (res_of c (pointers s));
              s = fold (enter_keyboard surf) ks s;
              s = fold (enter_pointer surf) ps s
          in if ks \<noteq> [] \<or> ps \<noteq> [] then wake_compositor now s else s)"

definition send_leave :: "u64 \<Rightarrow> u32 \<Rightarrow> session_state \<Rightarrow> session_state" where
  "send_leave now i s =
     (case map_of (windows_by_id s) i of
        None \<Rightarrow> s
      | Some (surf, c) \<Rightarrow>
          let ks = alive_of s (res_of c (keyboards s));
              ps = alive_of s (res_of c (pointers s));
              s = fold (leave_keyboard surf) ks s;
              s = fold (leave_pointer surf) ps s
          in if ks \<noteq> [] \<or> ps \<noteq> [] then wake_compositor now s else s)"

definition register_surface :: "u64 \<Rightarrow> u32 \<Rightarrow> surface \<Rightarrow> client \<Rightarrow> session_state \<Rightarrow> session_state" where
  "register_surface now i surf c s =
     (let s = s\<lparr>windows_by_id := alist_insert i (surf, c) (windows_by_id s)\<rparr>;
          prev = focused_window s;
          s = s\<lparr>focused_window := Some i\<rparr>;
          s = (case prev of Some old \<Rightarrow> if old \<noteq> i then send_leave now old s else s | None \<Rightarrow> s)
      in send_enter now i s)"

definition register_surface_no_focus :: "u32 \<Rightarrow> surface \<Rightarrow> client \<Rightarrow> session_state \<Rightarrow> session_state" where
  "register_surface_no_focus i surf c s = s\<lparr>windows_by_id := alist_insert i (surf, c) (windows_by_id s)\<rparr>"

definition max_key :: "(u32 \<times> 'a) list \<Rightarrow> u32 option" where
  "max_key xs = (if xs = [] then None else Some (Max (set (map fst xs))))"

definition unregister_surface :: "u64 \<Rightarrow> u32 \<Rightarrow> session_state \<Rightarrow> session_state" where
  "unregister_surface now i s =
     (let s = s\<lparr>windows_by_id := alist_remove i (windows_by_id s)\<rparr>;
          s = unregister_toplevel i s;
          s = (if focused_window s = Some i then s\<lparr>focused_window := max_key (windows_by_id s)\<rparr> else s)
      in case focused_window s of Some new \<Rightarrow> send_enter now new s | None \<Rightarrow> s)"

text \<open>A late binder whose client owns the focused window is told so.\<close>

definition focus_surface :: "client \<Rightarrow> session_state \<Rightarrow> surface option" where
  "focus_surface c s =
     (case focused_window s of
        None \<Rightarrow> None
      | Some w \<Rightarrow>
          (case map_of (windows_by_id s) w of
             Some (surf, cid) \<Rightarrow> if cid = c then Some surf else None
           | None \<Rightarrow> None))"

definition register_keyboard :: "u64 \<Rightarrow> client \<Rightarrow> resource \<Rightarrow> session_state \<Rightarrow> session_state" where
  "register_keyboard now c k s =
     (let s = s\<lparr>keyboards := push_entry c k (keyboards s)\<rparr>
      in case focus_surface c s of
           Some surf \<Rightarrow> wake_compositor now (enter_keyboard surf k s)
         | None \<Rightarrow> s)"

definition register_pointer :: "u64 \<Rightarrow> client \<Rightarrow> resource \<Rightarrow> session_state \<Rightarrow> session_state" where
  "register_pointer now c p s =
     (let s = s\<lparr>pointers := push_entry c p (pointers s)\<rparr>
      in case focus_surface c s of
           Some surf \<Rightarrow> wake_compositor now (enter_pointer surf p s)
         | None \<Rightarrow> s)"

definition register_touch :: "client \<Rightarrow> resource \<Rightarrow> session_state \<Rightarrow> session_state" where
  "register_touch c t s = s\<lparr>touches := push_entry c t (touches s)\<rparr>"

definition unregister_keyboard :: "client \<Rightarrow> resource \<Rightarrow> session_state \<Rightarrow> session_state" where
  "unregister_keyboard c k s = s\<lparr>keyboards := drop_entry_res c k (keyboards s)\<rparr>"

definition unregister_pointer :: "client \<Rightarrow> resource \<Rightarrow> session_state \<Rightarrow> session_state" where
  "unregister_pointer c p s = s\<lparr>pointers := drop_entry_res c p (pointers s)\<rparr>"

definition unregister_touch :: "client \<Rightarrow> resource \<Rightarrow> session_state \<Rightarrow> session_state" where
  "unregister_touch c t s = s\<lparr>touches := drop_entry_res c t (touches s)\<rparr>"

section \<open>Synthetic input\<close>

definition logical_to_surface_coord :: "f64 \<Rightarrow> f64 \<Rightarrow> u32 \<Rightarrow> f64 \<times> f64" where
  "logical_to_surface_coord x y scale = (x, y)"

definition window_content_inset :: "u32 \<Rightarrow> session_state \<Rightarrow> session_state \<times> int \<times> int" where
  "window_content_inset i s =
     (case map_of (windows_by_id s) i of
        None \<Rightarrow> (s, 0, 0)
      | Some (surf, _) \<Rightarrow>
          (case surf_rect s surf of
             Some r \<Rightarrow> (s, max (rect_x r) 0, max (rect_y r) 0)
           | None \<Rightarrow>
               (if i \<in> set (content_fallback_warned s) then s
                else s\<lparr>content_fallback_warned := content_fallback_warned s @ [i]\<rparr>, 0, 0)))"

definition record_cursor_pos :: "f64 \<Rightarrow> f64 \<Rightarrow> u32 \<Rightarrow> session_state \<Rightarrow> session_state" where
  "record_cursor_pos x y seq s = s\<lparr>cursor_pos := Some (x, y, seq)\<rparr>"

text \<open>The resources of the client that owns a window; \<open>None\<close> where the code returns early.\<close>

definition window_resources ::
    "(session_state \<Rightarrow> (client \<times> resource list) list) \<Rightarrow> u32 \<Rightarrow> session_state \<Rightarrow> (surface \<times> resource list) option" where
  "window_resources get i s =
     (case map_of (windows_by_id s) i of
        None \<Rightarrow> None
      | Some (surf, c) \<Rightarrow>
          (case map_of (get s) c of
             None \<Rightarrow> None
           | Some rs \<Rightarrow> let rs = alive_of s rs in if rs = [] then None else Some (surf, rs)))"

definition axis_events ::
    "session_state \<Rightarrow> u32 \<Rightarrow> nat option \<Rightarrow> f64 \<Rightarrow> f64 \<Rightarrow> bool \<Rightarrow> bool \<Rightarrow> resource \<Rightarrow> wl_event list" where
  "axis_events s time source axis_h axis_v stop_h stop_v p =
     (let v5 = (res_version s p \<ge> 5)
      in (case source of Some src \<Rightarrow> if v5 then [PtrAxisSource p src] else [] | None \<Rightarrow> [])
         @ (if axis_v \<noteq> 0 then [PtrAxis p time VerticalScroll axis_v] else [])
         @ (if axis_h \<noteq> 0 then [PtrAxis p time HorizontalScroll axis_h] else [])
         @ (if stop_v \<and> v5 then [PtrAxisStop p time VerticalScroll] else [])
         @ (if stop_h \<and> v5 then [PtrAxisStop p time HorizontalScroll] else [])
         @ (if v5 then [PtrFrame p] else []))"

definition inject_axis ::
    "u64 \<Rightarrow> nat option \<Rightarrow> f64 \<Rightarrow> f64 \<Rightarrow> bool \<Rightarrow> bool \<Rightarrow> session_state \<Rightarrow> session_state \<times> bool" where
  "inject_axis now source axis_h axis_v stop_h stop_v s =
     (case focused_window s of
        None \<Rightarrow> (s, False)
      | Some i \<Rightarrow>
          (case window_resources pointers i s of
             None \<Rightarrow> (s, False)
           | Some (_, ps) \<Rightarrow>
               (wake_compositor now (send_wl
                  (concat (map (axis_events s (ucast now) source axis_h axis_v stop_h stop_v) ps)) s), True)))"

definition target_window :: "u32 option \<Rightarrow> session_state \<Rightarrow> u32 option" where
  "target_window window_id s = (case window_id of Some i \<Rightarrow> Some i | None \<Rightarrow> focused_window s)"

text \<open>One pointer's share of \<open>inject_pointer\<close>: motion in a frame of its own when a button or an
  axis follows.\<close>

definition pointer_events ::
    "u32 \<Rightarrow> f64 \<Rightarrow> f64 \<Rightarrow> u32 \<Rightarrow> bool \<Rightarrow> f64 \<Rightarrow> f64 \<Rightarrow> resource \<Rightarrow> session_state \<Rightarrow> session_state" where
  "pointer_events time x y button pressed axis_x axis_y p s =
     (let needs_split = (button \<noteq> 0 \<or> axis_x \<noteq> 0 \<or> axis_y \<noteq> 0);
          s = send_wl [PtrMotion p time x y] s;
          s = (if needs_split then send_wl (frame_if s p) s else s);
          s = (if button \<noteq> 0
               then (case next_serial s of (serial, s) \<Rightarrow> send_wl [PtrButton p serial time button pressed] s)
               else s);
          s = (if axis_x \<noteq> 0 then send_wl [PtrAxis p time HorizontalScroll axis_x] s else s);
          s = (if axis_y \<noteq> 0 then send_wl [PtrAxis p time VerticalScroll axis_y] s else s)
      in send_wl (frame_if s p) s)"

definition content_coords :: "bool \<Rightarrow> u32 \<Rightarrow> f64 \<Rightarrow> f64 \<Rightarrow> session_state \<Rightarrow> session_state \<times> f64 \<times> f64" where
  "content_coords content i x y s =
     (if content
      then (case window_content_inset i s of (s, dx, dy) \<Rightarrow> (s, x + of_int dx, y + of_int dy))
      else (s, x, y))"

definition inject_pointer_state ::
    "u64 \<Rightarrow> u32 option \<Rightarrow> bool \<Rightarrow> f64 \<Rightarrow> f64 \<Rightarrow> u32 \<Rightarrow> bool \<Rightarrow> f64 \<Rightarrow> f64 \<Rightarrow> u32 \<Rightarrow> session_state
      \<Rightarrow> session_state \<times> bool" where
  "inject_pointer_state now window_id content x y button pressed axis_x axis_y seq s =
     (case target_window window_id s of
        None \<Rightarrow> (s, False)
      | Some i \<Rightarrow>
          (case map_of (windows_by_id s) i of
             None \<Rightarrow> (s, False)
           | Some _ \<Rightarrow>
               let (s, x, y) = content_coords content i x y s;
                   (x, y) = logical_to_surface_coord x y (ses_scale s)
               in case window_resources pointers i s of
                    None \<Rightarrow> (s, False)
                  | Some (_, ps) \<Rightarrow>
                      let s = fold (pointer_events (ucast now) x y button pressed axis_x axis_y) ps s;
                          s = record_cursor_pos x y seq s
                      in (wake_compositor now s, True)))"

definition touch_events ::
    "u32 \<Rightarrow> surface \<Rightarrow> u32 \<Rightarrow> f64 \<Rightarrow> f64 \<Rightarrow> touch_phase \<Rightarrow> resource \<Rightarrow> session_state \<Rightarrow> session_state" where
  "touch_events time surf i x y phase t s =
     (let s = (case phase of
                 Down \<Rightarrow> (case next_serial s of (serial, s) \<Rightarrow> send_wl [TouchDown t serial time surf (sint i) x y] s)
               | Motion \<Rightarrow> send_wl [TouchMotion t time (sint i) x y] s
               | Up \<Rightarrow> (case next_serial s of (serial, s) \<Rightarrow> send_wl [TouchUp t serial time (sint i)] s))
      in send_wl [TouchFrame t] s)"

definition inject_touch_state ::
    "u64 \<Rightarrow> u32 option \<Rightarrow> bool \<Rightarrow> u32 \<Rightarrow> f64 \<Rightarrow> f64 \<Rightarrow> touch_phase \<Rightarrow> session_state \<Rightarrow> session_state \<times> bool" where
  "inject_touch_state now window_id content tid x y phase s =
     (case target_window window_id s of
        None \<Rightarrow> (s, False)
      | Some i \<Rightarrow>
          (case map_of (windows_by_id s) i of
             None \<Rightarrow> (s, False)
           | Some _ \<Rightarrow>
               let (s, x, y) = content_coords content i x y s;
                   (x, y) = logical_to_surface_coord x y (ses_scale s)
               in case window_resources touches i s of
                    None \<Rightarrow> (s, False)
                  | Some (surf, ts) \<Rightarrow>
                      (wake_compositor now (fold (touch_events (ucast now) surf tid x y phase) ts s), True)))"

definition inject_key_state ::
    "u64 \<Rightarrow> u32 \<Rightarrow> bool \<Rightarrow> u32 \<Rightarrow> u32 \<Rightarrow> u32 \<Rightarrow> u32 \<Rightarrow> session_state \<Rightarrow> session_state \<times> bool" where
  "inject_key_state now keycode pressed depressed latched locked grp s =
     (case focused_window s of
        None \<Rightarrow> (s, False)
      | Some i \<Rightarrow>
          (case window_resources keyboards i s of
             None \<Rightarrow> (s, False)
           | Some (_, ks) \<Rightarrow>
               let (serial_mods, s) = next_serial s;
                   (serial_key, s) = next_serial s;
                   s = send_wl (concat (map (\<lambda>k. [KbdModifiers k serial_mods depressed latched locked grp,
                                                  KbdKey k serial_key (ucast now) keycode pressed]) ks)) s
               in (wake_compositor now s, True)))"

section \<open>Resizing\<close>

definition output_mode :: "u32 \<Rightarrow> u32 \<Rightarrow> session_state \<Rightarrow> resource \<Rightarrow> wl_event list" where
  "output_mode width height s r =
     OutMode r (sint width) (sint height) # (if res_version s r \<ge> 2 then [OutDone r] else [])"

definition configure_toplevel :: "u32 \<Rightarrow> u32 \<Rightarrow> resource \<times> resource \<Rightarrow> session_state \<Rightarrow> session_state" where
  "configure_toplevel width height pair s =
     (let s = send_wl [TopConfigure (snd pair) (sint width) (sint height)] s;
          (serial, s) = next_serial s
      in send_wl [XdgConfigure (fst pair) serial] s)"

definition resize_state :: "u64 \<Rightarrow> u32 \<Rightarrow> u32 \<Rightarrow> session_state \<Rightarrow> session_state" where
  "resize_state now width height s =
     (let s = s\<lparr>ses_width := width, ses_height := height\<rparr>;
          s = s\<lparr>output_globals := alive_of s (output_globals s)\<rparr>;
          s = send_wl (concat (map (output_mode width height s) (output_globals s))) s;
          s = s\<lparr>toplevels := filter (\<lambda>(i, xs, tlv). xs \<notin> set (dead_res s) \<and> tlv \<notin> set (dead_res s)) (toplevels s)\<rparr>;
          s = fold (configure_toplevel width height) (map snd (toplevels s)) s
      in wake_compositor now s)"

section \<open>Steps\<close>

text \<open>The operations as the compositor, the control socket and the outer view call them, in any
  order. A client may destroy a resource or set a window geometry at any time.\<close>

inductive ses_step :: "session_state \<Rightarrow> session_state \<Rightarrow> bool" where
  S_add: "ses_step s (fst (add_window pid g s))"
| S_remove: "ses_step s (fst (remove_window i s))"
| S_app_id: "ses_step s (set_app_id i a s)"
| S_title: "ses_step s (set_title i t s)"
| S_register: "ses_step s (register_surface now i surf c s)"
| S_register_no_focus: "ses_step s (register_surface_no_focus i surf c s)"
| S_unregister: "ses_step s (unregister_surface now i s)"
| S_keyboard: "ses_step s (register_keyboard now c k s)"
| S_pointer: "ses_step s (register_pointer now c p s)"
| S_touch: "ses_step s (register_touch c r s)"
| S_no_keyboard: "ses_step s (unregister_keyboard c k s)"
| S_no_pointer: "ses_step s (unregister_pointer c p s)"
| S_no_touch: "ses_step s (unregister_touch c r s)"
| S_output: "ses_step s (register_output r s)"
| S_toplevel: "ses_step s (register_toplevel i xs tlv s)"
| S_plasma_manager: "ses_step s (register_plasma_manager r s)"
| S_plasma_window: "ses_step s (register_plasma_window i r s)"
| S_no_plasma_window: "ses_step s (unregister_plasma_window i r s)"
| S_axis: "ses_step s (fst (inject_axis now src ah av sh sv s))"
| S_inject_pointer: "ses_step s (fst (inject_pointer_state now w cn x y b pr ax ay sq s))"
| S_inject_touch: "ses_step s (fst (inject_touch_state now w cn tid x y ph s))"
| S_inject_key: "ses_step s (fst (inject_key_state now k pr m1 m2 m3 gr s))"
| S_resize: "ses_step s (resize_state now wd ht s)"
| S_damage: "ses_step s (record_damage ns s)"
| S_outer: "ses_step s (set_outer_wake_fd now fd s)"
| S_outer_clear: "ses_step s (clear_outer_wake_fd_if_mine f s)"
| S_activity: "ses_step s (note_activity now s)"
| S_die: "ses_step s (s\<lparr>dead_res := r # dead_res s\<rparr>)"
| S_geometry: "ses_step s (s\<lparr>surf_rect := (surf_rect s)(surf := rc)\<rparr>)"

inductive ses_reach :: "session_state \<Rightarrow> bool" where
  ses_start: "ses_reach (state_new nm wd ht sc sink now)"
| ses_more: "\<lbrakk>ses_reach s; ses_step s s'\<rbrakk> \<Longrightarrow> ses_reach s'"

section \<open>What an observer of the events knows\<close>

type_synonym view = "u32 \<rightharpoonup> string \<times> string \<times> int"

fun observe :: "event_body \<Rightarrow> view \<Rightarrow> view" where
  "observe (WindowCreated n i a t p) v = v(i \<mapsto> (a, t, p))"
| "observe (WindowDestroyed n i) v = v(i := None)"
| "observe (WindowChanged n i f) v =
     v(i := map_option (\<lambda>(a, t, p). (case wc_app_id f of Some a' \<Rightarrow> a' | None \<Rightarrow> a,
                                     case wc_title f of Some t' \<Rightarrow> t' | None \<Rightarrow> t, p)) (v i))"
| "observe _ v = v"

definition window_view :: "session_state \<Rightarrow> view" where
  "window_view s = (\<lambda>i. map_option (\<lambda>w. (wi_app_id w, wi_title w, wi_pid w)) (map_of (windows s) i))"

definition view_ok :: "session_state \<Rightarrow> bool" where
  "view_ok s \<longleftrightarrow> (has_sink s \<longrightarrow> fold observe (emitted_events s) Map.empty = window_view s)"

definition focus_ok :: "session_state \<Rightarrow> bool" where
  "focus_ok s \<longleftrightarrow> (\<forall>i. focused_window s = Some i \<longrightarrow> i \<in> fst ` set (windows_by_id s))"

definition table_ok :: "session_state \<Rightarrow> bool" where
  "table_ok s \<longleftrightarrow> distinct (alist_keys (windows s)) \<and> distinct (alist_keys (windows_by_id s))
     \<and> (\<forall>i w. map_of (windows s) i = Some w \<longrightarrow> wi_id w = i \<and> \<not> wi_focused w)"

definition ses_inv :: "session_state \<Rightarrow> bool" where
  "ses_inv s \<longleftrightarrow> view_ok s \<and> focus_ok s \<and> table_ok s"

section \<open>Lemmas: what input leaves alone\<close>

definition same_tables :: "session_state \<Rightarrow> session_state \<Rightarrow> bool" where
  "same_tables s s' \<longleftrightarrow> windows s' = windows s \<and> emitted_events s' = emitted_events s \<and> has_sink s' = has_sink s
     \<and> windows_by_id s' = windows_by_id s \<and> focused_window s' = focused_window s \<and> keyboards s' = keyboards s
     \<and> pointers s' = pointers s \<and> touches s' = touches s \<and> dead_res s' = dead_res s"

lemma same_tables_refl [simp]: "same_tables s s"
  by (simp add: same_tables_def)

lemma same_tables_trans: "same_tables a b \<Longrightarrow> same_tables b c \<Longrightarrow> same_tables a c"
  by (simp add: same_tables_def)

lemma same_tables_fold:
  assumes "\<And>x s. same_tables s (f x s)"
  shows "same_tables s (fold f xs s)"
  by (induction xs arbitrary: s) (auto intro: same_tables_trans assms)

lemma ses_inv_same_tables: "same_tables s s' \<Longrightarrow> ses_inv s \<Longrightarrow> ses_inv s'"
  by (simp add: ses_inv_def view_ok_def focus_ok_def table_ok_def window_view_def same_tables_def)

lemma next_serial_same: "next_serial s = (n, s') \<Longrightarrow> same_tables s s' \<and> wl_sent s' = wl_sent s
    \<and> res_version s' = res_version s"
  by (auto simp: next_serial_def same_tables_def)

text \<open>Events go to resources of a set only.\<close>

fun ev_target :: "wl_event \<Rightarrow> resource" where
  "ev_target (KbdEnter r _ _) = r"
| "ev_target (KbdLeave r _ _) = r"
| "ev_target (KbdModifiers r _ _ _ _ _) = r"
| "ev_target (KbdKey r _ _ _ _) = r"
| "ev_target (PtrEnter r _ _) = r"
| "ev_target (PtrLeave r _ _) = r"
| "ev_target (PtrMotion r _ _ _) = r"
| "ev_target (PtrButton r _ _ _ _) = r"
| "ev_target (PtrAxisSource r _) = r"
| "ev_target (PtrAxis r _ _ _) = r"
| "ev_target (PtrAxisStop r _ _) = r"
| "ev_target (PtrFrame r) = r"
| "ev_target (TouchDown r _ _ _ _ _ _) = r"
| "ev_target (TouchMotion r _ _ _ _) = r"
| "ev_target (TouchUp r _ _ _) = r"
| "ev_target (TouchFrame r) = r"
| "ev_target (OutMode r _ _) = r"
| "ev_target (OutDone r) = r"
| "ev_target (TopConfigure r _ _) = r"
| "ev_target (XdgConfigure r _) = r"
| "ev_target (PlasmaWindow r _) = r"
| "ev_target (PlasmaWindowUuid r _ _) = r"
| "ev_target (PlasmaUnmapped r) = r"
| "ev_target (PlasmaTitle r _) = r"
| "ev_target (PlasmaAppId r _) = r"

definition sends_to :: "resource set \<Rightarrow> session_state \<Rightarrow> session_state \<Rightarrow> bool" where
  "sends_to R s s' \<longleftrightarrow> (\<exists>new. wl_sent s' = wl_sent s @ new \<and> ev_target ` set new = R)"

lemma sends_to_refl [simp]: "sends_to {} s s"
  by (simp add: sends_to_def)

lemma sends_to_trans: "sends_to R a b \<Longrightarrow> sends_to Q b c \<Longrightarrow> sends_to (R \<union> Q) a c"
  unfolding sends_to_def by (metis append.assoc image_Un set_append)

lemma sends_to_fold:
  assumes "\<And>x s. sends_to {x} s (f x s)"
  shows "sends_to (set xs) s (fold f xs s)"
proof (induction xs arbitrary: s)
  case (Cons x xs)
  from sends_to_trans [OF assms [of x s] Cons [of "f x s"]] show ?case by simp
qed simp

lemma send_wl_simps [simp]:
  "wl_sent (send_wl es s) = wl_sent s @ es" "same_tables s (send_wl es s')  = same_tables s s'"
  "res_version (send_wl es s) = res_version s"
  by (simp_all add: send_wl_def same_tables_def)

lemma wake_simps [simp]:
  "wl_sent (wake_compositor now s) = wl_sent s" "same_tables s (wake_compositor now s') = same_tables s s'"
  by (simp_all add: wake_compositor_def same_tables_def)

lemma record_cursor_simps [simp]:
  "wl_sent (record_cursor_pos x y q s) = wl_sent s" "same_tables s (record_cursor_pos x y q s') = same_tables s s'"
  by (simp_all add: record_cursor_pos_def same_tables_def)

lemma next_serial_frame [simp]:
  "same_tables s (snd (next_serial s')) = same_tables s s'" "wl_sent (snd (next_serial s)) = wl_sent s"
  "res_version (snd (next_serial s)) = res_version s"
  by (simp_all add: next_serial_def same_tables_def)

lemma enter_leave_same [simp]:
  "same_tables s (enter_keyboard surf k s)" "same_tables s (enter_pointer surf p s)"
  "same_tables s (leave_keyboard surf k s)" "same_tables s (leave_pointer surf p s)"
  by (simp_all add: enter_keyboard_def enter_pointer_def leave_keyboard_def leave_pointer_def Let_def case_prod_beta)

lemma same_tables_fold2:
  assumes "\<And>x s. same_tables s (f x s)" "\<And>x s. same_tables s (g x s)"
  shows "same_tables s (fold g ys (fold f xs s))"
  using same_tables_trans [OF same_tables_fold [of f, OF assms(1)] same_tables_fold [of g, OF assms(2)]] .

lemma send_enter_same [simp]: "same_tables s (send_enter now i s)"
  by (auto simp: send_enter_def Let_def split: option.splits intro: same_tables_fold2)

lemma send_leave_same [simp]: "same_tables s (send_leave now i s)"
  by (auto simp: send_leave_def Let_def split: option.splits intro: same_tables_fold2)

lemma pointer_events_frame:
  "same_tables s (pointer_events time x y b pr ax ay p s)"
  "sends_to {p} s (pointer_events time x y b pr ax ay p s)"
  by (auto simp: pointer_events_def Let_def case_prod_beta sends_to_def frame_if_def)

lemma touch_events_frame:
  "same_tables s (touch_events time surf i x y ph r s)"
  "sends_to {r} s (touch_events time surf i x y ph r s)"
  by (cases ph; auto simp: touch_events_def Let_def case_prod_beta sends_to_def)+

lemma content_coords_frame:
  assumes "content_coords cn i x y s = (s', x', y')"
  shows "same_tables s s'" "wl_sent s' = wl_sent s" "ses_scale s' = ses_scale s"
  using assms
  by (auto simp: content_coords_def window_content_inset_def same_tables_def
      split: if_splits option.splits prod.splits)

lemma window_resources_same:
  "same_tables s s' \<Longrightarrow> window_resources pointers i s' = window_resources pointers i s"
  "same_tables s s' \<Longrightarrow> window_resources touches i s' = window_resources touches i s"
  by (simp_all add: same_tables_def window_resources_def alive_of_def cong: option.case_cong)

section \<open>Lemmas: synthetic input\<close>

lemma inject_pointer_spec:
  fixes s :: session_state and w
  defines "r \<equiv> (case target_window w s of Some i \<Rightarrow> window_resources pointers i s | None \<Rightarrow> None)"
  assumes "inject_pointer_state now w cn x y b pr ax ay sq s = (s', ok)"
  shows "same_tables s s' \<and> ok = (r \<noteq> None)
    \<and> sends_to (case r of Some (_, ps) \<Rightarrow> set ps | None \<Rightarrow> {}) s s'"
proof (cases "target_window w s")
  case None
  with assms show ?thesis by (simp add: inject_pointer_state_def)
next
  case (Some i)
  then have r: "r = window_resources pointers i s" by (simp add: r_def)
  show ?thesis
  proof (cases "map_of (windows_by_id s) i")
    case None
    with Some assms(2) r show ?thesis by (simp add: inject_pointer_state_def window_resources_def)
  next
    case (Some e)
    obtain s1 x' y' where c: "content_coords cn i x y s = (s1, x', y')" by (metis surj_pair)
    note fr = content_coords_frame [OF c]
    have wr: "window_resources pointers i s1 = r" using window_resources_same(1) [OF fr(1), of i] r by simp
    show ?thesis
    proof (cases r)
      case None
      with assms(2) Some \<open>target_window w s = Some i\<close> c wr fr show ?thesis
        by (auto simp: inject_pointer_state_def logical_to_surface_coord_def sends_to_def)
    next
      case (Some q)
      obtain surf ps where q: "q = (surf, ps)" by fastforce
      let ?s2 = "fold (pointer_events (ucast now) x' y' b pr ax ay) ps s1"
      have s': "s' = wake_compositor now (record_cursor_pos x' y' sq ?s2)" "ok"
        using assms(2) \<open>map_of (windows_by_id s) i = Some e\<close> \<open>target_window w s = Some i\<close> c wr Some q
        by (auto simp: inject_pointer_state_def logical_to_surface_coord_def Let_def)
      have "same_tables s1 ?s2" by (rule same_tables_fold) (rule pointer_events_frame)
      moreover have "sends_to (set ps) s1 ?s2" by (rule sends_to_fold) (rule pointer_events_frame)
      ultimately show ?thesis
        using fr same_tables_trans s' Some q by (auto simp: sends_to_def)
    qed
  qed
qed

lemma inject_touch_spec:
  fixes s :: session_state and w
  defines "r \<equiv> (case target_window w s of Some i \<Rightarrow> window_resources touches i s | None \<Rightarrow> None)"
  assumes "inject_touch_state now w cn tid x y ph s = (s', ok)"
  shows "same_tables s s' \<and> ok = (r \<noteq> None)
    \<and> sends_to (case r of Some (_, ps) \<Rightarrow> set ps | None \<Rightarrow> {}) s s'"
proof (cases "target_window w s")
  case None
  with assms show ?thesis by (simp add: inject_touch_state_def)
next
  case (Some i)
  then have r: "r = window_resources touches i s" by (simp add: r_def)
  show ?thesis
  proof (cases "map_of (windows_by_id s) i")
    case None
    with Some assms(2) r show ?thesis by (simp add: inject_touch_state_def window_resources_def)
  next
    case (Some e)
    obtain s1 x' y' where c: "content_coords cn i x y s = (s1, x', y')" by (metis surj_pair)
    note fr = content_coords_frame [OF c]
    have wr: "window_resources touches i s1 = r" using window_resources_same(2) [OF fr(1), of i] r by simp
    show ?thesis
    proof (cases r)
      case None
      with assms(2) Some \<open>target_window w s = Some i\<close> c wr fr show ?thesis
        by (auto simp: inject_touch_state_def logical_to_surface_coord_def sends_to_def)
    next
      case (Some q)
      obtain surf ts where q: "q = (surf, ts)" by fastforce
      let ?s2 = "fold (touch_events (ucast now) surf tid x' y' ph) ts s1"
      have s': "s' = wake_compositor now ?s2" "ok"
        using assms(2) \<open>map_of (windows_by_id s) i = Some e\<close> \<open>target_window w s = Some i\<close> c wr Some q
        by (auto simp: inject_touch_state_def logical_to_surface_coord_def Let_def)
      have "same_tables s1 ?s2" by (rule same_tables_fold) (rule touch_events_frame)
      moreover have "sends_to (set ts) s1 ?s2" by (rule sends_to_fold) (rule touch_events_frame)
      ultimately show ?thesis
        using fr same_tables_trans s' Some q by (auto simp: sends_to_def)
    qed
  qed
qed

lemma inject_key_spec:
  fixes s :: session_state
  defines "r \<equiv> (case focused_window s of Some i \<Rightarrow> window_resources keyboards i s | None \<Rightarrow> None)"
  assumes "inject_key_state now k pr m1 m2 m3 gr s = (s', ok)"
  shows "same_tables s s' \<and> ok = (r \<noteq> None)
    \<and> sends_to (case r of Some (_, ks) \<Rightarrow> set ks | None \<Rightarrow> {}) s s'"
proof (cases r)
  case None
  with assms show ?thesis by (auto simp: inject_key_state_def split: option.splits)
next
  case (Some q)
  then obtain i surf ks where q: "q = (surf, ks)" and f: "focused_window s = Some i"
    and w: "window_resources keyboards i s = Some (surf, ks)"
    by (cases q) (auto simp: r_def split: option.splits)
  have "ev_target ` (\<Union>k'\<in>set ks. {KbdModifiers k' a m1 m2 m3 gr, KbdKey k' c (ucast now) k pr}) = set ks"
    for a c by force
  with assms(2) Some q f w show ?thesis
    by (auto simp: inject_key_state_def Let_def case_prod_beta sends_to_def)
qed

lemma inject_axis_same: "same_tables s (fst (inject_axis now src ah av sh sv s))"
  by (auto simp: inject_axis_def split: option.splits prod.splits)

section \<open>Lemmas: the invariant\<close>

lemma emit_event_simps [simp]:
  "windows (emit_event b s) = windows s" "windows_by_id (emit_event b s) = windows_by_id s"
  "focused_window (emit_event b s) = focused_window s" "has_sink (emit_event b s) = has_sink s"
  "emitted_events (emit_event b s) = (if has_sink s then emitted_events s @ [b] else emitted_events s)"
  by (simp_all add: emit_event_def)

lemma plasma_frames [simp]:
  "same_tables s (plasma_send i ev s)" "same_tables s (notify_plasma_window_created i s)"
  by (simp_all add: plasma_send_def notify_plasma_window_created_def split: option.splits)

lemma poke_frame [simp]: "same_tables s (poke_outer_view s)"
  by (simp add: poke_outer_view_def same_tables_def split: option.splits)

lemma same_tables_fields:
  assumes "same_tables s s'"
  shows "windows s' = windows s" "emitted_events s' = emitted_events s" "has_sink s' = has_sink s"
    "windows_by_id s' = windows_by_id s" "focused_window s' = focused_window s"
  using assms by (simp_all add: same_tables_def)

lemmas plasma_fields [simp] = plasma_frames [THEN same_tables_fields(1)] plasma_frames [THEN same_tables_fields(2)]
  plasma_frames [THEN same_tables_fields(3)] plasma_frames [THEN same_tables_fields(4)]
  plasma_frames [THEN same_tables_fields(5)]
  poke_frame [THEN same_tables_fields(1)] poke_frame [THEN same_tables_fields(2)]
  poke_frame [THEN same_tables_fields(3)] poke_frame [THEN same_tables_fields(4)]
  poke_frame [THEN same_tables_fields(5)]

lemma ses_inv_add_window: "ses_inv s \<Longrightarrow> ses_inv (fst (add_window pid g s))"
  by (auto simp: ses_inv_def add_window_def Let_def view_ok_def focus_ok_def table_ok_def window_view_def)

lemma alist_remove_Nil: "alist_remove k xs = [] \<Longrightarrow> x \<noteq> k \<Longrightarrow> map_of xs x = None"
  using fun_cong [OF map_of_alist_remove [of k xs], of x] by simp

lemma ses_inv_remove_window: "ses_inv s \<Longrightarrow> ses_inv (fst (remove_window i s))"
  by (auto simp: ses_inv_def remove_window_def Let_def view_ok_def focus_ok_def table_ok_def window_view_def
      fun_eq_iff alist_remove_Nil simp del: map_of_eq_Some_iff Some_eq_map_of_iff split: if_splits)

lemma ses_inv_set_app_id: "ses_inv s \<Longrightarrow> ses_inv (set_app_id i a s)"
  by (auto simp: ses_inv_def set_app_id_def Let_def view_ok_def focus_ok_def table_ok_def window_view_def
      no_change_def fun_eq_iff simp del: map_of_eq_Some_iff Some_eq_map_of_iff split: option.splits)

lemma ses_inv_set_title: "ses_inv s \<Longrightarrow> ses_inv (set_title i a s)"
  by (auto simp: ses_inv_def set_title_def Let_def view_ok_def focus_ok_def table_ok_def window_view_def
      no_change_def fun_eq_iff simp del: map_of_eq_Some_iff Some_eq_map_of_iff split: option.splits)

lemma ses_inv_register_surface: "ses_inv s \<Longrightarrow> ses_inv (register_surface now i surf c s)"
proof -
  assume inv: "ses_inv s"
  let ?s = "s\<lparr>windows_by_id := alist_insert i (surf, c) (windows_by_id s), focused_window := Some i\<rparr>"
  have "ses_inv ?s"
    using inv by (simp add: ses_inv_def view_ok_def focus_ok_def table_ok_def window_view_def)
  moreover have "same_tables ?s (register_surface now i surf c s)"
    using same_tables_trans [OF send_leave_same send_enter_same]
    by (auto simp: register_surface_def Let_def split: option.splits)
  ultimately show ?thesis by (rule ses_inv_same_tables [rotated])
qed

lemma max_key_mem: "max_key xs = Some k \<Longrightarrow> k \<in> fst ` set xs"
  using Max_in [of "fst ` set xs"] by (auto simp: max_key_def split: if_splits)

lemma set_keys_alist_remove [simp]: "fst ` set (alist_remove k xs) = fst ` set xs - {k}"
  by (auto simp: alist_remove_def)

lemma ses_inv_unregister_surface: "ses_inv s \<Longrightarrow> ses_inv (unregister_surface now i s)"
proof -
  assume inv: "ses_inv s"
  let ?t = "s\<lparr>windows_by_id := alist_remove i (windows_by_id s), toplevels := alist_remove i (toplevels s)\<rparr>"
  let ?s = "if focused_window s = Some i then ?t\<lparr>focused_window := max_key (windows_by_id ?t)\<rparr> else ?t"
  have eq: "unregister_surface now i s = (case focused_window ?s of Some j \<Rightarrow> send_enter now j ?s | None \<Rightarrow> ?s)"
    by (simp add: unregister_surface_def unregister_toplevel_def Let_def split: option.split)
  have "ses_inv ?s"
    using inv max_key_mem [of "alist_remove i (windows_by_id s)"]
    by (auto simp: ses_inv_def view_ok_def focus_ok_def table_ok_def window_view_def)
  moreover have "same_tables ?s (unregister_surface now i s)"
    unfolding eq by (simp split: option.split)
  ultimately show ?thesis by (rule ses_inv_same_tables [rotated])
qed

lemma ses_inv_frame:
  assumes "ses_inv s" "windows s' = windows s" "emitted_events s' = emitted_events s" "has_sink s' = has_sink s"
    "windows_by_id s' = windows_by_id s" "focused_window s' = focused_window s"
  shows "ses_inv s'"
  using assms by (simp add: ses_inv_def view_ok_def focus_ok_def table_ok_def window_view_def)

lemma enter_fields [simp]:
  "windows (enter_keyboard f k s) = windows s" "emitted_events (enter_keyboard f k s) = emitted_events s"
  "has_sink (enter_keyboard f k s) = has_sink s" "windows_by_id (enter_keyboard f k s) = windows_by_id s"
  "focused_window (enter_keyboard f k s) = focused_window s"
  "windows (enter_pointer f k s) = windows s" "emitted_events (enter_pointer f k s) = emitted_events s"
  "has_sink (enter_pointer f k s) = has_sink s" "windows_by_id (enter_pointer f k s) = windows_by_id s"
  "focused_window (enter_pointer f k s) = focused_window s"
  using enter_leave_same(1) [of s f k] enter_leave_same(2) [of s f k] by (simp_all add: same_tables_def)

lemma wake_fields [simp]:
  "windows (wake_compositor now s) = windows s" "emitted_events (wake_compositor now s) = emitted_events s"
  "has_sink (wake_compositor now s) = has_sink s" "windows_by_id (wake_compositor now s) = windows_by_id s"
  "focused_window (wake_compositor now s) = focused_window s"
  by (simp_all add: wake_compositor_def)

lemma configure_same: "same_tables s (configure_toplevel w h pr s)"
  by (simp add: configure_toplevel_def case_prod_beta Let_def)

lemma ses_inv_resize: "ses_inv s \<Longrightarrow> ses_inv (resize_state now w h s)"
proof -
  assume inv: "ses_inv s"
  let ?s = "s\<lparr>ses_width := w, ses_height := h, output_globals := alive_of s (output_globals s),
    wl_sent := wl_sent s @ concat (map (output_mode w h s) (alive_of s (output_globals s))),
    toplevels := filter (\<lambda>(i, xs, tlv). xs \<notin> set (dead_res s) \<and> tlv \<notin> set (dead_res s)) (toplevels s)\<rparr>"
  have om: "output_mode w h (s\<lparr>ses_width := w, ses_height := h, output_globals := gs\<rparr>) = output_mode w h s" for gs
    by (simp add: output_mode_def fun_eq_iff)
  have "resize_state now w h s = wake_compositor now (fold (configure_toplevel w h) (map snd (toplevels ?s)) ?s)"
    by (simp add: resize_state_def Let_def send_wl_def alive_of_def om)
  moreover have "same_tables ?s (fold (configure_toplevel w h) (map snd (toplevels ?s)) ?s)"
    by (rule same_tables_fold) (rule configure_same)
  moreover have "ses_inv ?s" by (rule ses_inv_frame [OF inv]) simp_all
  ultimately show ?thesis using ses_inv_same_tables by simp
qed

lemma ses_inv_outer: "ses_inv s \<Longrightarrow> ses_inv (set_outer_wake_fd now fd s)"
  by (auto simp: ses_inv_def set_outer_wake_fd_def flush_releases_def Let_def view_ok_def focus_ok_def table_ok_def
      window_view_def)

lemma ses_inv_step: "ses_step s s' \<Longrightarrow> ses_inv s \<Longrightarrow> ses_inv s'"
proof (induction rule: ses_step.induct)
  case (S_inject_pointer s now w cn x y b pr ax ay sq)
  then show ?case
    using inject_pointer_spec [of now w cn x y b pr ax ay sq s] ses_inv_same_tables by (metis prod.collapse)
next
  case (S_inject_touch s now w cn tid x y ph)
  then show ?case
    using inject_touch_spec [of now w cn tid x y ph s] ses_inv_same_tables by (metis prod.collapse)
next
  case (S_inject_key s now k pr m1 m2 m3 gr)
  then show ?case
    using inject_key_spec [of now k pr m1 m2 m3 gr s] ses_inv_same_tables by (metis prod.collapse)
next
  case (S_axis s now src ah av sh sv)
  then show ?case using inject_axis_same ses_inv_same_tables by blast
next
  case (S_register_no_focus s i surf c)
  then show ?case
    by (auto simp: ses_inv_def register_surface_no_focus_def view_ok_def focus_ok_def table_ok_def window_view_def
        split: option.splits)
next
  case (S_keyboard s now c k)
  then show ?case by (auto intro!: ses_inv_frame [of s] simp: register_keyboard_def Let_def split: option.splits)
next
  case (S_pointer s now c p)
  then show ?case by (auto intro!: ses_inv_frame [of s] simp: register_pointer_def Let_def split: option.splits)
next
  case (S_damage s ns)
  then show ?case by (auto intro!: ses_inv_frame [of s] simp: record_damage_def)
qed (simp_all add: ses_inv_add_window ses_inv_remove_window ses_inv_set_app_id ses_inv_set_title
    ses_inv_register_surface ses_inv_unregister_surface ses_inv_resize ses_inv_outer,
    (erule ses_inv_frame; simp add: register_touch_def unregister_keyboard_def unregister_pointer_def
      unregister_touch_def register_output_def register_toplevel_def register_plasma_manager_def
      register_plasma_window_def unregister_plasma_window_def clear_outer_wake_fd_if_mine_def note_activity_def)+)

lemma ses_inv_reach: "ses_reach s \<Longrightarrow> ses_inv s"
proof (induction rule: ses_reach.induct)
  case (ses_start nm wd ht sc sink now)
  show ?case by (simp add: state_new_def ses_inv_def view_ok_def focus_ok_def table_ok_def window_view_def)
qed (rule ses_inv_step)

section \<open>Properties\<close>

definition input_receivers ::
    "(session_state \<Rightarrow> (client \<times> resource list) list) \<Rightarrow> u32 option \<Rightarrow> session_state \<Rightarrow> resource set" where
  "input_receivers get target s =
     (case target of
        None \<Rightarrow> {}
      | Some i \<Rightarrow> (case map_of (windows_by_id s) i of
                     None \<Rightarrow> {}
                   | Some (_, c) \<Rightarrow> set (res_of c (get s)) - set (dead_res s)))"

lemma input_receivers_window:
  "(case window_resources get i s of Some (_, ps) \<Rightarrow> set ps | None \<Rightarrow> {}) = input_receivers get (Some i) s"
  "window_resources get i s \<noteq> None \<longleftrightarrow> input_receivers get (Some i) s \<noteq> {}"
  by (auto simp: window_resources_def input_receivers_def res_of_def alive_of_def filter_empty_conv Let_def
      split: option.splits)

lemma input_receivers_target:
  fixes get t s
  defines "r \<equiv> (case t of Some i \<Rightarrow> window_resources get i s | None \<Rightarrow> None)"
  shows "(case r of Some (_, ps) \<Rightarrow> set ps | None \<Rightarrow> {}) = input_receivers get t s"
    "r \<noteq> None \<longleftrightarrow> input_receivers get t s \<noteq> {}"
  using input_receivers_window [of get _ s] unfolding r_def
  by (cases t; simp add: input_receivers_def)+

lemma target_window_eq: "target_window w s = (if w = None then focused_window s else w)"
  by (simp add: target_window_def split: option.split)

definition sample_rect :: rect where
  "sample_rect = \<lparr>rect_x = 0, rect_y = 0, rect_width = 640, rect_height = 480\<rparr>"

definition sample_new :: session_state where
  "sample_new = state_new ''s'' 640 480 1 True 0"

text \<open>C21: The events a session emits describe its window table. Whatever operations ran, in
  whatever order, an observer that folds the emitted events knows exactly the windows the
  session has, each with its current app id, title and pid: no window is missed, none lingers,
  no change of app id or title goes unreported.\<close>

theorem events_mirror_windows:
  assumes "ses_reach s" "has_sink s"
  shows "fold observe (emitted_events s) Map.empty = window_view s"
  using ses_inv_reach [OF assms(1)] assms(2) by (simp add: ses_inv_def view_ok_def)

definition sample_titled :: session_state where
  "sample_titled = set_title 1 ''t'' (fst (add_window 42 sample_rect sample_new))"

theorem events_mirror_windows_witness:
  "fold observe (emitted_events sample_titled) Map.empty = window_view sample_titled
    \<and> window_view sample_titled = [1 \<mapsto> ([], ''t'', 42)] \<and> length (emitted_events sample_titled) = 2"
proof -
  have "ses_reach sample_titled"
    unfolding sample_titled_def sample_new_def by (intro ses_start ses_more [OF _ S_title] ses_more [OF _ S_add])
  moreover have "has_sink sample_titled"
    and "window_view sample_titled = [1 \<mapsto> ([], ''t'', 42)]" and "length (emitted_events sample_titled) = 2"
    by (simp_all add: sample_titled_def sample_new_def state_new_def add_window_def set_title_def Let_def
        window_view_def notify_plasma_window_created_def send_wl_def plasma_send_def emit_event_def alive_of_def fun_eq_iff)
  ultimately show ?thesis using events_mirror_windows [of sample_titled] by simp
qed


definition sample_focused :: session_state where
  "sample_focused = register_surface 5 1 10 3 (register_keyboard 5 3 20 (fst (add_window 42 sample_rect sample_new)))"

lemma sample_focused_reach: "ses_reach sample_focused"
  unfolding sample_focused_def sample_new_def
  by (intro ses_start ses_more [OF _ S_register] ses_more [OF _ S_keyboard] ses_more [OF _ S_add])

lemmas sample_session_simps = sample_focused_def sample_new_def state_new_def add_window_def Let_def
  notify_plasma_window_created_def send_wl_def emit_event_def alive_of_def register_surface_def
  register_keyboard_def push_entry_def focus_surface_def send_enter_def res_of_def enter_keyboard_def
  next_serial_def wake_compositor_def

lemma sample_focused_fields:
  "focused_window sample_focused = Some 1" "windows_by_id sample_focused = [(1, 10, 3)]"
  "keyboards sample_focused = [(3, [20])]" "dead_res sample_focused = []" "pointers sample_focused = []"
  "touches sample_focused = []" "length (windows sample_focused) = 1"
  by (simp_all add: sample_session_simps)


text \<open>C23: Synthetic input goes where it is meant to and nowhere else. A pointer or touch event goes
  to the window it names, or to the focused window if it names none, a key to the focused window; it
  is delivered to exactly the live input resources of the client that owns that window, and the
  answer is true exactly when there is such a resource. A window id that is not registered drops
  the event: nothing falls back to the focused window.\<close>

theorem input_confined:
  assumes "inject_pointer_state now w cn x y b pr ax ay sq s = (s1, ok1)"
    and "inject_touch_state now w cn tid x y ph s = (s2, ok2)"
    and "inject_key_state now k kp m1 m2 m3 gr s = (s3, ok3)"
  shows "sends_to (input_receivers pointers (if w = None then focused_window s else w) s) s s1
    \<and> (ok1 \<longleftrightarrow> input_receivers pointers (if w = None then focused_window s else w) s \<noteq> {})
    \<and> sends_to (input_receivers touches (if w = None then focused_window s else w) s) s s2
    \<and> (ok2 \<longleftrightarrow> input_receivers touches (if w = None then focused_window s else w) s \<noteq> {})
    \<and> sends_to (input_receivers keyboards (focused_window s) s) s s3
    \<and> (ok3 \<longleftrightarrow> input_receivers keyboards (focused_window s) s \<noteq> {})"
  using inject_pointer_spec [OF assms(1)] inject_touch_spec [OF assms(2)] inject_key_spec [OF assms(3)]
  unfolding input_receivers_target target_window_eq by simp

theorem input_confined_witness:
  "\<exists>s'. inject_key_state 9 30 True 0 0 0 0 sample_focused = (s', True) \<and> sends_to {20} sample_focused s'"
proof -
  obtain s1 ok1 s2 ok2 s3 ok3 where
    r: "inject_pointer_state 9 None False 1 2 0 False 0 0 0 sample_focused = (s1, ok1)"
      "inject_touch_state 9 None False 0 1 2 Down sample_focused = (s2, ok2)"
      "inject_key_state 9 30 True 0 0 0 0 sample_focused = (s3, ok3)"
    by (metis surj_pair)
  have "input_receivers keyboards (focused_window sample_focused) sample_focused = {20}"
    by (simp add: input_receivers_def sample_focused_fields res_of_def)
  with input_confined [OF r] r(3) show ?thesis by auto
qed

text \<open>C24: Focus after a window closes. If it had the focus, the focus goes to the highest of the
  remaining ids, whatever kind of surface that is; otherwise the focus stays. So a panel that was
  registered without focus does take it when the focused toplevel closes, if its id is the highest.\<close>

theorem focus_after_close:
  assumes "ses_reach s" "focused_window s = Some i"
  shows "focused_window (unregister_surface now i s) = max_key (alist_remove i (windows_by_id s))
    \<and> (\<forall>j \<in> fst ` set (windows_by_id s) - {i}.
         \<exists>k. focused_window (unregister_surface now i s) = Some k \<and> j \<le> k)"
proof -
  have *: "focused_window (unregister_surface now i s) = max_key (alist_remove i (windows_by_id s))"
    using assms(2) same_tables_fields(5) [OF send_enter_same]
    by (auto simp: unregister_surface_def unregister_toplevel_def Let_def split: option.splits)
  have "\<exists>k. max_key (alist_remove i (windows_by_id s)) = Some k \<and> j \<le> k"
    if "j \<in> fst ` set (windows_by_id s) - {i}" for j
  proof -
    from that have "j \<in> fst ` set (alist_remove i (windows_by_id s))" by simp
    then show ?thesis unfolding max_key_def by (auto simp del: set_keys_alist_remove)
  qed
  with * show ?thesis by simp
qed

theorem focus_after_close_witness:
  "focused_window (unregister_surface 6 1 (register_surface_no_focus 2 11 4 sample_focused)) = Some 2
    \<and> focused_window (register_surface_no_focus 2 11 4 sample_focused) = Some 1"
proof -
  let ?s = "register_surface_no_focus 2 11 4 sample_focused"
  have f: "focused_window ?s = Some 1" by (simp add: register_surface_no_focus_def sample_focused_fields)
  have "ses_reach ?s" by (rule ses_more [OF sample_focused_reach S_register_no_focus])
  from focus_after_close [OF this f, of 6] f show ?thesis
    by (simp add: register_surface_no_focus_def sample_focused_fields max_key_def alist_remove_def)
qed

text \<open>C25: Detaching is silent. Clearing the wake fd of an attached session emits \<open>Occluded\<close> and
  flushes the releases deferred for the view. The detach sequence does neither: the view thread's
  own clearing comes first, reports nothing, and the second one finds the session already
  detached.\<close>

theorem detach_silent:
  assumes "outer_wake_fd s = Some fd"
  shows "emitted_events (set_outer_wake_fd now None s)
      = emitted_events s @ (if has_sink s then [Occluded (ses_name s) True] else [])
    \<and> ses_bufs (set_outer_wake_fd now None s) = flush_pending_releases (ses_bufs s)
    \<and> emitted_events (detach_view now fd s) = emitted_events s
    \<and> ses_bufs (detach_view now fd s) = ses_bufs s \<and> \<not> is_attached (detach_view now fd s)"
  using assms by (simp add: set_outer_wake_fd_def detach_view_def clear_outer_wake_fd_if_mine_def flush_releases_def
      Let_def emit_event_def wake_compositor_def is_attached_def)

theorem detach_silent_witness:
  "emitted_events (detach_view 9 4 (set_outer_wake_fd 8 (Some 4) sample_new)) = [Occluded ''s'' False]
    \<and> emitted_events (set_outer_wake_fd 9 None (set_outer_wake_fd 8 (Some 4) sample_new))
      = [Occluded ''s'' False, Occluded ''s'' True]"
proof -
  have "outer_wake_fd (set_outer_wake_fd 8 (Some 4) sample_new) = Some 4"
    by (simp add: set_outer_wake_fd_def sample_new_def state_new_def emit_event_def)
  from detach_silent [OF this, of 9] show ?thesis
    by (simp add: set_outer_wake_fd_def sample_new_def state_new_def emit_event_def)
qed

end
