(* ===== verification/Composite.thy ===== *)
theory Composite
  imports Session_State "HOL-Library.Signed_Division"
begin

text \<open>
  Capture: \<open>composite.rs\<close>, \<open>buffer.rs\<close>, \<open>shm.rs\<close>, the subsurface, viewport and buffer requests of
  \<open>compositor.rs\<close> that feed it, \<open>capture_window\<close> and \<open>capture_desktop\<close> of \<open>state.rs\<close> and
  \<open>encode_png\<close> of \<open>control.rs\<close>. Surfaces are numbers and the store maps a live surface to its
  \<open>SurfaceData\<close>, so that a surface can be its own descendant, as it can in the code.

  Arithmetic is that of a release build: \<open>i32\<close> wraps at 32 bits, \<open>usize\<close> at 64, and an index out
  of bounds panics. Slices are shorter than \<open>2^63\<close> bytes, so that an offset that wrapped is past the
  end of every slice. A depth of the recursion that the stack does not hold ends the process; the
  first argument of \<open>composite_into\<close> is the depth that is left.
\<close>

section \<open>Outcomes and machine arithmetic\<close>

datatype 'a outcome = Returned 'a | Panicked | StackOverflow

fun obind :: "'a outcome \<Rightarrow> ('a \<Rightarrow> 'b outcome) \<Rightarrow> 'b outcome" where
  "obind (Returned x) f = f x"
| "obind Panicked f = Panicked"
| "obind StackOverflow f = StackOverflow"

primrec ofold :: "('x \<Rightarrow> 's \<Rightarrow> 's outcome) \<Rightarrow> 'x list \<Rightarrow> 's \<Rightarrow> 's outcome" where
  "ofold f [] s = Returned s"
| "ofold f (x # xs) s = obind (f x s) (ofold f xs)"

abbreviation wrap_i32 :: "int \<Rightarrow> int" where
  "wrap_i32 \<equiv> wrap_signed 32"

definition as_usize :: "int \<Rightarrow> nat" where
  "as_usize x = nat (x mod 2 ^ 64)"

definition wrap_usize :: "nat \<Rightarrow> nat" where
  "wrap_usize n = n mod 2 ^ 64"

definition f64_as_i32 :: "f64 \<Rightarrow> int" where
  "f64_as_i32 x = max (- (2 ^ 31)) (min (2 ^ 31 - 1) (if 0 \<le> x then \<lfloor>x\<rfloor> else \<lceil>x\<rceil>))"

section \<open>Buffers\<close>

datatype shm_format = Argb8888 | Xrgb8888 | OtherFormat u32

record shm_pool =
  pool_mmap :: "bytes option"
  pool_size :: nat

text \<open>Mapping the client's file is the argument \<open>mmap\<close>.\<close>

definition pool_new :: "(nat \<Rightarrow> bytes option) \<Rightarrow> int \<Rightarrow> shm_pool" where
  "pool_new mmap sz =
     (let n = nat (max sz 0)
      in \<lparr>pool_mmap = (if n > 0 then mmap n else None), pool_size = n\<rparr>)"

definition pool_resize :: "(nat \<Rightarrow> bytes option) \<Rightarrow> int \<Rightarrow> shm_pool \<Rightarrow> shm_pool" where
  "pool_resize mmap new_size p =
     (let n = nat (max new_size 0)
      in if n > pool_size p then \<lparr>pool_mmap = mmap n, pool_size = n\<rparr> else p)"

definition pool_with_bytes :: "shm_pool \<Rightarrow> int \<Rightarrow> nat \<Rightarrow> bytes option" where
  "pool_with_bytes p off len =
     (if off < 0 then None
      else case pool_mmap p of
             None \<Rightarrow> None
           | Some m \<Rightarrow>
               let end = nat off + len
               in if end \<ge> 2 ^ 64 \<or> end > length m then None
                  else Some (take len (drop (nat off) m)))"

definition pool_write_bytes :: "(nat \<Rightarrow> bytes option) \<Rightarrow> shm_pool \<Rightarrow> int \<Rightarrow> bytes \<Rightarrow> bytes option" where
  "pool_write_bytes mmap p off src =
     (if off < 0 then None
      else let end = nat off + length src
           in if end \<ge> 2 ^ 64 \<or> end > pool_size p then None
              else map_option (\<lambda>m. take (nat off) m @ src @ drop end m) (mmap (pool_size p)))"

record shm_buffer =
  sb_pool :: shm_pool
  sb_offset :: int
  sb_width :: int
  sb_height :: int
  sb_stride :: int
  sb_format :: shm_format

text \<open>A dmabuf's bytes come from the kernel or the GPU: \<open>db_bytes\<close> is what reading it gives.\<close>

record dmabuf_buffer =
  db_width :: int
  db_height :: int
  db_stride :: int
  db_format :: shm_format
  db_modifier :: u64
  db_bytes :: "bytes option"

datatype buffer_kind =
    ShmBuf shm_buffer
  | DmabufBuf dmabuf_buffer
  | SinglePixel u8 u8 u8 u8
  | InvalidBuf

record view_bytes =
  vb_bytes :: bytes
  vb_width :: int
  vb_height :: int
  vb_stride :: int
  vb_format :: shm_format

fun with_bytes :: "buffer_kind \<Rightarrow> view_bytes option" where
  "with_bytes (ShmBuf s) =
     (let len = as_usize (sb_height s) * as_usize (sb_stride s)
      in if len \<ge> 2 ^ 64 then None
         else map_option (\<lambda>b. \<lparr>vb_bytes = b, vb_width = sb_width s, vb_height = sb_height s,
                               vb_stride = sb_stride s, vb_format = sb_format s\<rparr>)
                (pool_with_bytes (sb_pool s) (sb_offset s) len))"
| "with_bytes (DmabufBuf d) =
     map_option (\<lambda>b. \<lparr>vb_bytes = b, vb_width = db_width d, vb_height = db_height d,
                      vb_stride = db_stride d, vb_format = db_format d\<rparr>) (db_bytes d)"
| "with_bytes (SinglePixel b g r a) =
     Some \<lparr>vb_bytes = [b, g, r, a], vb_width = 1, vb_height = 1, vb_stride = 4, vb_format = Argb8888\<rparr>"
| "with_bytes InvalidBuf = None"

section \<open>Surfaces\<close>

record viewport_data =
  vp_src :: "(f64 \<times> f64 \<times> f64 \<times> f64) option"
  vp_dst :: "(int \<times> int) option"

record subsurface_child =
  ch_surface :: surface
  ch_x :: int
  ch_y :: int

record surface_data =
  current_buffer :: "buffer_kind option"
  children :: "subsurface_child list"
  viewport :: viewport_data
  is_layer_surface :: bool

type_synonym surfaces = "surface \<Rightarrow> surface_data option"

definition viewport_default :: viewport_data where
  "viewport_default = \<lparr>vp_src = None, vp_dst = None\<rparr>"

definition surface_default :: surface_data where
  "surface_default = \<lparr>current_buffer = None, children = [], viewport = viewport_default, is_layer_surface = False\<rparr>"

definition on_surface :: "surface \<Rightarrow> (surface_data \<Rightarrow> surface_data) \<Rightarrow> surfaces \<Rightarrow> surfaces" where
  "on_surface s f st = (case st s of Some sd \<Rightarrow> st(s \<mapsto> f sd) | None \<Rightarrow> st)"

definition get_subsurface :: "surface \<Rightarrow> surface \<Rightarrow> surfaces \<Rightarrow> surfaces" where
  "get_subsurface surf parent st =
     on_surface parent (\<lambda>pd. pd\<lparr>children := children pd @ [\<lparr>ch_surface = surf, ch_x = 0, ch_y = 0\<rparr>]\<rparr>) st"

fun move_first :: "surface \<Rightarrow> int \<Rightarrow> int \<Rightarrow> subsurface_child list \<Rightarrow> subsurface_child list" where
  "move_first surf x y [] = []"
| "move_first surf x y (c # cs) =
     (if ch_surface c = surf then c\<lparr>ch_x := x, ch_y := y\<rparr> # cs else c # move_first surf x y cs)"

definition set_position :: "surface \<Rightarrow> surface \<Rightarrow> int \<Rightarrow> int \<Rightarrow> surfaces \<Rightarrow> surfaces" where
  "set_position surf parent x y st =
     on_surface parent (\<lambda>pd. pd\<lparr>children := move_first surf x y (children pd)\<rparr>) st"

definition subsurface_destroy :: "surface \<Rightarrow> surface \<Rightarrow> surfaces \<Rightarrow> surfaces" where
  "subsurface_destroy surf parent st =
     on_surface parent (\<lambda>pd. pd\<lparr>children := filter (\<lambda>c. ch_surface c \<noteq> surf) (children pd)\<rparr>) st"

fun position :: "surface \<Rightarrow> subsurface_child list \<Rightarrow> nat option" where
  "position surf [] = None"
| "position surf (c # cs) = (if ch_surface c = surf then Some 0 else map_option Suc (position surf cs))"

definition restack ::
    "(subsurface_child list \<Rightarrow> nat) \<Rightarrow> surface \<Rightarrow> subsurface_child list \<Rightarrow> subsurface_child list" where
  "restack insert_at surf cs =
     (case position surf cs of
        None \<Rightarrow> cs
      | Some ci \<Rightarrow>
          let child = cs ! ci;
              rest = take ci cs @ drop (Suc ci) cs;
              i = insert_at rest
          in take i rest @ child # drop i rest)"

definition place_above :: "surface \<Rightarrow> surface \<Rightarrow> surface \<Rightarrow> surfaces \<Rightarrow> surfaces" where
  "place_above surf parent sibling st =
     on_surface parent (\<lambda>pd. pd\<lparr>children := restack
       (\<lambda>cs. if sibling = parent then length cs
             else case position sibling cs of Some si \<Rightarrow> si + 1 | None \<Rightarrow> length cs) surf (children pd)\<rparr>) st"

definition place_below :: "surface \<Rightarrow> surface \<Rightarrow> surface \<Rightarrow> surfaces \<Rightarrow> surfaces" where
  "place_below surf parent sibling st =
     on_surface parent (\<lambda>pd. pd\<lparr>children := restack
       (\<lambda>cs. if sibling = parent then 0
             else case position sibling cs of Some si \<Rightarrow> si | None \<Rightarrow> 0) surf (children pd)\<rparr>) st"

definition set_source :: "surface \<Rightarrow> f64 \<Rightarrow> f64 \<Rightarrow> f64 \<Rightarrow> f64 \<Rightarrow> surfaces \<Rightarrow> surfaces" where
  "set_source surf x y width height st =
     on_surface surf (\<lambda>sd. sd\<lparr>viewport := (viewport sd)\<lparr>vp_src :=
       (if x < 0 then None else Some (x, y, width, height))\<rparr>\<rparr>) st"

definition set_destination :: "surface \<Rightarrow> int \<Rightarrow> int \<Rightarrow> surfaces \<Rightarrow> surfaces" where
  "set_destination surf width height st =
     on_surface surf (\<lambda>sd. sd\<lparr>viewport := (viewport sd)\<lparr>vp_dst :=
       (if width < 0 then None else Some (width, height))\<rparr>\<rparr>) st"

definition viewport_destroy :: "surface \<Rightarrow> surfaces \<Rightarrow> surfaces" where
  "viewport_destroy surf st = on_surface surf (\<lambda>sd. sd\<lparr>viewport := viewport_default\<rparr>) st"

section \<open>Blitting\<close>

definition over_channel :: "u8 \<Rightarrow> u8 \<Rightarrow> u8 \<Rightarrow> u8" where
  "over_channel sc sa dc = of_nat (min (unat sc + unat dc * (255 - unat sa) div 255) 255)"

text \<open>One pixel, the body of both inner loops.\<close>

definition put_over :: "bool \<Rightarrow> bytes \<Rightarrow> nat \<Rightarrow> nat \<Rightarrow> bytes \<Rightarrow> bytes outcome" where
  "put_over is_argb src si di dst =
     (if wrap_usize (si + 4) > length src \<or> wrap_usize (di + 4) > length dst then Returned dst
      else if si + 4 > length src then Panicked
      else let sb = src ! si; sg = src ! (si + 1); sr = src ! (si + 2);
               sa = (if is_argb then src ! (si + 3) else 0xFF)
           in if sa = 0
              then Returned dst
              else if di + 4 > length dst then Panicked
              else if sa = 0xFF
              then Returned (dst[di := sb, di + 1 := sg, di + 2 := sr, di + 3 := 0xFF])
              else Returned (dst[di := over_channel sb sa (dst ! di),
                                 di + 1 := over_channel sg sa (dst ! (di + 1)),
                                 di + 2 := over_channel sr sa (dst ! (di + 2)),
                                 di + 3 := over_channel sa sa (dst ! (di + 3))]))"

definition blit_over ::
    "int \<Rightarrow> int \<Rightarrow> int \<Rightarrow> int \<Rightarrow> int \<Rightarrow> bytes \<Rightarrow> int \<Rightarrow> int \<Rightarrow> int \<Rightarrow> shm_format \<Rightarrow> bytes \<Rightarrow> bytes outcome" where
  "blit_over dst_w dst_h dst_stride off_x off_y src src_w src_h src_stride format dst =
     (if src_w \<le> 0 \<or> src_h \<le> 0 then Returned dst
      else let x0 = max off_x 0;
               y0 = max off_y 0;
               x1 = min (wrap_i32 (off_x + src_w)) dst_w;
               y1 = min (wrap_i32 (off_y + src_h)) dst_h
           in if x1 \<le> x0 \<or> y1 \<le> y0 then Returned dst
              else ofold (\<lambda>y.
                let src_row = as_usize (wrap_i32 (y - off_y)) * as_usize src_stride;
                    dst_row = as_usize y * as_usize dst_stride
                in ofold (\<lambda>x. put_over (format = Argb8888) src
                     (wrap_usize (src_row + as_usize (wrap_i32 (x - off_x)) * 4))
                     (wrap_usize (dst_row + as_usize x * 4))) [x0..x1 - 1]) [y0..y1 - 1] dst)"

definition blit_viewport ::
    "int \<Rightarrow> int \<Rightarrow> int \<Rightarrow> int \<Rightarrow> int \<Rightarrow> bytes \<Rightarrow> int \<Rightarrow> shm_format \<Rightarrow> int \<Rightarrow> int \<Rightarrow> int \<Rightarrow> int \<Rightarrow> int \<Rightarrow> int
      \<Rightarrow> bytes \<Rightarrow> bytes outcome" where
  "blit_viewport dst_w dst_h dst_stride off_x off_y src src_stride format sx sy sw sh dw dh dst =
     (if sw \<le> 0 \<or> sh \<le> 0 \<or> dw \<le> 0 \<or> dh \<le> 0 then Returned dst
      else ofold (\<lambda>dy dst.
        let src_y = wrap_i32 (sy + wrap_i32 (dy * sh) sdiv dh);
            dst_y = wrap_i32 (off_y + dy)
        in if dst_y < 0 \<or> dst_y \<ge> dst_h then Returned dst
           else ofold (\<lambda>dx dst.
             let src_x = wrap_i32 (sx + wrap_i32 (dx * sw) sdiv dw);
                 dst_x = wrap_i32 (off_x + dx)
             in if dst_x < 0 \<or> dst_x \<ge> dst_w then Returned dst
                else put_over (format = Argb8888) src
                       (wrap_usize (as_usize src_y * as_usize src_stride + as_usize src_x * 4))
                       (wrap_usize (as_usize dst_y * as_usize dst_stride + as_usize dst_x * 4)) dst)
             [0..dw - 1] dst) [0..dh - 1] dst)"

section \<open>Compositing a tree\<close>

definition view_rect :: "viewport_data \<Rightarrow> view_bytes \<Rightarrow> (int \<times> int \<times> int \<times> int) \<times> int \<times> int" where
  "view_rect vp vb =
     (let (sx, sy, sw, sh) = (case vp_src vp of
              Some (x, y, w, h) \<Rightarrow> (f64_as_i32 x, f64_as_i32 y, f64_as_i32 w, f64_as_i32 h)
            | None \<Rightarrow> (0, 0, vb_width vb, vb_height vb))
      in ((sx, sy, sw, sh), case vp_dst vp of Some (w, h) \<Rightarrow> (w, h) | None \<Rightarrow> (sw, sh)))"

definition draw_buffer ::
    "viewport_data \<Rightarrow> view_bytes \<Rightarrow> int \<Rightarrow> int \<Rightarrow> int \<Rightarrow> int \<Rightarrow> int \<Rightarrow> bytes \<Rightarrow> bytes outcome" where
  "draw_buffer vp vb dst_w dst_h dst_stride off_x off_y dst =
     (let ((sx, sy, sw, sh), (dw, dh)) = view_rect vp vb
      in if sw = dw \<and> sh = dh \<and> sx = 0 \<and> sy = 0
         then blit_over dst_w dst_h dst_stride off_x off_y (vb_bytes vb) (vb_width vb) (vb_height vb)
                (vb_stride vb) (vb_format vb) dst
         else blit_viewport dst_w dst_h dst_stride off_x off_y (vb_bytes vb) (vb_stride vb) (vb_format vb)
                sx sy sw sh dw dh dst)"

definition draw_surface :: "surface_data \<Rightarrow> int \<Rightarrow> int \<Rightarrow> int \<Rightarrow> int \<Rightarrow> int \<Rightarrow> bytes \<Rightarrow> bytes outcome" where
  "draw_surface sd dst_w dst_h dst_stride off_x off_y dst =
     (case current_buffer sd of
        None \<Rightarrow> Returned dst
      | Some kind \<Rightarrow>
          (case with_bytes kind of
             None \<Rightarrow> Returned dst
           | Some vb \<Rightarrow> draw_buffer (viewport sd) vb dst_w dst_h dst_stride off_x off_y dst))"

primrec composite_into ::
    "nat \<Rightarrow> surfaces \<Rightarrow> int \<Rightarrow> int \<Rightarrow> int \<Rightarrow> surface \<Rightarrow> int \<Rightarrow> int \<Rightarrow> bytes \<Rightarrow> bytes outcome" where
  "composite_into 0 st dst_w dst_h dst_stride surf off_x off_y dst = StackOverflow"
| "composite_into (Suc depth) st dst_w dst_h dst_stride surf off_x off_y dst =
     (case st surf of
        None \<Rightarrow> Returned dst
      | Some sd \<Rightarrow>
          obind (draw_surface sd dst_w dst_h dst_stride off_x off_y dst)
            (ofold (\<lambda>c. composite_into depth st dst_w dst_h dst_stride (ch_surface c)
                          (wrap_i32 (off_x + ch_x c)) (wrap_i32 (off_y + ch_y c))) (children sd)))"

definition surface_dims :: "surface_data \<Rightarrow> u32 \<times> u32 \<Rightarrow> u32 \<times> u32" where
  "surface_dims sd fallback =
     (let dims = (case current_buffer sd of
            None \<Rightarrow> None
          | Some (ShmBuf s) \<Rightarrow> Some (sb_width s, sb_height s)
          | Some (DmabufBuf d) \<Rightarrow> Some (db_width d, db_height d)
          | Some (SinglePixel b g r a) \<Rightarrow> Some (1, 1)
          | Some InvalidBuf \<Rightarrow> None);
          from_buffer = (case dims of
              Some (w, h) \<Rightarrow> if w > 0 \<and> h > 0 then (word_of_int w, word_of_int h) else fallback
            | None \<Rightarrow> fallback)
      in case vp_dst (viewport sd) of
           Some (dw, dh) \<Rightarrow> if dw > 0 \<and> dh > 0 then (word_of_int dw, word_of_int dh) else from_buffer
         | None \<Rightarrow> from_buffer)"

text \<open>A vector of zeros; one of more than \<open>isize::MAX\<close> bytes panics.\<close>

definition zeroed :: "nat \<Rightarrow> bytes outcome" where
  "zeroed n = (if n \<ge> 2 ^ 63 then Panicked else Returned (replicate n 0))"

definition composite_into_buf ::
    "nat \<Rightarrow> surfaces \<Rightarrow> surface \<Rightarrow> u32 \<times> u32 \<Rightarrow> ((int \<times> int \<times> int) \<times> bytes) option outcome" where
  "composite_into_buf depth st rsurf fallback =
     (case st rsurf of
        None \<Rightarrow> Returned None
      | Some sd \<Rightarrow>
          let (surf_w, surf_h) = surface_dims sd fallback
          in if surf_w = 0 \<or> surf_h = 0 then Returned None
             else let (w, h) = (if surf_w < 4 \<or> surf_h < 4 then fallback else (surf_w, surf_h));
                      w = sint w;
                      h = sint h;
                      stride = wrap_i32 (w * 4);
                      needed = wrap_usize (as_usize h * as_usize stride)
                  in obind (zeroed needed) (\<lambda>buf.
                     obind (composite_into depth st w h stride rsurf 0 0 buf) (\<lambda>buf.
                     Returned (Some ((w, h, stride), buf)))))"

definition composite_into_slice ::
    "nat \<Rightarrow> surfaces \<Rightarrow> surface \<Rightarrow> int \<Rightarrow> int \<Rightarrow> bytes \<Rightarrow> (bool \<times> bytes) outcome" where
  "composite_into_slice depth st rsurf w h output =
     (if st rsurf = None then Returned (False, output)
      else let stride = wrap_i32 (w * 4)
           in if length output \<noteq> wrap_usize (as_usize h * as_usize stride) then Returned (False, output)
              else obind (composite_into depth st w h stride rsurf 0 0 (replicate (length output) 0))
                     (\<lambda>out. Returned (True, out)))"

section \<open>Captures\<close>

record captured_frame =
  fr_bytes :: bytes
  fr_width :: int
  fr_height :: int
  fr_stride :: int

definition capture_window :: "nat \<Rightarrow> surfaces \<Rightarrow> u32 \<Rightarrow> session_state \<Rightarrow> captured_frame option outcome" where
  "capture_window depth st window_id s =
     (case map_of (windows_by_id s) window_id of
        None \<Rightarrow> Returned None
      | Some (surf, _) \<Rightarrow>
          obind (composite_into_buf depth st surf (ses_width s, ses_height s)) (\<lambda>r.
            Returned (map_option (\<lambda>((w, h, stride), b).
              \<lparr>fr_bytes = b, fr_width = w, fr_height = h, fr_stride = stride\<rparr>) r)))"

definition capture_desktop :: "nat \<Rightarrow> surfaces \<Rightarrow> session_state \<Rightarrow> captured_frame option outcome" where
  "capture_desktop depth st s =
     (if ses_width s = 0 \<or> ses_height s = 0 then Returned None
      else let w = sint (ses_width s);
               h = sint (ses_height s);
               stride = wrap_i32 (w * 4);
               surfs = map (fst \<circ> snd) (windows_by_id s);
               is_layer = (\<lambda>f. case st f of Some sd \<Rightarrow> is_layer_surface sd | None \<Rightarrow> False);
               regular = filter (\<lambda>f. \<not> is_layer f) surfs;
               layers = filter is_layer surfs;
               tile_w = w sdiv (max 1 (int (length regular)));
               any = (\<exists>f\<in>set surfs. st f \<noteq> None)
           in obind (zeroed (wrap_usize (as_usize h * as_usize stride))) (\<lambda>buf.
              obind (ofold (\<lambda>(i, f). composite_into depth st w h stride f (wrap_i32 (int i * tile_w)) 0)
                       (enumerate 0 regular) buf) (\<lambda>buf.
              obind (ofold (\<lambda>f. composite_into depth st w h stride f 0 0) layers buf) (\<lambda>buf.
              Returned (if any
                        then Some \<lparr>fr_bytes = buf, fr_width = w, fr_height = h, fr_stride = stride\<rparr>
                        else None)))))"

section \<open>PNG\<close>

text \<open>The PNG encoder is the argument \<open>png\<close>: the colour type (with alpha or not), the size, the
  pixels.\<close>

definition png_row :: "bool \<Rightarrow> bytes \<Rightarrow> nat \<Rightarrow> nat \<Rightarrow> bytes option" where
  "png_row has_alpha pixels row_start w =
     (if \<exists>x\<in>set [0..<w]. row_start + x * 4 + 4 > length pixels then None
      else Some (concat (map (\<lambda>x. let p = row_start + x * 4
           in [pixels ! (p + 2), pixels ! (p + 1), pixels ! p] @ (if has_alpha then [pixels ! (p + 3)] else []))
         [0..<w])))"

primrec png_rows :: "bool \<Rightarrow> bytes \<Rightarrow> nat \<Rightarrow> nat \<Rightarrow> nat list \<Rightarrow> bytes option" where
  "png_rows has_alpha pixels stride w [] = Some []"
| "png_rows has_alpha pixels stride w (y # ys) =
     (case png_row has_alpha pixels (y * stride) w of
        None \<Rightarrow> None
      | Some r \<Rightarrow> map_option ((@) r) (png_rows has_alpha pixels stride w ys))"

definition encode_png ::
    "(bool \<Rightarrow> nat \<Rightarrow> nat \<Rightarrow> bytes \<Rightarrow> (bytes, string) result) \<Rightarrow> bytes \<Rightarrow> int \<Rightarrow> int \<Rightarrow> int \<Rightarrow> shm_format
      \<Rightarrow> (bytes, string) result" where
  "encode_png png pixels width height stride format =
     (if width < 0 then Err ''negative width''
      else if height < 0 then Err ''negative height''
      else if stride < 0 then Err ''negative stride''
      else case (case format of Argb8888 \<Rightarrow> Some True | Xrgb8888 \<Rightarrow> Some False | OtherFormat _ \<Rightarrow> None) of
             None \<Rightarrow> Err ''unsupported shm format''
           | Some has_alpha \<Rightarrow>
               (case png_rows has_alpha pixels (nat stride) (nat width) [0..<nat height] of
                  None \<Rightarrow> Err ''shm buffer shorter than declared geometry''
                | Some out \<Rightarrow> png has_alpha (nat width) (nat height) out))"

section \<open>Lemmas: outcomes and arithmetic\<close>

lemma ofold_returned:
  assumes "\<And>x s. x \<in> set xs \<Longrightarrow> P s \<Longrightarrow> \<exists>s'. f x s = Returned s' \<and> P s'" "P s"
  shows "\<exists>s'. ofold f xs s = Returned s' \<and> P s'"
  using assms
proof (induction xs arbitrary: s)
  case (Cons x xs)
  then obtain s1 where "f x s = Returned s1" "P s1" by (metis list.set_intros(1))
  moreover obtain s2 where "ofold f xs s1 = Returned s2" "P s2"
    using Cons.IH [OF _ \<open>P s1\<close>] Cons.prems(1) by auto
  ultimately show ?case by simp
qed simp

lemma obind_assoc: "obind (obind x f) g = obind x (\<lambda>y. obind (f y) g)"
  by (cases x) simp_all

lemma ofold_append: "ofold f (xs @ ys) s = obind (ofold f xs s) (ofold f ys)"
proof (induction xs arbitrary: s)
  case (Cons x xs)
  then show ?case by (cases "f x s") simp_all
qed simp

lemma ofold_map: "ofold f (map g xs) s = ofold (f \<circ> g) xs s"
proof (induction xs arbitrary: s)
  case (Cons x xs)
  then show ?case by (cases "f (g x) s") simp_all
qed simp

lemma ofold_nested:
  "ofold (\<lambda>y. ofold (f y) xs) ys s = ofold (\<lambda>(y, x). f y x) (List.product ys xs) s"
proof (induction ys arbitrary: s)
  case (Cons y ys)
  then show ?case
    by (cases "ofold (f y) xs s") (simp_all add: ofold_append ofold_map comp_def)
qed simp

lemma wrap_i32_range: "- (2 ^ 31) \<le> wrap_i32 x" "wrap_i32 x < 2 ^ 31"
  by (simp_all add: wrap_signed_def)

lemma wrap_i32_id [simp]: "- 2147483648 \<le> x \<Longrightarrow> x < 2147483648 \<Longrightarrow> wrap_i32 x = x"
  by (simp add: wrap_signed_def)

lemma wrap_i32_over: "2 ^ 31 \<le> x \<Longrightarrow> x < 2 ^ 32 \<Longrightarrow> wrap_i32 x < 0"
proof -
  assume x: "2 ^ 31 \<le> x" "x < 2 ^ 32"
  have "(x + 2 ^ 31) mod 2 ^ 32 = (x + 2 ^ 31 - 2 ^ 32) mod 2 ^ 32" by (simp only: minus_mod_self2)
  also have "\<dots> = x + 2 ^ 31 - 2 ^ 32" using x by (intro mod_pos_pos_trivial) auto
  finally show ?thesis using x by (simp add: wrap_signed_def)
qed

lemma as_usize_id [simp]: "0 \<le> x \<Longrightarrow> x < 2 ^ 64 \<Longrightarrow> as_usize x = nat x"
  by (simp add: as_usize_def)

lemma wrap_usize_id [simp]: "n < 2 ^ 64 \<Longrightarrow> wrap_usize n = n"
  by (simp add: wrap_usize_def)

text \<open>A byte offset within an image whose rows and coordinates are \<open>i32\<close> does not wrap.\<close>

lemma offset_bound:
  assumes "0 \<le> y" "y < 2 ^ 31" "0 \<le> stride" "stride < 2 ^ 31" "0 \<le> x" "x < 2 ^ 31"
  shows "as_usize y * as_usize stride + as_usize x * 4 = nat (y * stride + x * 4)"
    "nat (y * stride + x * 4) + 4 < 2 ^ 64"
proof -
  have "y * stride \<le> 2 ^ 31 * 2 ^ 31" using assms by (intro mult_mono) auto
  with assms show "nat (y * stride + x * 4) + 4 < 2 ^ 64" by (auto simp: nat_less_iff)
  from assms show "as_usize y * as_usize stride + as_usize x * 4 = nat (y * stride + x * 4)"
    by (simp add: nat_add_distrib nat_mult_distrib)
qed

section \<open>Lemmas: no panic\<close>

lemma put_over_safe:
  assumes "si + 4 < 2 ^ 64" "di + 4 < 2 ^ 64"
  shows "\<exists>dst'. put_over a src si di dst = Returned dst' \<and> length dst' = length dst"
  using assms by (auto simp: put_over_def Let_def)

text \<open>The overlap of a source placed at an offset with the destination.\<close>

lemma overlap_coord:
  assumes "max off 0 \<le> y" "y < min (wrap_i32 (off + len)) n" "- (2 ^ 31) \<le> off" "off < 2 ^ 31" "0 < len"
    "len < 2 ^ 31" "n < 2 ^ 31"
  shows "0 \<le> y" "y < n" "0 \<le> y - off" "y - off < len" "wrap_i32 (y - off) = y - off"
proof -
  have "off + len < 2 ^ 31"
  proof (rule ccontr)
    assume "\<not> off + len < 2 ^ 31"
    then have "wrap_i32 (off + len) < 0" using assms by (intro wrap_i32_over) auto
    with assms show False by auto
  qed
  then have "wrap_i32 (off + len) = off + len" using assms by auto
  with assms show "0 \<le> y" "y < n" "0 \<le> y - off" "y - off < len" by auto
  then show "wrap_i32 (y - off) = y - off" using assms by auto
qed

definition i32 :: "int \<Rightarrow> bool" where
  "i32 x \<longleftrightarrow> - (2 ^ 31) \<le> x \<and> x < 2 ^ 31"

lemma blit_over_safe:
  assumes "i32 off_x" "i32 off_y" "i32 src_w" "i32 src_h" "i32 dst_w" "i32 dst_h" "0 \<le> dst_stride" "i32 dst_stride"
    "0 \<le> src_stride" "i32 src_stride"
  shows "\<exists>dst'. blit_over dst_w dst_h dst_stride off_x off_y src src_w src_h src_stride f dst = Returned dst'
    \<and> length dst' = length dst"
proof (cases "src_w \<le> 0 \<or> src_h \<le> 0")
  case False
  let ?x1 = "min (wrap_i32 (off_x + src_w)) dst_w" and ?y1 = "min (wrap_i32 (off_y + src_h)) dst_h"
  have "\<exists>d'. ofold (\<lambda>y. ofold (\<lambda>x. put_over (f = Argb8888) src
      (wrap_usize (as_usize (wrap_i32 (y - off_y)) * as_usize src_stride + as_usize (wrap_i32 (x - off_x)) * 4))
      (wrap_usize (as_usize y * as_usize dst_stride + as_usize x * 4))) [max off_x 0..?x1 - 1])
      [max off_y 0..?y1 - 1] dst = Returned d' \<and> length d' = length dst"
  proof (intro ofold_returned refl)
    fix y x :: int and d' :: bytes
    assume "y \<in> set [max off_y 0..?y1 - 1]" "x \<in> set [max off_x 0..?x1 - 1]"
      and len: "length d' = length dst"
    then have y: "max off_y 0 \<le> y" "y < ?y1" and x: "max off_x 0 \<le> x" "x < ?x1" by auto
    note oy = overlap_coord [OF y] and ox = overlap_coord [OF x]
    have cy: "0 \<le> y" "y < dst_h" "0 \<le> y - off_y" "y - off_y < src_h" "wrap_i32 (y - off_y) = y - off_y"
      using oy assms False by (auto simp: i32_def)
    have cx: "0 \<le> x" "x < dst_w" "0 \<le> x - off_x" "x - off_x < src_w" "wrap_i32 (x - off_x) = x - off_x"
      using ox assms False by (auto simp: i32_def)
    have s: "as_usize (y - off_y) * as_usize src_stride + as_usize (x - off_x) * 4
        = nat ((y - off_y) * src_stride + (x - off_x) * 4)"
      "nat ((y - off_y) * src_stride + (x - off_x) * 4) + 4 < 2 ^ 64"
      using offset_bound [of "y - off_y" src_stride "x - off_x"] cy cx assms by (auto simp: i32_def)
    have d: "as_usize y * as_usize dst_stride + as_usize x * 4 = nat (y * dst_stride + x * 4)"
      "nat (y * dst_stride + x * 4) + 4 < 2 ^ 64"
      using offset_bound [of y dst_stride x] cy cx assms by (auto simp: i32_def)
    show "\<exists>e. put_over (f = Argb8888) src
        (wrap_usize (as_usize (wrap_i32 (y - off_y)) * as_usize src_stride + as_usize (wrap_i32 (x - off_x)) * 4))
        (wrap_usize (as_usize y * as_usize dst_stride + as_usize x * 4)) d' = Returned e \<and> length e = length dst"
      using put_over_safe [OF s(2) d(2), of "f = Argb8888" src d'] s d cy(5) cx(5) len by (simp add: wrap_usize_def)
  qed
  with False show ?thesis by (auto simp: blit_over_def Let_def)
qed (simp add: blit_over_def)

lemma scaled_coord:
  assumes "0 \<le> d" "d < dw" "0 < sw" "0 \<le> sx" "sx + sw < 2 ^ 31" "dw * sw < 2 ^ 31"
  shows "0 \<le> wrap_i32 (sx + wrap_i32 (d * sw) sdiv dw)" "wrap_i32 (sx + wrap_i32 (d * sw) sdiv dw) < sx + sw"
proof -
  have "d * sw \<le> dw * sw" using assms by (intro mult_right_mono) auto
  moreover have "0 \<le> d * sw" using assms by simp
  ultimately have w: "wrap_i32 (d * sw) = d * sw" using assms(6) by (intro wrap_i32_id) simp_all
  have "d * sw < dw * sw" using assms by (intro mult_strict_right_mono) auto
  have "(d * sw) div dw < sw"
  proof (rule ccontr)
    assume "\<not> (d * sw) div dw < sw"
    then have "sw * dw \<le> (d * sw) div dw * dw" using assms by (intro mult_right_mono) auto
    also have "\<dots> = d * sw - (d * sw) mod dw" by (simp only: minus_mod_eq_div_mult)
    also have "\<dots> \<le> d * sw" using pos_mod_sign [of dw "d * sw"] assms by linarith
    finally show False using \<open>d * sw < dw * sw\<close> by (simp add: mult.commute)
  qed
  moreover have "0 \<le> (d * sw) div dw" using assms by (simp add: pos_imp_zdiv_nonneg_iff)
  moreover have "(d * sw) sdiv dw = (d * sw) div dw"
    using assms by (cases "d = 0") (simp_all add: signed_divide_int_def sgn_mult)
  ultimately show "0 \<le> wrap_i32 (sx + wrap_i32 (d * sw) sdiv dw)"
    "wrap_i32 (sx + wrap_i32 (d * sw) sdiv dw) < sx + sw"
    using w assms by auto
qed

lemma blit_viewport_safe:
  assumes "i32 off_x" "i32 off_y" "i32 dst_w" "i32 dst_h" "0 \<le> dst_stride" "i32 dst_stride"
    "0 \<le> src_stride" "i32 src_stride" "0 \<le> sx" "0 \<le> sy" "sx + sw < 2 ^ 31" "sy + sh < 2 ^ 31"
    "dw * sw < 2 ^ 31" "dh * sh < 2 ^ 31"
  shows "\<exists>dst'. blit_viewport dst_w dst_h dst_stride off_x off_y src src_stride f sx sy sw sh dw dh dst = Returned dst'
    \<and> length dst' = length dst"
proof (cases "sw \<le> 0 \<or> sh \<le> 0 \<or> dw \<le> 0 \<or> dh \<le> 0")
  case False
  show ?thesis
    unfolding blit_viewport_def Let_def if_not_P [OF False]
  proof (rule ofold_returned)
    fix dy :: int and d :: bytes
    assume dy: "dy \<in> set [0..dh - 1]" and len: "length d = length dst"
    let ?src_y = "wrap_i32 (sy + wrap_i32 (dy * sh) sdiv dh)" and ?dst_y = "wrap_i32 (off_y + dy)"
    have sy: "0 \<le> ?src_y" "?src_y < 2 ^ 31"
      using scaled_coord [of dy dh sh sy] dy False assms by auto
    have row: "\<exists>d2. (if wrap_i32 (off_x + dx) < 0 \<or> wrap_i32 (off_x + dx) \<ge> dst_w then Returned d1
        else put_over (f = Argb8888) src
          (wrap_usize (as_usize ?src_y * as_usize src_stride
             + as_usize (wrap_i32 (sx + wrap_i32 (dx * sw) sdiv dw)) * 4))
          (wrap_usize (as_usize ?dst_y * as_usize dst_stride + as_usize (wrap_i32 (off_x + dx)) * 4)) d1) = Returned d2
        \<and> length d2 = length dst"
      if dx: "dx \<in> set [0..dw - 1]" and len1: "length d1 = length dst" and yin: "\<not> (?dst_y < 0 \<or> ?dst_y \<ge> dst_h)"
      for dx :: int and d1 :: bytes
    proof (cases "wrap_i32 (off_x + dx) < 0 \<or> wrap_i32 (off_x + dx) \<ge> dst_w")
      case out: False
      let ?src_x = "wrap_i32 (sx + wrap_i32 (dx * sw) sdiv dw)"
      have sx: "0 \<le> ?src_x" "?src_x < 2 ^ 31"
        using scaled_coord [of dx dw sw sx] dx False assms by auto
      have s: "as_usize ?src_y * as_usize src_stride + as_usize ?src_x * 4 = nat (?src_y * src_stride + ?src_x * 4)"
        "nat (?src_y * src_stride + ?src_x * 4) + 4 < 2 ^ 64"
        using offset_bound [of ?src_y src_stride ?src_x] sy sx assms by (simp_all add: i32_def)
      have t: "as_usize ?dst_y * as_usize dst_stride + as_usize (wrap_i32 (off_x + dx)) * 4
          = nat (?dst_y * dst_stride + wrap_i32 (off_x + dx) * 4)"
        "nat (?dst_y * dst_stride + wrap_i32 (off_x + dx) * 4) + 4 < 2 ^ 64"
        using offset_bound [of ?dst_y dst_stride "wrap_i32 (off_x + dx)"] yin out assms wrap_i32_range(2) [of "off_y + dy"]
          wrap_i32_range(2) [of "off_x + dx"] by (simp_all add: i32_def)
      have lt: "nat (?src_y * src_stride + ?src_x * 4) < 2 ^ 64"
        "nat (?dst_y * dst_stride + wrap_i32 (off_x + dx) * 4) < 2 ^ 64" using s(2) t(2) by linarith+
      show ?thesis
        unfolding if_not_P [OF out] s(1) t(1) wrap_usize_id [OF lt(1)] wrap_usize_id [OF lt(2)]
        using put_over_safe [OF s(2) t(2), of "f = Argb8888" src d1] len1 by simp
    qed (simp add: len1)
    show "\<exists>d'. (if ?dst_y < 0 \<or> ?dst_y \<ge> dst_h then Returned d
        else ofold (\<lambda>dx dst. if wrap_i32 (off_x + dx) < 0 \<or> wrap_i32 (off_x + dx) \<ge> dst_w then Returned dst
          else put_over (f = Argb8888) src
            (wrap_usize (as_usize ?src_y * as_usize src_stride
               + as_usize (wrap_i32 (sx + wrap_i32 (dx * sw) sdiv dw)) * 4))
            (wrap_usize (as_usize ?dst_y * as_usize dst_stride + as_usize (wrap_i32 (off_x + dx)) * 4)) dst)
          [0..dw - 1] d) = Returned d' \<and> length d' = length dst"
    proof (cases "?dst_y < 0 \<or> ?dst_y \<ge> dst_h")
      case False
      show ?thesis unfolding if_not_P [OF False] by (rule ofold_returned, erule (1) row [OF _ _ False], rule len)
    qed (simp add: len)
  qed simp
qed (simp add: blit_viewport_def)

section \<open>Compositing never panics for clients that keep to the protocol\<close>

text \<open>What the viewporter and shared-memory protocols ask of a client, for the buffer a surface
  shows: a row length that is not negative, a source rectangle with a corner that is not negative,
  and sizes for which the scaling arithmetic stays within 32 bits.\<close>

definition surface_ok :: "surface_data \<Rightarrow> bool" where
  "surface_ok sd \<longleftrightarrow>
     (case current_buffer sd of
        None \<Rightarrow> True
      | Some kind \<Rightarrow>
          (case with_bytes kind of
             None \<Rightarrow> True
           | Some vb \<Rightarrow>
               (case view_rect (viewport sd) vb of
                  ((sx, sy, sw, sh), (dw, dh)) \<Rightarrow>
                    0 \<le> vb_stride vb \<and> i32 (vb_stride vb) \<and> i32 (vb_width vb) \<and> i32 (vb_height vb)
                    \<and> 0 \<le> sx \<and> 0 \<le> sy \<and> sx + sw < 2 ^ 31 \<and> sy + sh < 2 ^ 31
                    \<and> dw * sw < 2 ^ 31 \<and> dh * sh < 2 ^ 31)))"

lemma draw_surface_safe:
  assumes "surface_ok sd" "i32 off_x" "i32 off_y" "i32 dst_w" "i32 dst_h" "0 \<le> dst_stride" "i32 dst_stride"
  shows "\<exists>dst'. draw_surface sd dst_w dst_h dst_stride off_x off_y dst = Returned dst' \<and> length dst' = length dst"
  using assms blit_over_safe [of off_x off_y _ _ dst_w dst_h dst_stride]
    blit_viewport_safe [of off_x off_y dst_w dst_h dst_stride]
  by (auto simp: surface_ok_def draw_surface_def draw_buffer_def Let_def split: option.splits prod.splits)

text \<open>A forest: a rank that falls from every surface to its children.\<close>

definition ranked :: "surfaces \<Rightarrow> (surface \<Rightarrow> nat) \<Rightarrow> bool" where
  "ranked st rank \<longleftrightarrow> (\<forall>s sd. st s = Some sd \<longrightarrow> (\<forall>c \<in> set (children sd). rank (ch_surface c) < rank s))"

lemma composite_into_safe:
  assumes "ranked st rank" "\<And>s sd. st s = Some sd \<Longrightarrow> surface_ok sd" "rank surf < depth"
    "i32 off_x" "i32 off_y" "i32 w" "i32 h" "0 \<le> stride" "i32 stride"
  shows "\<exists>dst'. composite_into depth st w h stride surf off_x off_y dst = Returned dst' \<and> length dst' = length dst"
  using assms(3-5)
proof (induction depth arbitrary: surf off_x off_y dst)
  case (Suc depth)
  show ?case
  proof (cases "st surf")
    case (Some sd)
    obtain d1 where d1: "draw_surface sd w h stride off_x off_y dst = Returned d1" "length d1 = length dst"
      using draw_surface_safe [OF assms(2) [OF Some] Suc.prems(2,3) assms(6-9)] by blast
    have "\<exists>d2. ofold (\<lambda>c. composite_into depth st w h stride (ch_surface c)
        (wrap_i32 (off_x + ch_x c)) (wrap_i32 (off_y + ch_y c))) (children sd) d1 = Returned d2 \<and> length d2 = length dst"
    proof (rule ofold_returned)
      fix c and d :: bytes
      assume "c \<in> set (children sd)" "length d = length dst"
      moreover from this Some assms(1) Suc.prems(1) have "rank (ch_surface c) < depth"
        unfolding ranked_def by fastforce
      ultimately show "\<exists>d'. composite_into depth st w h stride (ch_surface c)
          (wrap_i32 (off_x + ch_x c)) (wrap_i32 (off_y + ch_y c)) d = Returned d' \<and> length d' = length dst"
        using Suc.IH wrap_i32_range by (metis i32_def)
    qed (rule d1(2))
    with Some d1(1) show ?thesis by simp
  qed simp
qed simp

section \<open>What a blit draws\<close>

definition pixel :: "bytes \<Rightarrow> nat \<Rightarrow> bytes" where
  "pixel b k = [b ! k, b ! (k + 1), b ! (k + 2), b ! (k + 3)]"

text \<open>The reference: the premultiplied source over the destination.\<close>

definition over_pixel :: "bool \<Rightarrow> bytes \<Rightarrow> bytes \<Rightarrow> bytes" where
  "over_pixel is_argb s d =
     (let a = (if is_argb then s ! 3 else 0xFF)
      in if a = 0 then d
         else if a = 0xFF then [s ! 0, s ! 1, s ! 2, 0xFF]
         else [over_channel (s ! 0) a (d ! 0), over_channel (s ! 1) a (d ! 1), over_channel (s ! 2) a (d ! 2),
               over_channel a a (d ! 3)])"

definition apart :: "nat \<Rightarrow> nat \<Rightarrow> bool" where
  "apart m k \<longleftrightarrow> m + 4 \<le> k \<or> k + 4 \<le> m"

definition draws_at :: "nat \<Rightarrow> (bytes \<Rightarrow> bytes) \<Rightarrow> bytes \<Rightarrow> bytes \<Rightarrow> bool" where
  "draws_at k h d d' \<longleftrightarrow> length d' = length d \<and> pixel d' k = h (pixel d k)
     \<and> (\<forall>m. apart m k \<longrightarrow> pixel d' m = pixel d m)"

lemma put_over_draws:
  assumes "si + 4 \<le> length src" "di + 4 \<le> length dst" "si + 4 < 2 ^ 64" "di + 4 < 2 ^ 64"
  shows "\<exists>dst'. put_over a src si di dst = Returned dst' \<and> draws_at di (over_pixel a (pixel src si)) dst dst'"
  using assms
  by (auto simp: put_over_def Let_def over_pixel_def pixel_def draws_at_def apart_def nth_list_update)

lemma ofold_draws:
  assumes "\<And>k d. k \<in> set ks \<Longrightarrow> length d = n \<Longrightarrow> \<exists>d'. f k d = Returned d' \<and> draws_at (idx k) (h k) d d'"
    and "distinct ks" "\<And>k k'. k \<in> set ks \<Longrightarrow> k' \<in> set ks \<Longrightarrow> k \<noteq> k' \<Longrightarrow> apart (idx k) (idx k')" "length d = n"
  shows "\<exists>d'. ofold f ks d = Returned d' \<and> length d' = n
    \<and> (\<forall>k \<in> set ks. pixel d' (idx k) = h k (pixel d (idx k)))
    \<and> (\<forall>m. (\<forall>k \<in> set ks. apart m (idx k)) \<longrightarrow> pixel d' m = pixel d m)"
  using assms
proof (induction ks arbitrary: d)
  case (Cons k ks)
  obtain d1 where d1: "f k d = Returned d1" "draws_at (idx k) (h k) d d1"
    using Cons.prems(1) [of k d] Cons.prems(4) by auto
  then have len: "length d1 = n" using Cons.prems(4) by (simp add: draws_at_def)
  obtain d2 where d2: "ofold f ks d1 = Returned d2" "length d2 = n"
      "\<forall>k \<in> set ks. pixel d2 (idx k) = h k (pixel d1 (idx k))"
      "\<forall>m. (\<forall>k \<in> set ks. apart m (idx k)) \<longrightarrow> pixel d2 m = pixel d1 m"
    using Cons.IH [of d1] Cons.prems len by auto
  have other: "pixel d1 (idx k') = pixel d (idx k')" if "k' \<in> set ks" for k'
    using that d1(2) Cons.prems(2) Cons.prems(3) [of k' k] by (auto simp: draws_at_def)
  have "\<forall>k' \<in> set ks. apart (idx k) (idx k')" using Cons.prems(2,3) by auto
  then have "pixel d2 (idx k) = h k (pixel d (idx k))" using d1(2) d2(4) by (simp add: draws_at_def)
  with d1 d2 other show ?case by (auto simp: draws_at_def)
qed simp

lemma image_offset_apart:
  assumes "0 \<le> x" "x < w" "0 \<le> x'" "x' < w" "0 \<le> y" "0 \<le> y'" "(y, x) \<noteq> (y', x' :: int)"
  shows "apart (nat (y * (4 * w) + x * 4)) (nat (y' * (4 * w) + x' * 4))"
proof -
  have "y * w + x \<noteq> y' * w + x'"
  proof
    assume eq: "y * w + x = y' * w + x'"
    then have "(y * w + x) div w = (y' * w + x') div w" by simp
    then have "y = y'" using assms by simp
    with eq assms show False by simp
  qed
  then have "y * w + x + 1 \<le> y' * w + x' \<or> y' * w + x' + 1 \<le> y * w + x" by linarith
  moreover have "0 \<le> y * w" "0 \<le> y' * w" using assms by simp_all
  ultimately show ?thesis using assms by (auto simp: apart_def algebra_simps nat_le_iff le_nat_iff)
qed

definition byte_offset :: "int \<Rightarrow> int \<Rightarrow> int \<Rightarrow> nat" where
  "byte_offset stride y x = nat (y * stride + x * 4)"

lemma byte_offset_fits:
  assumes "0 \<le> y" "y < h" "0 \<le> x" "x < w" "4 * w \<le> stride"
  shows "int (byte_offset stride y x + 4) \<le> h * stride"
proof -
  have "(y + 1) * stride \<le> h * stride" "0 \<le> y * stride" using assms by (auto intro!: mult_right_mono)
  then show ?thesis using assms by (simp add: byte_offset_def algebra_simps)
qed

lemma byte_offset_eq:
  assumes "0 \<le> y" "y < 2 ^ 31" "0 \<le> stride" "stride < 2 ^ 31" "0 \<le> x" "x < 2 ^ 31"
  shows "wrap_usize (as_usize y * as_usize stride + as_usize x * 4) = byte_offset stride y x"
  using offset_bound [OF assms] by (simp add: byte_offset_def)

lemma ofold_cong: "(\<And>x. x \<in> set xs \<Longrightarrow> f x = g x) \<Longrightarrow> ofold f xs s = ofold g xs s"
proof (induction xs arbitrary: s)
  case (Cons x xs)
  then show ?case by (cases "g x s") simp_all
qed simp

lemma blit_over_draws:
  assumes size: "i32 off_x" "i32 off_y" "0 < src_w" "i32 src_w" "0 < src_h" "i32 src_h" "0 \<le> dst_w" "0 \<le> dst_h"
      "i32 (4 * dst_w)" "i32 dst_h" "i32 src_stride" "4 * src_w \<le> src_stride"
    and src: "int (length src) \<ge> src_h * src_stride" and dst: "int (length dst) = dst_h * (4 * dst_w)"
    and room: "off_x + src_w < 2 ^ 31" "off_y + src_h < 2 ^ 31"
  shows "\<exists>dst'. blit_over dst_w dst_h (4 * dst_w) off_x off_y src src_w src_h src_stride f dst = Returned dst'
    \<and> length dst' = length dst
    \<and> (\<forall>y x. 0 \<le> y \<and> y < dst_h \<and> 0 \<le> x \<and> x < dst_w \<longrightarrow>
         pixel dst' (byte_offset (4 * dst_w) y x) =
           (if off_x \<le> x \<and> x < off_x + src_w \<and> off_y \<le> y \<and> y < off_y + src_h
            then over_pixel (f = Argb8888) (pixel src (byte_offset src_stride (y - off_y) (x - off_x))) (pixel dst (byte_offset (4 * dst_w) y x))
            else pixel dst (byte_offset (4 * dst_w) y x)))"
proof -
  let ?xs = "[max off_x 0..min (off_x + src_w) dst_w - 1]" and ?ys = "[max off_y 0..min (off_y + src_h) dst_h - 1]"
  let ?ks = "List.product ?ys ?xs"
  let ?idx = "\<lambda>(y, x). byte_offset (4 * dst_w) y x"
  let ?over = "\<lambda>(y, x). over_pixel (f = Argb8888) (pixel src (byte_offset src_stride (y - off_y) (x - off_x)))"
  let ?put = "\<lambda>(y, x). put_over (f = Argb8888) src (byte_offset src_stride (y - off_y) (x - off_x)) (byte_offset (4 * dst_w) y x)"
  have w: "wrap_i32 (off_x + src_w) = off_x + src_w" "wrap_i32 (off_y + src_h) = off_y + src_h"
    using size room by (auto simp: i32_def)
  have step: "\<exists>d'. ?put k d = Returned d' \<and>
      draws_at (?idx k) (?over k) d d'"
    if "k \<in> set ?ks" "length d = length dst" for k d
  proof -
    obtain y x where k: "k = (y, x)" by fastforce
    with that have y: "0 \<le> y" "y < dst_h" "0 \<le> y - off_y" "y - off_y < src_h"
      and x: "0 \<le> x" "x < dst_w" "0 \<le> x - off_x" "x - off_x < src_w" by auto
    have "int (byte_offset src_stride (y - off_y) (x - off_x) + 4) \<le> src_h * src_stride"
      "int (byte_offset (4 * dst_w) y x + 4) \<le> dst_h * (4 * dst_w)"
      using byte_offset_fits [OF y(3,4) x(3,4)] byte_offset_fits [OF y(1,2) x(1,2)] size by auto
    then have "byte_offset src_stride (y - off_y) (x - off_x) + 4 \<le> length src" "byte_offset (4 * dst_w) y x + 4 \<le> length d" using src dst that(2) by linarith+
    moreover have "byte_offset src_stride (y - off_y) (x - off_x) + 4 < 2 ^ 64" "byte_offset (4 * dst_w) y x + 4 < 2 ^ 64"
      using offset_bound(2) [of "y - off_y" src_stride "x - off_x"] offset_bound(2) [of y "4 * dst_w" x] x y size
      by (simp_all add: byte_offset_def i32_def)
    ultimately show ?thesis using put_over_draws [of "byte_offset src_stride (y - off_y) (x - off_x)" src "byte_offset (4 * dst_w) y x" d "f = Argb8888"] k by simp
  qed
  have apart: "apart (?idx k) (?idx k')"
    if "k \<in> set ?ks" "k' \<in> set ?ks" "k \<noteq> k'" for k k'
  proof -
    obtain y x y' x' where "k = (y, x)" "k' = (y', x')" by fastforce
    with that show ?thesis by (auto simp: byte_offset_def intro!: image_offset_apart)
  qed
  have distinct: "distinct ?ks" by (simp add: distinct_product)
  have run: "blit_over dst_w dst_h (4 * dst_w) off_x off_y src src_w src_h src_stride f dst
      = ofold ?put ?ks dst"
  proof (cases "min (off_x + src_w) dst_w \<le> max off_x 0 \<or> min (off_y + src_h) dst_h \<le> max off_y 0")
    case True
    then have "?ks = []" by (auto simp: product_concat_map)
    with True w size show ?thesis by (simp add: blit_over_def Let_def)
  next
    case False
    let ?code = "\<lambda>y x. put_over (f = Argb8888) src
      (wrap_usize (as_usize (wrap_i32 (y - off_y)) * as_usize src_stride + as_usize (wrap_i32 (x - off_x)) * 4))
      (wrap_usize (as_usize y * as_usize (4 * dst_w) + as_usize x * 4))"
    have "?code y x = ?put (y, x)" if "(y, x) \<in> set ?ks" for y x
    proof -
      from that have "0 \<le> y" "y < dst_h" "0 \<le> y - off_y" "y - off_y < src_h"
        "0 \<le> x" "x < dst_w" "0 \<le> x - off_x" "x - off_x < src_w" by auto
      then show ?thesis using size byte_offset_eq [of "y - off_y" src_stride "x - off_x"] byte_offset_eq [of y "4 * dst_w" x]
        by (simp add: i32_def)
    qed
    then have "ofold (\<lambda>(y, x). ?code y x) ?ks dst = ofold ?put ?ks dst"
      by (intro ofold_cong) auto
    with False w size show ?thesis by (simp only: blit_over_def Let_def ofold_nested if_False) simp
  qed
  have "\<exists>d'. ofold ?put ?ks dst = Returned d' \<and> length d' = length dst
      \<and> (\<forall>k \<in> set ?ks. pixel d' (?idx k) = ?over k (pixel dst (?idx k)))
      \<and> (\<forall>m. (\<forall>k \<in> set ?ks. apart m (?idx k)) \<longrightarrow> pixel d' m = pixel dst m)"
    by (rule ofold_draws, rule step, assumption, assumption, rule distinct, rule apart, assumption, assumption,
        assumption, rule refl)
  then obtain dst' where d: "ofold ?put ?ks dst = Returned dst'" "length dst' = length dst"
      "\<forall>k \<in> set ?ks. pixel dst' (?idx k) = ?over k (pixel dst (?idx k))"
      "\<forall>m. (\<forall>k \<in> set ?ks. apart m (?idx k)) \<longrightarrow> pixel dst' m = pixel dst m"
    by blast
  have "pixel dst' (byte_offset (4 * dst_w) y x) =
      (if off_x \<le> x \<and> x < off_x + src_w \<and> off_y \<le> y \<and> y < off_y + src_h
       then over_pixel (f = Argb8888) (pixel src (byte_offset src_stride (y - off_y) (x - off_x)))
              (pixel dst (byte_offset (4 * dst_w) y x))
       else pixel dst (byte_offset (4 * dst_w) y x))"
    if "0 \<le> y" "y < dst_h" "0 \<le> x" "x < dst_w" for y x
  proof (cases "(y, x) \<in> set ?ks")
    case True
    with d(3) that show ?thesis by auto
  next
    case False
    have "apart (byte_offset (4 * dst_w) y x) (case k of (y, x) \<Rightarrow> byte_offset (4 * dst_w) y x)"
      if "k \<in> set ?ks" for k
      using that False \<open>0 \<le> y\<close> \<open>0 \<le> x\<close> \<open>x < dst_w\<close>
      by (auto simp: byte_offset_def intro!: image_offset_apart)
    with d(4) False that show ?thesis by auto
  qed
  with run d(1,2) show ?thesis by auto
qed

section \<open>Screenshots\<close>

fun swizzle :: "bytes \<Rightarrow> bytes" where
  "swizzle (b # g # r # a # rest) = r # g # b # a # swizzle rest"
| "swizzle _ = []"

lemma swizzle_append: "4 dvd length xs \<Longrightarrow> swizzle (xs @ ys) = swizzle xs @ swizzle ys"
proof (induction xs rule: swizzle.induct)
  case (1 b g r a rest)
  then have "4 dvd length rest" by (simp add: dvd_def) presburger
  with 1 show ?case by simp
qed (simp_all add: dvd_def, presburger+)

lemma swizzle_index:
  assumes "k + 4 * n \<le> length xs"
  shows "concat (map (\<lambda>x. [xs ! (k + x * 4 + 2), xs ! (k + x * 4 + 1), xs ! (k + x * 4), xs ! (k + x * 4 + 3)]) [0..<n])
    = swizzle (take (4 * n) (drop k xs))"
  using assms
proof (induction n)
  case (Suc n)
  let ?t = "take 4 (drop (k + 4 * n) xs)"
  have "?t = [xs ! (k + n * 4), xs ! (k + n * 4 + 1), xs ! (k + n * 4 + 2), xs ! (k + n * 4 + 3)]"
    using Suc.prems by (intro nth_equalityI) (auto simp: less_Suc_eq numeral_eq_Suc algebra_simps)
  moreover have "take (4 * Suc n) (drop k xs) = take (4 * n) (drop k xs) @ ?t"
    using take_add [of "4 * n" 4 "drop k xs"] by (simp add: add.commute)
  moreover have "length (take (4 * n) (drop k xs)) = 4 * n" using Suc.prems by simp
  ultimately show ?case using Suc by (simp add: swizzle_append)
qed simp

lemma png_row_swizzle:
  "k + 4 * w \<le> length pixels \<Longrightarrow> png_row True pixels k w = Some (swizzle (take (4 * w) (drop k pixels)))"
  by (auto simp: png_row_def swizzle_index [symmetric] Let_def)

lemma png_rows_swizzle:
  "(k + n) * (4 * w) \<le> length pixels \<Longrightarrow>
    png_rows True pixels (4 * w) w [k..<k + n] = Some (swizzle (take (n * (4 * w)) (drop (k * (4 * w)) pixels)))"
proof (induction n arbitrary: k)
  case (Suc n)
  have a: "k * (4 * w) + 4 * w \<le> length pixels" using Suc.prems by (simp add: algebra_simps)
  have b: "png_rows True pixels (4 * w) w [Suc k..<Suc k + n]
      = Some (swizzle (take (n * (4 * w)) (drop (Suc k * (4 * w)) pixels)))"
    using Suc.IH [of "Suc k"] Suc.prems by simp
  have c: "take (Suc n * (4 * w)) (drop (k * (4 * w)) pixels)
      = take (4 * w) (drop (k * (4 * w)) pixels) @ take (n * (4 * w)) (drop (Suc k * (4 * w)) pixels)"
    using take_add [of "4 * w" "n * (4 * w)" "drop (k * (4 * w)) pixels"] by (simp add: add.commute)
  have d: "[k..<k + Suc n] = k # [Suc k..<Suc k + n]" by (simp add: upt_conv_Cons)
  have e: "4 dvd length (take (4 * w) (drop (k * (4 * w)) pixels))" using a by simp
  show ?case unfolding d c swizzle_append [OF e] using png_row_swizzle [OF a] b by simp
qed simp

lemma encode_png_swizzle:
  assumes "0 \<le> w" "0 \<le> h" "length pixels = nat (h * (4 * w))"
  shows "encode_png png pixels w h (4 * w) Argb8888 = png True (nat w) (nat h) (swizzle pixels)"
proof -
  have len: "length pixels = nat h * (4 * nat w)" using assms by (simp add: nat_mult_distrib)
  with png_rows_swizzle [of 0 "nat h" "nat w" pixels]
  have "png_rows True pixels (4 * nat w) (nat w) [0..<nat h] = Some (swizzle pixels)" by simp
  moreover have "nat (4 * w) = 4 * nat w" using assms by (simp add: nat_mult_distrib)
  ultimately show ?thesis using assms by (simp add: encode_png_def)
qed

lemma sint_small: "(w :: u32) \<le> 16384 \<Longrightarrow> sint w = uint w \<and> uint w \<le> 16384"
proof -
  assume w: "w \<le> 16384"
  then have "uint w \<le> uint (16384 :: u32)" by (simp only: word_le_def)
  then have "uint w \<le> 16384" by simp
  moreover have "signed_take_bit 31 (uint w) = uint w"
    using \<open>uint w \<le> 16384\<close> by (intro signed_take_bit_int_eq_self order_trans [OF _ uint_ge_0 [of w]]) simp_all
  ultimately show ?thesis by (simp add: sint_uint)
qed

lemma composite_into_buf_safe:
  assumes "ranked st rank" "\<And>s sd. st s = Some sd \<Longrightarrow> surface_ok sd" "rank surf < depth"
    "fst fallback \<le> 16384" "snd fallback \<le> 16384"
    "\<And>sd. st surf = Some sd \<Longrightarrow> fst (surface_dims sd fallback) \<le> 16384 \<and> snd (surface_dims sd fallback) \<le> 16384"
  shows "\<exists>r. composite_into_buf depth st surf fallback = Returned r
    \<and> (\<forall>w h stride b. r = Some ((w, h, stride), b) \<longrightarrow>
          0 \<le> w \<and> w \<le> 16384 \<and> 0 \<le> h \<and> h \<le> 16384 \<and> stride = 4 * w \<and> length b = nat (h * (4 * w)))"
proof (cases "st surf")
  case (Some sd)
  obtain sw sh where dims: "surface_dims sd fallback = (sw, sh)" by fastforce
  obtain fw fh where fb: "fallback = (fw, fh)" by fastforce
  obtain w h where wh: "(if sw < 4 \<or> sh < 4 then fallback else (sw, sh)) = (w, h)" by fastforce
  have le: "w \<le> 16384" "h \<le> 16384" using assms(4,5) assms(6) [OF Some] dims wh by (auto split: if_splits)
  note s = sint_small [OF le(1)] sint_small [OF le(2)]
  have r: "0 \<le> uint w" "uint w \<le> 16384" "0 \<le> uint h" "uint h \<le> 16384" using s by simp_all
  have m: "uint h * (uint w * 4) \<le> 16384 * 65536" using r by (intro mult_mono) auto
  have n: "wrap_usize (as_usize (uint h) * as_usize (uint w * 4)) = nat (uint h * (4 * uint w))"
  proof -
    have "as_usize (uint h) = nat (uint h)" "as_usize (uint w * 4) = nat (uint w * 4)" using r by simp_all
    then have "as_usize (uint h) * as_usize (uint w * 4) = nat (uint h * (uint w * 4))"
      using r by (simp only: nat_mult_distrib)
    moreover have "nat (uint h * (uint w * 4)) < 2 ^ 64" using m by simp
    ultimately show ?thesis by (simp only: wrap_usize_id mult.commute [of "uint w"])
  qed
  have z: "zeroed (nat (uint h * (4 * uint w))) = Returned (replicate (nat (uint h * (4 * uint w))) 0)"
    using m by (simp add: zeroed_def nat_le_iff le_nat_iff mult.commute)
  obtain b where b: "composite_into depth st (uint w) (uint h) (4 * uint w) surf 0 0
      (replicate (nat (uint h * (4 * uint w))) 0) = Returned b" "length b = nat (uint h * (4 * uint w))"
    using composite_into_safe [OF assms(1) _ assms(3), where off_x = 0 and off_y = 0 and w = "uint w" and h = "uint h"
        and stride = "4 * uint w" and dst = "replicate (nat (uint h * (4 * uint w))) 0"] assms(2) r
    by (auto simp: i32_def)
  have "wrap_i32 (uint w * 4) = uint w * 4" by (intro wrap_i32_id) (use r in linarith)+
  then have "composite_into_buf depth st surf fallback =
      Returned (if sw = 0 \<or> sh = 0 then None else Some ((uint w, uint h, 4 * uint w), b))"
    using Some dims wh s n z b by (simp add: composite_into_buf_def Let_def mult.commute)
  then show ?thesis using b r by (auto split: if_splits)
qed (simp add: composite_into_buf_def)

section \<open>Clients that do not keep to the protocol\<close>

lemma composite_self_child:
  assumes "st f = Some sd" "children sd = []" "surface_ok sd" "i32 off_x" "i32 off_y" "i32 w" "i32 h" "0 \<le> stride" "i32 stride"
  shows "composite_into depth (get_subsurface f f st) w h stride f off_x off_y dst = StackOverflow"
  using assms(4,5)
proof (induction depth arbitrary: off_x off_y dst)
  case (Suc depth)
  let ?sd = "sd\<lparr>children := [\<lparr>ch_surface = f, ch_x = 0, ch_y = 0\<rparr>]\<rparr>"
  have st: "get_subsurface f f st f = Some ?sd" using assms(1,2) by (simp add: get_subsurface_def on_surface_def)
  have "surface_ok ?sd" using assms(3) by (simp add: surface_ok_def cong: option.case_cong)
  then obtain d where "draw_surface ?sd w h stride off_x off_y dst = Returned d"
    using draw_surface_safe Suc.prems assms(6-9) by blast
  moreover have "wrap_i32 off_x = off_x" "wrap_i32 off_y = off_y" using Suc.prems by (simp_all add: i32_def)
  ultimately show ?case using st Suc by simp
qed simp

lemma ofold_skip: "(\<And>x. x \<in> set xs \<Longrightarrow> f x s = Returned s) \<Longrightarrow> ofold f xs s = Returned s"
  by (induction xs) simp_all

lemma usize_minus_one:
  assumes "0 \<le> x" "x < w" "w < 2 ^ 31"
  shows "wrap_usize (as_usize (- 1) * as_usize (4 * w) + as_usize x * 4) + 4 = 2 ^ 64 - nat (4 * (w - 1 - x))"
proof -
  have "int (wrap_usize (as_usize (- 1) * as_usize (4 * w) + as_usize x * 4))
      = ((2 ^ 64 - 1) * (4 * w) + x * 4) mod 2 ^ 64"
    using assms by (simp add: wrap_usize_def as_usize_def zmod_int)
  also have "(2 ^ 64 - 1) * (4 * w) + x * 4 = (2 ^ 64 - 4 * w + x * 4) + (4 * w - 1) * 2 ^ 64"
    by (simp add: algebra_simps)
  also have "\<dots> mod 2 ^ 64 = 2 ^ 64 - 4 * w + x * 4" using assms by (simp only: mod_mult_self1) simp
  finally show ?thesis using assms by (simp add: nat_diff_distrib nat_mult_distrib of_nat_diff zless_nat_eq_int_zless)
qed

lemma put_over_negative_row:
  assumes "0 \<le> x" "x < w" "4 * w \<le> int (length dst)" "length src < 2 ^ 63" "w < 2 ^ 31"
  shows "put_over a src (wrap_usize (as_usize (- 1) * as_usize (4 * w) + as_usize x * 4)) (wrap_usize (as_usize x * 4)) dst
    = (if x = w - 1 then Panicked else Returned dst)"
proof -
  let ?si = "wrap_usize (as_usize (- 1) * as_usize (4 * w) + as_usize x * 4)"
  have si: "?si + 4 = 2 ^ 64 - nat (4 * (w - 1 - x))" by (rule usize_minus_one) (use assms in auto)
  have di: "wrap_usize (as_usize x * 4) = nat x * 4" "wrap_usize (nat x * 4 + 4) = nat x * 4 + 4"
    using assms by simp_all
  have dl: "nat x * 4 + 4 \<le> length dst" using assms by linarith
  show ?thesis
  proof (cases "x = w - 1")
    case True
    then have e: "?si + 4 = 2 ^ 64" using si by simp
    then have "wrap_usize (?si + 4) = 0" by (simp add: wrap_usize_def)
    moreover have "length src < ?si + 4" using e assms(4) by simp
    ultimately show ?thesis using True di dl unfolding put_over_def by simp
  next
    case False
    then have "0 < nat (4 * (w - 1 - x))" "nat (4 * (w - 1 - x)) < 2 ^ 34" using assms by auto
    then have "?si + 4 < 2 ^ 64" "length src < ?si + 4" using si assms(4) by simp_all
    then have "wrap_usize (?si + 4) > length src" by simp
    with False show ?thesis unfolding put_over_def by simp
  qed
qed

lemma blit_viewport_negative_row:
  assumes "0 < w" "w * w < 2 ^ 31" "0 < h" "w \<le> dst_w" "0 < dst_h" "4 * w \<le> int (length dst)" "length src < 2 ^ 63"
  shows "blit_viewport dst_w dst_h dst_stride 0 0 src (4 * w) f 0 (- 1) w h w h dst = Panicked"
proof -
  have ww: "w \<le> w * w" using assms(1) by simp
  have w31: "w < 2 ^ 31" using ww assms(2) by linarith
  let ?put = "\<lambda>x. put_over (f = Argb8888) src (wrap_usize (as_usize (- 1) * as_usize (4 * w) + as_usize x * 4))
    (wrap_usize (as_usize x * 4))"
  have x: "wrap_i32 (x * w) sdiv w = x" "wrap_i32 x = x" if "0 \<le> x" "x < w" for x
  proof -
    have "x * w \<le> w * w" "0 \<le> x * w" using that assms(1) by (auto intro!: mult_right_mono)
    then have "wrap_i32 (x * w) = x * w" using assms(2) by (intro wrap_i32_id) simp_all
    then show "wrap_i32 (x * w) sdiv w = x"
      using that assms(1) by (cases "x = 0") (simp_all add: signed_divide_int_def sgn_mult)
    show "wrap_i32 x = x" using that w31 by simp
  qed
  have row: "ofold (\<lambda>x d. if wrap_i32 (0 + x) < 0 \<or> wrap_i32 (0 + x) \<ge> dst_w then Returned d
      else put_over (f = Argb8888) src
        (wrap_usize (as_usize (- 1) * as_usize (4 * w) + as_usize (wrap_i32 (0 + wrap_i32 (x * w) sdiv w)) * 4))
        (wrap_usize (as_usize 0 * as_usize dst_stride + as_usize (wrap_i32 (0 + x)) * 4)) d) [0..w - 1] dst
      = ofold ?put [0..w - 1] dst"
    by (rule ofold_cong) (use x assms(4) in \<open>auto simp: fun_eq_iff as_usize_def\<close>)
  have "ofold ?put [0..w - 1] dst = ofold ?put ([0..w - 2] @ [w - 1]) dst"
    using assms(1) upto_rec2 [of 0 "w - 1"] by simp
  also have "\<dots> = Panicked"
    using ofold_skip [of "[0..w - 2]" ?put dst] put_over_negative_row [OF _ _ assms(6,7) w31] assms(1)
    by (simp add: ofold_append)
  finally have p: "ofold ?put [0..w - 1] dst = Panicked" .
  have y: "wrap_i32 (- 1 + wrap_i32 (0 * h) sdiv h) = - 1" "wrap_i32 (0 + 0) = 0"
    by (simp_all add: signed_divide_int_def)
  have c: "\<not> (w \<le> 0 \<or> h \<le> 0 \<or> w \<le> 0 \<or> h \<le> 0)" "\<not> ((0 :: int) < 0 \<or> 0 \<ge> dst_h)" using assms by auto
  have u: "[0..h - 1] = 0 # [0 + 1..h - 1]" by (rule upto_rec1) (use assms(3) in simp)
  show ?thesis
    by (simp only: blit_viewport_def Let_def if_not_P [OF c(1)] u ofold.simps y if_not_P [OF c(2)] row p obind.simps)
qed

lemma f64_as_i32_of_int [simp]: "- (2 ^ 31) \<le> n \<Longrightarrow> n < 2 ^ 31 \<Longrightarrow> f64_as_i32 (of_int n) = n"
  by (simp add: f64_as_i32_def)

lemma sint_word_small: "0 \<le> n \<Longrightarrow> n \<le> 16384 \<Longrightarrow> sint (word_of_int n :: u32) = n"
  by (simp add: sint_sbintrunc' signed_take_bit_int_eq_self)

lemma image_size_usize:
  assumes "0 \<le> w" "w \<le> 16384" "0 \<le> h" "h \<le> 16384"
  shows "wrap_i32 (w * 4) = 4 * w" "as_usize h * as_usize (4 * w) = nat (h * (4 * w))"
    "wrap_usize (nat (h * (4 * w))) = nat (h * (4 * w))"
    "zeroed (nat (h * (4 * w))) = Returned (replicate (nat (h * (4 * w))) 0)"
    "nat (h * (4 * w)) < 2 ^ 63"
proof -
  have m: "h * (4 * w) \<le> 16384 * 65536" using assms by (intro mult_mono) auto
  show "wrap_i32 (w * 4) = 4 * w" using assms by simp
  show "as_usize h * as_usize (4 * w) = nat (h * (4 * w))" using assms by (simp add: nat_mult_distrib)
  show "nat (h * (4 * w)) < 2 ^ 63" using m by simp
  then show "wrap_usize (nat (h * (4 * w))) = nat (h * (4 * w))"
    "zeroed (nat (h * (4 * w))) = Returned (replicate (nat (h * (4 * w))) 0)"
    by (simp_all add: wrap_usize_def zeroed_def)
qed

section \<open>Properties\<close>

definition sample_surfaces :: surfaces where
  "sample_surfaces =
     [10 \<mapsto> surface_default\<lparr>current_buffer := Some (SinglePixel 1 2 3 255),
                            children := [\<lparr>ch_surface = 11, ch_x = 4, ch_y = - 2\<rparr>]\<rparr>,
      11 \<mapsto> surface_default]"


lemma sample_focused_size: "ses_width sample_focused = 640" "ses_height sample_focused = 480"
  by (simp_all add: sample_session_simps)

lemma sample_surfaces_ok: "sample_surfaces f = Some sd \<Longrightarrow> surface_ok sd"
  by (auto simp: sample_surfaces_def surface_ok_def surface_default_def viewport_default_def view_rect_def i32_def
      split: if_splits)





definition sample_shm :: shm_buffer where
  "sample_shm = \<lparr>sb_pool = \<lparr>pool_mmap = Some (replicate 64 7), pool_size = 64\<rparr>, sb_offset = 0, sb_width = 4,
     sb_height = 4, sb_stride = 16, sb_format = Argb8888\<rparr>"




end
