(* ===== verification/Registry_State.thy ===== *)
theory Registry_State
  imports Messages
begin

text \<open>
  The daemon's session table, \<open>Inner\<close> of \<open>waymux-daemon/src/registry.rs\<close>, with the
  part of the operating system its operations change: which runtime directories, tmpfs
  mounts and control groups exist, which signals were sent, which kill channels have
  fired. Validation of names and sizes, paths, and the event broadcast are here; the
  operations are in \<open>Registry\<close>, their interleaving in \<open>Registry_Steps\<close>.

  The two objects that outlive a table entry because tasks hold a reference to them, the
  log ring and the control-connection slot, are cells of a store addressed by number;
  an entry holds the address. A kill channel is a number too: it has fired when its
  sender was used or dropped.
\<close>

section \<open>Paths\<close>

text \<open>\<open>Path::join\<close>, \<open>Path::parent\<close> and \<open>Path::file_name\<close> on paths whose last component is a
  plain name.\<close>

definition path_join :: "string \<Rightarrow> string \<Rightarrow> string" where
  "path_join a b =
     (if b \<noteq> [] \<and> hd b = CHR ''/'' then b
      else if a = [] \<or> last a = CHR ''/'' then a @ b
      else a @ ''/'' @ b)"

definition path_file_name :: "string \<Rightarrow> string" where
  "path_file_name p = rev (takeWhile (\<lambda>c. c \<noteq> CHR ''/'') (rev p))"

definition path_parent :: "string \<Rightarrow> string" where
  "path_parent p =
     (let front = rev (dropWhile (\<lambda>c. c \<noteq> CHR ''/'') (rev p))
      in if length front \<le> 1 then front else butlast front)"

section \<open>Table entries\<close>

record session_meta =
  sm_name :: string
  sm_pid :: int
  sm_width :: u32
  sm_height :: u32
  sm_scale :: u32
  sm_created_at :: u64
  sm_inner_socket :: string
  sm_control_socket :: string
  sm_attach_socket :: string
  sm_attached :: bool

record session_entry =
  se_meta :: session_meta
  se_kill :: "nat option"
  se_child_pids :: "u32 list"
  se_compositor_pid :: "u32 option"
  se_cgroup :: "string option"
  se_tmpfs :: "string option"
  se_log :: nat
  se_conn :: nat

text \<open>A supervisor task: the name it removes, its child, its end of the kill channel, and
  the socket path it cleans up.\<close>

record supervisor =
  sup_name :: string
  sup_pid :: int
  sup_kill :: nat
  sup_socket :: string

datatype os_effect =
    Sigterm int
  | KillChild int
  | Mount string
  | Unmount string
  | CgroupCreate string
  | CgroupKill string
  | CgroupRemove string
  | CgroupAdd string int
  | CgroupMemMax string u32
  | CgroupCpuMax string u32
  | FdLimit u32
  | CtlWrite nat bytes
  | RemoveFile string
  | RemoveDirAll string
  | SpawnProcess string "string list" env

type_synonym log_line = "string \<times> string"

text \<open>A log drainer: the ring it appends to, the session and stream it reads. A waiter: the
  session and process id of a spawned child.\<close>

type_synonym drainer = "nat \<times> string \<times> string"
type_synonym waiter = "string \<times> int"

record registry =
  sessions :: "(string \<times> session_entry) list"
  tags :: "((string \<times> u32) \<times> string list) list"
  state_dir :: string
  session_bin :: string
  events :: "event_body list"
  supervisor_handles :: "nat list"
  supervisors :: "supervisor list"
  drainers :: "drainer list"
  waiters :: "waiter list"
  cg_tasks :: "string list"
  logs :: "nat \<Rightarrow> log_line list"
  conns :: "nat \<Rightarrow> nat option"
  next_id :: nat
  kill_fired :: "nat list"
  mounts :: "string list"
  cgroups :: "string list"
  effects :: "os_effect list"

definition EVENT_CHANNEL_CAPACITY :: nat where "EVENT_CHANNEL_CAPACITY = 1024"
definition LOG_HISTORY_CAPACITY :: nat where "LOG_HISTORY_CAPACITY = 1024"
definition MAX_ARGV_LEN :: nat where "MAX_ARGV_LEN = 1024"
definition MAX_ARGV_ELEM_BYTES :: nat where "MAX_ARGV_ELEM_BYTES = 256 * 1024"
definition MAX_OUTPUT_DIMENSION :: u32 where "MAX_OUTPUT_DIMENSION = 16384"

definition registry_new :: "string \<Rightarrow> string \<Rightarrow> registry" where
  "registry_new dir bin =
     \<lparr>sessions = [], tags = [], state_dir = dir, session_bin = bin, events = [],
      supervisor_handles = [], supervisors = [], drainers = [], waiters = [],
      cg_tasks = [], logs = (\<lambda>_. []), conns = (\<lambda>_. None),
      next_id = 0, kill_fired = [], mounts = [], cgroups = [], effects = []\<rparr>"

abbreviation find_session :: "string \<Rightarrow> registry \<Rightarrow> session_entry option" where
  "find_session n st \<equiv> map_of (sessions st) n"

text \<open>\<open>broadcast\<close>: the channel's history; \<open>send\<close> fails only without receivers, which is ignored.\<close>

definition broadcast :: "event_body \<Rightarrow> registry \<Rightarrow> registry" where
  "broadcast b st = st\<lparr>events := events st @ [b]\<rparr>"

definition effect :: "os_effect \<Rightarrow> registry \<Rightarrow> registry" where
  "effect e st = st\<lparr>effects := effects st @ [e]\<rparr>"

definition update_session :: "string \<Rightarrow> (session_entry \<Rightarrow> session_entry) \<Rightarrow> registry \<Rightarrow> registry" where
  "update_session n f st = st\<lparr>sessions := alist_update n f (sessions st)\<rparr>"

definition update_meta :: "string \<Rightarrow> (session_meta \<Rightarrow> session_meta) \<Rightarrow> registry \<Rightarrow> registry" where
  "update_meta n f = update_session n (\<lambda>e. e\<lparr>se_meta := f (se_meta e)\<rparr>)"

text \<open>\<open>tags.retain(|(s, _), _| s != name)\<close>\<close>

definition retain_tags :: "string \<Rightarrow> registry \<Rightarrow> registry" where
  "retain_tags n st = st\<lparr>tags := filter (\<lambda>t. fst (fst t) \<noteq> n) (tags st)\<rparr>"

section \<open>Errors\<close>

datatype create_error = CreateAlreadyExists | CreateInvalidName | CreateInvalidSize
datatype destroy_error = DestroyNotFound
datatype spawn_error = SpawnSessionNotFound | SpawnInvalidArgv | SpawnArgvNotAbsolute | SpawnArgvTooLarge
datatype session_control_error = SessionControlNotFound | SessionControlFailed string
datatype resize_error = ResizeRejectedErr string
datatype tag_window_error = TagWindowNotFound
datatype screenshot_error = ScreenshotFailed string

text \<open>An \<open>anyhow::Error\<close>: the typed error it was made from, or only text.\<close>

datatype anyhow =
    AnyCreate create_error
  | AnyDestroy destroy_error
  | AnySpawn spawn_error
  | AnySessionControl session_control_error
  | AnyResize resize_error
  | AnyTagWindow tag_window_error
  | AnyScreenshot screenshot_error
  | AnyText string

fun create_error_str :: "create_error \<Rightarrow> string" where
  "create_error_str CreateAlreadyExists = ''session already exists''"
| "create_error_str CreateInvalidName = ''invalid session name''"
| "create_error_str CreateInvalidSize =
     ''invalid size: width and height must each be between 1 and '' @ dec_str (unat MAX_OUTPUT_DIMENSION)
     @ '' pixels''"

fun destroy_error_str :: "destroy_error \<Rightarrow> string" where
  "destroy_error_str DestroyNotFound = ''session not found''"

fun spawn_error_str :: "spawn_error \<Rightarrow> string" where
  "spawn_error_str SpawnSessionNotFound = ''session not found''"
| "spawn_error_str SpawnInvalidArgv = ''argv is empty''"
| "spawn_error_str SpawnArgvNotAbsolute =
     ''argv[0] must be an absolute path: the daemon clears the environment and does not search PATH, so pass a full path (for example /usr/bin/foot, or $(command -v foot))''"
| "spawn_error_str SpawnArgvTooLarge =
     ''argv too large: at most '' @ dec_str MAX_ARGV_LEN @ '' elements, each at most ''
     @ dec_str MAX_ARGV_ELEM_BYTES @ '' bytes''"

fun session_control_error_str :: "session_control_error \<Rightarrow> string" where
  "session_control_error_str SessionControlNotFound = ''session not found''"
| "session_control_error_str (SessionControlFailed m) = ''session control call failed: '' @ m"

fun resize_error_str :: "resize_error \<Rightarrow> string" where
  "resize_error_str (ResizeRejectedErr m) = ''resize rejected: '' @ m"

fun tag_window_error_str :: "tag_window_error \<Rightarrow> string" where
  "tag_window_error_str TagWindowNotFound = ''window not found in session''"

fun screenshot_error_str :: "screenshot_error \<Rightarrow> string" where
  "screenshot_error_str (ScreenshotFailed m) = ''screenshot failed: '' @ m"

fun anyhow_str :: "anyhow \<Rightarrow> string" where
  "anyhow_str (AnyCreate e) = create_error_str e"
| "anyhow_str (AnyDestroy e) = destroy_error_str e"
| "anyhow_str (AnySpawn e) = spawn_error_str e"
| "anyhow_str (AnySessionControl e) = session_control_error_str e"
| "anyhow_str (AnyResize e) = resize_error_str e"
| "anyhow_str (AnyTagWindow e) = tag_window_error_str e"
| "anyhow_str (AnyScreenshot e) = screenshot_error_str e"
| "anyhow_str (AnyText m) = m"

section \<open>Validation\<close>

definition is_ascii_alphanumeric :: "char \<Rightarrow> bool" where
  "is_ascii_alphanumeric c \<longleftrightarrow>
     (let n = (of_char c :: nat)
      in 48 \<le> n \<and> n \<le> 57 \<or> 65 \<le> n \<and> n \<le> 90 \<or> 97 \<le> n \<and> n \<le> 122)"

definition validate_session_name :: "string \<Rightarrow> (unit, create_error) result" where
  "validate_session_name n =
     (if n = [] \<or> length n > 64 then Err CreateInvalidName
      else if \<not> list_all (\<lambda>c. is_ascii_alphanumeric c \<or> c = CHR ''-'' \<or> c = CHR ''_'' \<or> c = CHR ''.'') n
        then Err CreateInvalidName
      else if hd n = CHR ''.'' then Err CreateInvalidName
      else Ok ())"

definition validate_output_size :: "u32 \<Rightarrow> u32 \<Rightarrow> (unit, create_error) result" where
  "validate_output_size width height =
     (if width = 0 \<or> height = 0 \<or> width > MAX_OUTPUT_DIMENSION \<or> height > MAX_OUTPUT_DIMENSION
      then Err CreateInvalidSize else Ok ())"

section \<open>Exit statuses\<close>

datatype exit_status = ExitCode int | ExitSignal int | ExitOther

fun exit_code_of :: "exit_status \<Rightarrow> int" where
  "exit_code_of (ExitCode c) = c"
| "exit_code_of (ExitSignal sig) = 128 + sig"
| "exit_code_of ExitOther = -1"

text \<open>\<open>child.wait()\<close> gives a status or an error.\<close>

definition wait_code :: "exit_status option \<Rightarrow> int" where
  "wait_code s = (case s of Some x \<Rightarrow> exit_code_of x | None \<Rightarrow> -1)"

text \<open>\<open>shutdown_child\<close>: SIGTERM, five seconds, then SIGKILL and two more. Each wait ends with the
  child's answer or with the timeout (\<open>None\<close>); the signals sent come with the code.\<close>

definition shutdown_child ::
    "int option \<Rightarrow> exit_status option option \<Rightarrow> exit_status option option \<Rightarrow> os_effect list \<times> int" where
  "shutdown_child child_id first second =
     (let term = (case child_id of Some p \<Rightarrow> [Sigterm p] | None \<Rightarrow> [])
      in case first of
           Some (Some s) \<Rightarrow> (term, exit_code_of s)
         | Some None \<Rightarrow> (term, -1)
         | None \<Rightarrow>
             (term @ (case child_id of Some p \<Rightarrow> [KillChild p] | None \<Rightarrow> []),
              (case second of Some (Some s) \<Rightarrow> exit_code_of s | _ \<Rightarrow> -1)))"

section \<open>Lemmas: names and paths\<close>

lemma alnum_not_slash: "is_ascii_alphanumeric c \<Longrightarrow> c \<noteq> CHR ''/''"
  by (auto simp: is_ascii_alphanumeric_def)

lemma validate_session_name_ok:
  assumes "validate_session_name n = Ok ()"
  shows "n \<noteq> []" "length n \<le> 64" "CHR ''/'' \<notin> set n" "hd n \<noteq> CHR ''.''"
  using assms
  by (auto simp: validate_session_name_def list_all_iff dest!: alnum_not_slash split: if_splits)

lemma validate_output_size_ok:
  "validate_output_size w h = Ok () \<longleftrightarrow>
    0 < w \<and> w \<le> MAX_OUTPUT_DIMENSION \<and> 0 < h \<and> h \<le> MAX_OUTPUT_DIMENSION"
  by (auto simp: validate_output_size_def word_gt_0 not_less)

lemma path_join_plain:
  assumes "a \<noteq> []" "last a \<noteq> CHR ''/''" "CHR ''/'' \<notin> set b"
  shows "path_join a b = a @ ''/'' @ b"
  using assms by (cases b) (auto simp: path_join_def)

lemma takeWhile_noslash:
  "CHR ''/'' \<notin> set b \<Longrightarrow> takeWhile (\<lambda>c. c \<noteq> CHR ''/'') (rev b @ CHR ''/'' # r) = rev b"
  by (subst takeWhile_append2) auto

lemma dropWhile_noslash:
  "CHR ''/'' \<notin> set b \<Longrightarrow> dropWhile (\<lambda>c. c \<noteq> CHR ''/'') (rev b @ CHR ''/'' # r) = CHR ''/'' # r"
  by (subst dropWhile_append2) auto

lemma path_parent_join:
  assumes "a \<noteq> []" "last a \<noteq> CHR ''/''" "CHR ''/'' \<notin> set b"
  shows "path_parent (path_join a b) = a"
  using assms by (simp add: path_join_plain path_parent_def dropWhile_noslash)

lemma path_file_name_join:
  assumes "a \<noteq> []" "last a \<noteq> CHR ''/''" "CHR ''/'' \<notin> set b"
  shows "path_file_name (path_join a b) = b"
  using assms by (simp add: path_join_plain path_file_name_def takeWhile_noslash)

section \<open>Lemmas: frame rules\<close>

lemma broadcast_simps [simp]:
  "sessions (broadcast b st) = sessions st" "tags (broadcast b st) = tags st"
  "events (broadcast b st) = events st @ [b]" "state_dir (broadcast b st) = state_dir st"
  "supervisors (broadcast b st) = supervisors st" "kill_fired (broadcast b st) = kill_fired st"
  "mounts (broadcast b st) = mounts st" "cgroups (broadcast b st) = cgroups st"
  "logs (broadcast b st) = logs st" "conns (broadcast b st) = conns st"
  "next_id (broadcast b st) = next_id st" "effects (broadcast b st) = effects st"
  "drainers (broadcast b st) = drainers st" "waiters (broadcast b st) = waiters st"
  "cg_tasks (broadcast b st) = cg_tasks st" "session_bin (broadcast b st) = session_bin st"
  "supervisor_handles (broadcast b st) = supervisor_handles st"
  by (simp_all add: broadcast_def)

lemma effect_simps [simp]:
  "sessions (effect e st) = sessions st" "tags (effect e st) = tags st"
  "events (effect e st) = events st" "state_dir (effect e st) = state_dir st"
  "supervisors (effect e st) = supervisors st" "kill_fired (effect e st) = kill_fired st"
  "mounts (effect e st) = mounts st" "cgroups (effect e st) = cgroups st"
  "logs (effect e st) = logs st" "conns (effect e st) = conns st"
  "next_id (effect e st) = next_id st" "effects (effect e st) = effects st @ [e]"
  "drainers (effect e st) = drainers st" "waiters (effect e st) = waiters st"
  "cg_tasks (effect e st) = cg_tasks st" "session_bin (effect e st) = session_bin st"
  "supervisor_handles (effect e st) = supervisor_handles st"
  by (simp_all add: effect_def)

lemma update_session_simps [simp]:
  "sessions (update_session n f st) = alist_update n f (sessions st)"
  "tags (update_session n f st) = tags st"
  "events (update_session n f st) = events st" "state_dir (update_session n f st) = state_dir st"
  "supervisors (update_session n f st) = supervisors st"
  "kill_fired (update_session n f st) = kill_fired st"
  "mounts (update_session n f st) = mounts st" "cgroups (update_session n f st) = cgroups st"
  "logs (update_session n f st) = logs st" "conns (update_session n f st) = conns st"
  "next_id (update_session n f st) = next_id st" "effects (update_session n f st) = effects st"
  "drainers (update_session n f st) = drainers st" "waiters (update_session n f st) = waiters st"
  "cg_tasks (update_session n f st) = cg_tasks st" "session_bin (update_session n f st) = session_bin st"
  "supervisor_handles (update_session n f st) = supervisor_handles st"
  by (simp_all add: update_session_def)

lemma retain_tags_simps [simp]:
  "sessions (retain_tags n st) = sessions st"
  "tags (retain_tags n st) = filter (\<lambda>t. fst (fst t) \<noteq> n) (tags st)"
  "events (retain_tags n st) = events st" "state_dir (retain_tags n st) = state_dir st"
  "supervisors (retain_tags n st) = supervisors st"
  "kill_fired (retain_tags n st) = kill_fired st"
  "mounts (retain_tags n st) = mounts st" "cgroups (retain_tags n st) = cgroups st"
  "logs (retain_tags n st) = logs st" "conns (retain_tags n st) = conns st"
  "next_id (retain_tags n st) = next_id st" "effects (retain_tags n st) = effects st"
  "drainers (retain_tags n st) = drainers st" "waiters (retain_tags n st) = waiters st"
  "cg_tasks (retain_tags n st) = cg_tasks st" "session_bin (retain_tags n st) = session_bin st"
  "supervisor_handles (retain_tags n st) = supervisor_handles st"
  by (simp_all add: retain_tags_def)

end
