(* ===== verification/Registry.thy ===== *)
theory Registry
  imports Registry_State
begin

text \<open>
  The operations of \<open>Registry\<close> in \<open>waymux-daemon/src/registry.rs\<close> that change the
  session table: \<open>create\<close>, \<open>destroy\<close>, \<open>spawn_child\<close> and the tasks they start (the
  session supervisor, the child waiter, the log drainer), attach and detach. Each section
  the code runs under the table lock is one function; an operation with several
  sections is their composition, and \<open>Registry_Steps\<close> interleaves the sections. What the
  operating system answers (whether a mount or a bind succeeds, the pid, how a wait
  ends) is the argument \<open>io\<close>. The build is the default one, without metering.
\<close>

section \<open>Creating a session\<close>

record create_request =
  cr_name :: string
  cr_width :: u32
  cr_height :: u32
  cr_scale :: u32
  cr_env :: env
  cr_share_clipboard :: bool
  cr_share_audio :: bool
  cr_mem_cap_mb :: "u32 option"
  cr_cpu_cap_pct :: "u32 option"
  cr_disk_quota_mb :: "u32 option"
  cr_fd_limit :: "u32 option"
  cr_api_key_id :: "string option"

datatype spawn_outcome = Ready | ReadyFailed string | Exited "int option" | TimedOut

record create_io =
  io_mkdir :: bool
  io_mount :: bool
  io_exists :: "string \<Rightarrow> bool"
  io_bind_ready :: bool
  io_bind_events :: bool
  io_spawn :: "int option option"
  io_outcome :: spawn_outcome
  io_stderr :: string
  io_cgroup :: bool
  io_created_at :: u64

text \<open>What the unlocked part of \<open>create\<close> leaves for the insertion.\<close>

record prepared =
  pr_pid :: int
  pr_tmpfs :: "string option"
  pr_cgroup :: "string option"

definition session_dir :: "registry \<Rightarrow> string \<Rightarrow> string" where
  "session_dir st n = path_join (state_dir st) n"

definition session_sock :: "registry \<Rightarrow> string \<Rightarrow> string \<Rightarrow> string" where
  "session_sock st n f = path_join (session_dir st n) f"

text \<open>Validation and the first look at the table.\<close>

definition create_check :: "create_request \<Rightarrow> registry \<Rightarrow> (unit, anyhow) result" where
  "create_check req st =
     bind_result (map_err AnyCreate (validate_session_name (cr_name req)))
       (\<lambda>_. bind_result (map_err AnyCreate (validate_output_size (cr_width req) (cr_height req)))
         (\<lambda>_. if find_session (cr_name req) st \<noteq> None then Err (AnyCreate CreateAlreadyExists)
               else Ok ()))"

definition session_argv :: "registry \<Rightarrow> create_request \<Rightarrow> string list" where
  "session_argv st req =
     (let n = cr_name req
      in [''--name'', n, ''--width'', dec_str (unat (cr_width req)),
          ''--height'', dec_str (unat (cr_height req)), ''--scale'', dec_str (unat (cr_scale req)),
          ''--inner-socket'', session_sock st n ''wayland.sock'',
          ''--control-socket'', session_sock st n ''control.sock'',
          ''--attach-socket'', session_sock st n ''attach.sock'',
          ''--events-socket'', session_sock st n ''events.sock'',
          ''--ready-socket'', session_sock st n ''ready.sock'']
         @ (if cr_share_clipboard req then [''--share-clipboard''] else [])
         @ (if cr_share_audio req then [''--share-audio''] else []))"

definition set_env :: "string \<Rightarrow> string \<Rightarrow> env \<Rightarrow> env" where
  "set_env k v e = alist_insert k v e"

definition set_env_all :: "env \<Rightarrow> env \<Rightarrow> env" where
  "set_env_all kvs e = fold (\<lambda>(k, v). set_env k v) kvs e"

definition forward_env :: "env \<Rightarrow> string \<Rightarrow> env \<Rightarrow> env" where
  "forward_env denv k e = (case map_of denv k of Some v \<Rightarrow> set_env k v e | None \<Rightarrow> e)"

text \<open>The session process's environment, from the daemon's own \<open>denv\<close> and the caller's.\<close>

definition session_env :: "env \<Rightarrow> env \<Rightarrow> env" where
  "session_env denv uenv =
     (let e = [];
          e = set_env ''PATH'' (case map_of denv ''PATH'' of Some v \<Rightarrow> v | None \<Rightarrow> []) e;
          e = forward_env denv ''RUST_LOG'' e;
          e = forward_env denv ''RUST_BACKTRACE'' e;
          e = set_env_all (filter (\<lambda>(k, v). starts_with ''WAYMUX_'' k) denv) e
      in set_env_all uenv e)"

definition remove_stale :: "create_io \<Rightarrow> string \<Rightarrow> registry \<Rightarrow> registry" where
  "remove_stale io path st = (if io_exists io path then effect (RemoveFile path) st else st)"

definition mount_tmpfs :: "create_io \<Rightarrow> create_request \<Rightarrow> registry \<Rightarrow> string option \<times> registry" where
  "mount_tmpfs io req st =
     (case cr_disk_quota_mb req of
        Some mb \<Rightarrow>
          if mb > 0 \<and> io_mount io
          then (let d = session_dir st (cr_name req)
                in (Some d, effect (Mount d) (st\<lparr>mounts := mounts st @ [d]\<rparr>)))
          else (None, st)
      | None \<Rightarrow> (None, st))"

definition make_cgroup :: "create_io \<Rightarrow> create_request \<Rightarrow> int \<Rightarrow> registry \<Rightarrow> string option \<times> registry" where
  "make_cgroup io req pid st =
     (let want_mem = (case cr_mem_cap_mb req of Some m \<Rightarrow> m > 0 | None \<Rightarrow> False);
          want_cpu = (case cr_cpu_cap_pct req of Some c \<Rightarrow> c > 0 | None \<Rightarrow> False);
          n = cr_name req
      in if (want_mem \<or> want_cpu) \<and> pid > 0 \<and> io_cgroup io
         then (let st = effect (CgroupCreate n) (st\<lparr>cgroups := cgroups st @ [n]\<rparr>);
                   st = (if want_mem then effect (CgroupMemMax n (the (cr_mem_cap_mb req))) st else st);
                   st = (if want_cpu then effect (CgroupCpuMax n (the (cr_cpu_cap_pct req))) st else st)
               in (Some n, effect (CgroupAdd n pid) st))
         else (None, st))"

text \<open>The hook that lowers the child's descriptor limit before it starts; a failing hook is a
  failing spawn.\<close>

definition set_fd_limit :: "create_request \<Rightarrow> registry \<Rightarrow> registry" where
  "set_fd_limit req st =
     (case cr_fd_limit req of
        Some cap \<Rightarrow> if cap > 0 then effect (FdLimit cap) st else st
      | None \<Rightarrow> st)"

text \<open>The part of \<open>create\<close> between the two table accesses: directory, tmpfs, stale sockets,
  the two listeners, the process, its ready handshake, the control group.\<close>

definition create_prepare ::
    "create_io \<Rightarrow> env \<Rightarrow> create_request \<Rightarrow> registry \<Rightarrow> registry \<times> (prepared, anyhow) result" where
  "create_prepare io denv req st =
     (let n = cr_name req
      in if \<not> io_mkdir io then (st, Err (AnyText (''mkdir '' @ session_dir st n)))
         else
           let (tmpfs, st) = mount_tmpfs io req st;
               st = remove_stale io (session_sock st n ''wayland.sock'') st;
               st = remove_stale io (session_sock st n ''control.sock'') st;
               st = remove_stale io (session_sock st n ''attach.sock'') st;
               st = remove_stale io (session_sock st n ''ready.sock'') st
           in if \<not> io_bind_ready io then (st, Err (AnyText (''bind ready socket '' @ session_sock st n ''ready.sock'')))
           else
             let st = remove_stale io (session_sock st n ''events.sock'') st
             in if \<not> io_bind_events io then (st, Err (AnyText (''bind events socket '' @ session_sock st n ''events.sock'')))
             else case io_spawn io of
               None \<Rightarrow> (st, Err (AnyText (''spawn '' @ session_bin st)))
             | Some child_id \<Rightarrow>
                 let st = set_fd_limit req st;
                     st = effect (SpawnProcess (session_bin st) (session_argv st req) (session_env denv (cr_env req))) st;
                     pid = (case child_id of Some p \<Rightarrow> p | None \<Rightarrow> -1)
                 in case io_outcome io of
                      ReadyFailed m \<Rightarrow> (effect (KillChild pid) st, Err (AnyText m))
                    | Exited code \<Rightarrow>
                        (st, Err (AnyText (''session '' @ n @ '' exited before ready (code ''
                           @ int_str (case code of Some c \<Rightarrow> c | None \<Rightarrow> -1) @ ''): '' @ io_stderr io)))
                    | TimedOut \<Rightarrow>
                        (effect (KillChild pid) st,
                         Err (AnyText (''session '' @ n @ '' spawn timed out after 5s'')))
                    | Ready \<Rightarrow>
                        let st = effect (RemoveFile (session_sock st n ''ready.sock'')) st;
                            (cg, st) = make_cgroup io req pid st
                        in (st, Ok \<lparr>pr_pid = pid, pr_tmpfs = tmpfs, pr_cgroup = cg\<rparr>))"

definition new_entry :: "u64 \<Rightarrow> create_request \<Rightarrow> prepared \<Rightarrow> registry \<Rightarrow> session_entry" where
  "new_entry created_at req pr st =
     \<lparr>se_meta =
        \<lparr>sm_name = cr_name req, sm_pid = pr_pid pr, sm_width = cr_width req,
         sm_height = cr_height req, sm_scale = cr_scale req, sm_created_at = created_at,
         sm_inner_socket = session_sock st (cr_name req) ''wayland.sock'',
         sm_control_socket = session_sock st (cr_name req) ''control.sock'',
         sm_attach_socket = session_sock st (cr_name req) ''attach.sock'',
         sm_attached = False\<rparr>,
      se_kill = Some (next_id st), se_child_pids = [], se_compositor_pid = None,
      se_cgroup = pr_cgroup pr, se_tmpfs = pr_tmpfs pr,
      se_log = next_id st + 1, se_conn = next_id st + 2\<rparr>"

text \<open>The second table access: the name may have been taken meanwhile.\<close>

definition create_insert ::
    "u64 \<Rightarrow> create_request \<Rightarrow> prepared \<Rightarrow> registry
      \<Rightarrow> registry \<times> (create_session_result, anyhow) result" where
  "create_insert created_at req pr st =
     (let n = cr_name req
      in if find_session n st \<noteq> None
         then (effect (KillChild (pr_pid pr)) st, Err (AnyCreate CreateAlreadyExists))
         else
           let e = new_entry created_at req pr st;
               sock = session_sock st n ''wayland.sock'';
               k = next_id st;
               st = st\<lparr>sessions := alist_insert n e (sessions st),
                       supervisors := supervisors st @
                         [\<lparr>sup_name = n, sup_pid = pr_pid pr, sup_kill = k, sup_socket = sock\<rparr>],
                       supervisor_handles := supervisor_handles st @ [k],
                       drainers := drainers st @ [(k + 1, n, ''stdout''), (k + 1, n, ''stderr'')],
                       logs := (logs st)(k + 1 := []),
                       conns := (conns st)(k + 2 := None),
                       next_id := k + 3\<rparr>
           in (broadcast (SessionCreated n) st,
               Ok \<lparr>csr_name = n, csr_inner_socket_path = sock\<rparr>))"

definition create ::
    "create_io \<Rightarrow> env \<Rightarrow> create_request \<Rightarrow> registry
      \<Rightarrow> registry \<times> (create_session_result, anyhow) result" where
  "create io denv req st =
     (case create_check req st of
        Err e \<Rightarrow> (st, Err e)
      | Ok _ \<Rightarrow>
          (case create_prepare io denv req st of
             (st, Err e) \<Rightarrow> (st, Err e)
           | (st, Ok pr) \<Rightarrow> create_insert (io_created_at io) req pr st))"

section \<open>Destroying a session\<close>

text \<open>Dropping an entry drops its kill sender, which fires the channel like a send.\<close>

definition fire_kill :: "nat option \<Rightarrow> registry \<Rightarrow> registry" where
  "fire_kill k st = (case k of Some i \<Rightarrow> st\<lparr>kill_fired := i # kill_fired st\<rparr> | None \<Rightarrow> st)"

definition unmount_tmpfs :: "string option \<Rightarrow> registry \<Rightarrow> registry" where
  "unmount_tmpfs t st =
     (case t of
        Some d \<Rightarrow> effect (Unmount d) (st\<lparr>mounts := remove1 d (mounts st)\<rparr>)
      | None \<Rightarrow> st)"

text \<open>The control-group cleanup task: kill everything in it, then up to ten attempts to remove
  it; \<open>answers\<close> is what the attempts return.\<close>

primrec cgroup_retry :: "nat \<Rightarrow> (nat \<Rightarrow> bool) \<Rightarrow> nat \<Rightarrow> bool" where
  "cgroup_retry 0 answers attempt = False"
| "cgroup_retry (Suc k) answers attempt =
     (if answers attempt then True else cgroup_retry k answers (Suc attempt))"

definition cgroup_cleanup :: "(nat \<Rightarrow> bool) \<Rightarrow> string \<Rightarrow> registry \<Rightarrow> registry" where
  "cgroup_cleanup answers n st =
     (let st = effect (CgroupKill n) (st\<lparr>cg_tasks := remove1 n (cg_tasks st)\<rparr>)
      in if cgroup_retry 10 answers 0
         then effect (CgroupRemove n) (st\<lparr>cgroups := remove1 n (cgroups st)\<rparr>)
         else st)"

text \<open>\<open>destroy\<close> hands the control group to such a task.\<close>

definition start_cgroup_cleanup :: "string option \<Rightarrow> registry \<Rightarrow> registry" where
  "start_cgroup_cleanup cg st =
     (case cg of Some n \<Rightarrow> st\<lparr>cg_tasks := cg_tasks st @ [n]\<rparr> | None \<Rightarrow> st)"

definition sigterm_all :: "u32 list \<Rightarrow> registry \<Rightarrow> registry" where
  "sigterm_all pids st = fold (\<lambda>p. effect (Sigterm (uint p))) pids st"

definition destroy :: "string \<Rightarrow> registry \<Rightarrow> registry \<times> (unit, anyhow) result" where
  "destroy n st =
     (case find_session n st of
        None \<Rightarrow> (st, Err (AnyDestroy DestroyNotFound))
      | Some e \<Rightarrow>
          let st = st\<lparr>sessions := alist_remove n (sessions st)\<rparr>;
              st = sigterm_all (se_child_pids e) st;
              st = retain_tags n st;
              st = fire_kill (se_kill e) st;
              st = unmount_tmpfs (se_tmpfs e) st;
              st = start_cgroup_cleanup (se_cgroup e) st
          in (st, Ok ()))"

text \<open>\<open>shutdown_all\<close>: destroy every session of the snapshot, then take the supervisor handles
  and wait for them, eight seconds in all.\<close>

definition shutdown_all :: "registry \<Rightarrow> registry \<times> nat list" where
  "shutdown_all st =
     (let names = alist_keys (sessions st);
          st = fold (\<lambda>n st. fst (destroy n st)) names st
      in (st\<lparr>supervisor_handles := []\<rparr>, supervisor_handles st))"

section \<open>The supervisor\<close>

text \<open>Everything after the \<open>select!\<close>: the entry is removed by name.\<close>

definition supervisor_finish :: "supervisor \<Rightarrow> int \<Rightarrow> registry \<Rightarrow> registry" where
  "supervisor_finish s exit_code st =
     (let n = sup_name s;
          parent = path_parent (sup_socket s);
          (tmpfs, st) =
            (case find_session n st of
               Some e \<Rightarrow> (se_tmpfs e, fire_kill (se_kill e) (st\<lparr>sessions := alist_remove n (sessions st)\<rparr>))
             | None \<Rightarrow> (None, st));
          st = unmount_tmpfs tmpfs st;
          st = retain_tags n st;
          st = effect (RemoveFile (sup_socket s)) st;
          st = effect (RemoveFile (path_join parent ''control.sock'')) st;
          st = effect (RemoveFile (path_join parent ''events.sock'')) st;
          st = effect (RemoveFile (path_join parent ''attach.sock'')) st;
          st = effect (RemoveDirAll parent) st
      in broadcast (SessionDestroyed n exit_code) (st\<lparr>supervisors := remove1 s (supervisors st)\<rparr>))"

text \<open>How the \<open>select!\<close> ended: the child exited, or the kill channel fired and
  \<open>shutdown_child\<close> ran with the answers given.\<close>

datatype supervisor_wake =
    ChildWait "exit_status option"
  | KillReceived "exit_status option option" "exit_status option option"

definition session_supervisor :: "supervisor \<Rightarrow> supervisor_wake \<Rightarrow> registry \<Rightarrow> registry" where
  "session_supervisor s wake st =
     (case wake of
        ChildWait status \<Rightarrow> supervisor_finish s (wait_code status) st
      | KillReceived first second \<Rightarrow>
          (let (effs, code) = shutdown_child (if sup_pid s > 0 then Some (sup_pid s) else None) first second
           in supervisor_finish s code (fold effect effs st)))"

section \<open>Children\<close>

definition spawn_guard :: "string list \<Rightarrow> (unit, anyhow) result" where
  "spawn_guard argv =
     (if argv = [] then Err (AnySpawn SpawnInvalidArgv)
      else if \<not> starts_with ''/'' (hd argv) then Err (AnySpawn SpawnArgvNotAbsolute)
      else if length argv > MAX_ARGV_LEN then Err (AnySpawn SpawnArgvTooLarge)
      else if list_ex (\<lambda>a. length a > MAX_ARGV_ELEM_BYTES) argv then Err (AnySpawn SpawnArgvTooLarge)
      else Ok ())"

definition FORWARDED_ENV :: "string list" where
  "FORWARDED_ENV =
     [''PATH'', ''HOME'', ''USER'', ''LANG'', ''LC_ALL'', ''FONTCONFIG_PATH'', ''XDG_DATA_DIRS'']"

definition child_env :: "env \<Rightarrow> string \<Rightarrow> string \<Rightarrow> env \<Rightarrow> env" where
  "child_env denv inner_dir wayland_display uenv =
     (let e = fold (forward_env denv) FORWARDED_ENV [];
          e = set_env ''XDG_RUNTIME_DIR'' inner_dir e;
          e = set_env ''WAYLAND_DISPLAY'' wayland_display e;
          e = set_env ''XDG_SESSION_TYPE'' ''wayland'' e;
          e = set_env ''MOZ_ENABLE_WAYLAND'' ''1'' e;
          e = set_env ''AMD_DEBUG'' ''nodcc'' e;
          e = set_env ''RADV_DEBUG'' ''nodcc'' e;
          e = alist_remove ''DISPLAY'' e
      in set_env_all uenv e)"

text \<open>The second table access of \<open>spawn_child\<close>: the session may be gone by now.\<close>

definition register_child :: "string \<Rightarrow> int \<Rightarrow> bool \<Rightarrow> registry \<Rightarrow> registry" where
  "register_child n pid compositor st =
     (case find_session n st of
        None \<Rightarrow> st
      | Some e \<Rightarrow>
          let st =
            (if pid > 0
             then (let p = of_int pid :: u32;
                       st = update_session n
                              (\<lambda>e. e\<lparr>se_child_pids := se_child_pids e @ [p],
                                     se_compositor_pid := (if compositor then Some p else se_compositor_pid e)\<rparr>) st
                   in (case se_cgroup e of Some g \<Rightarrow> effect (CgroupAdd g pid) st | None \<Rightarrow> st))
             else st)
          in st\<lparr>drainers := drainers st @ [(se_log e, n, ''stdout''), (se_log e, n, ''stderr'')]\<rparr>)"

definition spawn_lookup :: "string \<Rightarrow> registry \<Rightarrow> (string \<times> string, anyhow) result" where
  "spawn_lookup n st =
     (case find_session n st of
        None \<Rightarrow> Err (AnySpawn SpawnSessionNotFound)
      | Some e \<Rightarrow> Ok (path_parent (sm_inner_socket (se_meta e)), path_file_name (sm_inner_socket (se_meta e))))"

text \<open>Up to the new process, and from there on.\<close>

definition spawn_start ::
    "int option option \<Rightarrow> env \<Rightarrow> string \<Rightarrow> string list \<Rightarrow> env \<Rightarrow> registry
      \<Rightarrow> registry \<times> (int, anyhow) result" where
  "spawn_start spawned denv n argv uenv st =
     (case spawn_guard argv of
        Err e \<Rightarrow> (st, Err e)
      | Ok _ \<Rightarrow>
          (case spawn_lookup n st of
             Err e \<Rightarrow> (st, Err e)
           | Ok (inner_dir, display) \<Rightarrow>
               (case spawned of
                  None \<Rightarrow> (st, Err (AnyText (''spawn '' @ hd argv)))
                | Some child_id \<Rightarrow>
                    (effect (SpawnProcess (hd argv) (tl argv) (child_env denv inner_dir display uenv)) st,
                     Ok (case child_id of Some p \<Rightarrow> p | None \<Rightarrow> -1)))))"

definition spawn_finish :: "string \<Rightarrow> int \<Rightarrow> bool \<Rightarrow> registry \<Rightarrow> registry" where
  "spawn_finish n pid compositor st =
     (let st = register_child n pid compositor st
      in st\<lparr>waiters := waiters st @ [(n, pid)]\<rparr>)"

definition spawn_child ::
    "int option option \<Rightarrow> env \<Rightarrow> string \<Rightarrow> string list \<Rightarrow> env \<Rightarrow> bool \<Rightarrow> registry
      \<Rightarrow> registry \<times> (int, anyhow) result" where
  "spawn_child spawned denv n argv uenv compositor st =
     (case spawn_start spawned denv n argv uenv st of
        (st, Err e) \<Rightarrow> (st, Err e)
      | (st, Ok pid) \<Rightarrow> (spawn_finish n pid compositor st, Ok pid))"

text \<open>The waiter task when its child has exited.\<close>

definition child_exited :: "string \<Rightarrow> int \<Rightarrow> exit_status option \<Rightarrow> registry \<Rightarrow> registry" where
  "child_exited n pid status st =
     (let code = wait_code status;
          p = of_int pid :: u32;
          was_compositor =
            (pid > 0 \<and> (case find_session n st of Some e \<Rightarrow> se_compositor_pid e = Some p | None \<Rightarrow> False));
          st = (if pid > 0
                then update_session n
                       (\<lambda>e. e\<lparr>se_child_pids := filter (\<lambda>q. q \<noteq> p) (se_child_pids e),
                              se_compositor_pid :=
                                (if se_compositor_pid e = Some p then None else se_compositor_pid e)\<rparr>) st
                else st);
          st = st\<lparr>waiters := remove1 (n, pid) (waiters st)\<rparr>;
          st = broadcast (ChildExited n pid code) st
      in if was_compositor then broadcast (SessionCrashed n pid code) st else st)"

section \<open>Logs\<close>

text \<open>The rolling history: the oldest line leaves when the ring is full.\<close>

definition ring_push :: "log_line \<Rightarrow> log_line list \<Rightarrow> log_line list" where
  "ring_push l q = (if length q \<ge> LOG_HISTORY_CAPACITY then tl q else q) @ [l]"

definition drain_line :: "drainer \<Rightarrow> string \<Rightarrow> registry \<Rightarrow> registry" where
  "drain_line d line st =
     (case d of (lg, session, stream) \<Rightarrow>
        broadcast (Log session stream line)
          (st\<lparr>logs := (logs st)(lg := ring_push (stream, line) (logs st lg))\<rparr>))"

definition replay_logs :: "string \<Rightarrow> registry \<Rightarrow> log_line list" where
  "replay_logs n st = (case find_session n st of Some e \<Rightarrow> logs st (se_log e) | None \<Rightarrow> [])"

section \<open>Reading and flags\<close>

definition info_of :: "session_entry \<Rightarrow> session_info" where
  "info_of e =
     (let m = se_meta e
      in \<lparr>si_name = sm_name m, si_pid = sm_pid m, si_width = sm_width m, si_height = sm_height m,
          si_scale = sm_scale m, si_attached = sm_attached m, si_created_at = sm_created_at m\<rparr>)"

definition list_sessions :: "registry \<Rightarrow> session_info list" where
  "list_sessions st = map (\<lambda>p. info_of (snd p)) (sessions st)"

definition inner_socket_path :: "string \<Rightarrow> registry \<Rightarrow> string option" where
  "inner_socket_path n st = map_option (\<lambda>e. sm_inner_socket (se_meta e)) (find_session n st)"

definition attach :: "string \<Rightarrow> registry \<Rightarrow> registry \<times> (string, anyhow) result" where
  "attach n st =
     (case find_session n st of
        None \<Rightarrow> (st, Err (AnySessionControl SessionControlNotFound))
      | Some e \<Rightarrow> (update_meta n (\<lambda>m. m\<lparr>sm_attached := True\<rparr>) st, Ok (sm_attach_socket (se_meta e))))"

definition detach :: "string \<Rightarrow> registry \<Rightarrow> registry \<times> (unit, anyhow) result" where
  "detach n st =
     (case find_session n st of
        None \<Rightarrow> (st, Err (AnySessionControl SessionControlNotFound))
      | Some e \<Rightarrow> (update_meta n (\<lambda>m. m\<lparr>sm_attached := False\<rparr>) st, Ok ()))"

section \<open>The backend seam\<close>

text \<open>\<open>LocalBackend\<close> passes both lifecycle operations straight to the registry.\<close>

definition local_create ::
    "create_io \<Rightarrow> env \<Rightarrow> create_request \<Rightarrow> registry \<Rightarrow> registry \<times> (create_session_result, anyhow) result" where
  "local_create io denv req st = create io denv req st"

definition local_destroy :: "string \<Rightarrow> registry \<Rightarrow> registry \<times> (unit, anyhow) result" where
  "local_destroy n st = destroy n st"

section \<open>Lemmas: what each operation leaves alone\<close>

lemma fire_kill_simps [simp]:
  "sessions (fire_kill k st) = sessions st" "tags (fire_kill k st) = tags st"
  "events (fire_kill k st) = events st" "supervisors (fire_kill k st) = supervisors st"
  "state_dir (fire_kill k st) = state_dir st" "next_id (fire_kill k st) = next_id st"
  "mounts (fire_kill k st) = mounts st" "cgroups (fire_kill k st) = cgroups st"
  "logs (fire_kill k st) = logs st" "effects (fire_kill k st) = effects st"
  "drainers (fire_kill k st) = drainers st" "waiters (fire_kill k st) = waiters st"
  "cg_tasks (fire_kill k st) = cg_tasks st"
  "supervisor_handles (fire_kill k st) = supervisor_handles st"
  "set (kill_fired (fire_kill k st)) = set_option k \<union> set (kill_fired st)"
  by (simp_all add: fire_kill_def split: option.splits)

lemma unmount_tmpfs_simps [simp]:
  "sessions (unmount_tmpfs t st) = sessions st" "tags (unmount_tmpfs t st) = tags st"
  "events (unmount_tmpfs t st) = events st" "supervisors (unmount_tmpfs t st) = supervisors st"
  "state_dir (unmount_tmpfs t st) = state_dir st" "next_id (unmount_tmpfs t st) = next_id st"
  "cgroups (unmount_tmpfs t st) = cgroups st" "logs (unmount_tmpfs t st) = logs st"
  "drainers (unmount_tmpfs t st) = drainers st" "waiters (unmount_tmpfs t st) = waiters st"
  "cg_tasks (unmount_tmpfs t st) = cg_tasks st" "kill_fired (unmount_tmpfs t st) = kill_fired st"
  "supervisor_handles (unmount_tmpfs t st) = supervisor_handles st"
  by (simp_all add: unmount_tmpfs_def split: option.splits)

lemma start_cgroup_cleanup_simps [simp]:
  "sessions (start_cgroup_cleanup c st) = sessions st" "tags (start_cgroup_cleanup c st) = tags st"
  "events (start_cgroup_cleanup c st) = events st"
  "supervisors (start_cgroup_cleanup c st) = supervisors st"
  "state_dir (start_cgroup_cleanup c st) = state_dir st"
  "next_id (start_cgroup_cleanup c st) = next_id st"
  "cgroups (start_cgroup_cleanup c st) = cgroups st" "logs (start_cgroup_cleanup c st) = logs st"
  "drainers (start_cgroup_cleanup c st) = drainers st"
  "waiters (start_cgroup_cleanup c st) = waiters st"
  "kill_fired (start_cgroup_cleanup c st) = kill_fired st"
  "mounts (start_cgroup_cleanup c st) = mounts st" "effects (start_cgroup_cleanup c st) = effects st"
  "supervisor_handles (start_cgroup_cleanup c st) = supervisor_handles st"
  by (simp_all add: start_cgroup_cleanup_def split: option.splits)

lemma remove_stale_simps [simp]:
  "sessions (remove_stale io p st) = sessions st" "mounts (remove_stale io p st) = mounts st"
  "state_dir (remove_stale io p st) = state_dir st" "session_bin (remove_stale io p st) = session_bin st"
  "effects (remove_stale io p st) = effects st @ (if io_exists io p then [RemoveFile p] else [])"
  by (simp_all add: remove_stale_def)

lemma set_fd_limit_simps [simp]:
  "sessions (set_fd_limit req st) = sessions st" "mounts (set_fd_limit req st) = mounts st"
  "state_dir (set_fd_limit req st) = state_dir st" "session_bin (set_fd_limit req st) = session_bin st"
  "\<exists>es. effects (set_fd_limit req st) = effects st @ es \<and> set es \<subseteq> range FdLimit"
  by (auto simp: set_fd_limit_def split: option.splits)

lemma effects_fold_effect: "effects (fold effect es st) = effects st @ es"
  by (induction es arbitrary: st) simp_all

lemma fold_effect_simps [simp]:
  "sessions (fold effect es st) = sessions st" "tags (fold effect es st) = tags st"
  "events (fold effect es st) = events st" "supervisors (fold effect es st) = supervisors st"
  "state_dir (fold effect es st) = state_dir st" "next_id (fold effect es st) = next_id st"
  "mounts (fold effect es st) = mounts st" "cgroups (fold effect es st) = cgroups st"
  "logs (fold effect es st) = logs st" "drainers (fold effect es st) = drainers st"
  "waiters (fold effect es st) = waiters st" "cg_tasks (fold effect es st) = cg_tasks st"
  "kill_fired (fold effect es st) = kill_fired st"
  "supervisor_handles (fold effect es st) = supervisor_handles st"
  by (induction es arbitrary: st) simp_all

lemma sigterm_all_fold:
  "sigterm_all pids st = fold effect (map (\<lambda>p. Sigterm (uint p)) pids) st"
  by (simp add: sigterm_all_def fold_map comp_def)

section \<open>Lemmas: environments and logs\<close>

lemma map_of_set_env_all:
  "map_of (set_env_all kvs e) k = (case map_of (rev kvs) k of Some v \<Rightarrow> Some v | None \<Rightarrow> map_of e k)"
  by (induction kvs arbitrary: e)
    (auto simp: set_env_all_def set_env_def map_add_def split: option.splits)

lemma map_of_forward_env:
  "map_of (forward_env denv k e) j = (if j = k \<and> map_of denv k \<noteq> None then map_of denv k else map_of e j)"
  by (auto simp: forward_env_def set_env_def split: option.splits)

lemma map_of_forward_all:
  "j \<notin> set ks \<Longrightarrow> map_of (fold (forward_env denv) ks e) j = map_of e j"
  by (induction ks arbitrary: e) (auto simp: map_of_forward_env)

lemma forward_all_cong:
  "(\<forall>k \<in> set ks. map_of denv k = map_of denv' k) \<Longrightarrow>
    fold (forward_env denv) ks e = fold (forward_env denv') ks e"
  by (induction ks arbitrary: e) (simp_all add: forward_env_def)

lemma fold_ring_push:
  "fold ring_push ls [] = drop (length ls - LOG_HISTORY_CAPACITY) ls"
proof (induction ls rule: rev_induct)
  case (snoc l ls)
  show ?case
  proof (cases "length ls < LOG_HISTORY_CAPACITY")
    case True
    with snoc show ?thesis by (simp add: ring_push_def)
  next
    case False
    then have "LOG_HISTORY_CAPACITY \<le> length ls" "Suc 0 - LOG_HISTORY_CAPACITY = 0"
      by (simp_all add: LOG_HISTORY_CAPACITY_def)
    with snoc show ?thesis
      by (simp add: ring_push_def Suc_diff_le drop_Suc tl_drop)
  qed
qed simp

section \<open>Sample states\<close>

definition sample_entry :: session_entry where
  "sample_entry =
     \<lparr>se_meta = \<lparr>sm_name = ''a'', sm_pid = 7, sm_width = 1, sm_height = 1, sm_scale = 1,
        sm_created_at = 0, sm_inner_socket = ''/run/a/wayland.sock'',
        sm_control_socket = ''/run/a/control.sock'', sm_attach_socket = ''/run/a/attach.sock'',
        sm_attached = False\<rparr>,
      se_kill = Some 0, se_child_pids = [41, 42], se_compositor_pid = Some 42,
      se_cgroup = Some ''a'', se_tmpfs = Some ''/run/a'', se_log = 1, se_conn = 2\<rparr>"

definition sample_registry :: registry where
  "sample_registry =
     (registry_new ''/run'' ''bin'')\<lparr>sessions := [(''a'', sample_entry)],
        tags := [((''a'', 3), [''t''])], cgroups := [''a''], mounts := [''/run/a'']\<rparr>"

definition sample_request :: create_request where
  "sample_request =
     \<lparr>cr_name = ''a'', cr_width = 8, cr_height = 8, cr_scale = 1, cr_env = [],
      cr_share_clipboard = False, cr_share_audio = False, cr_mem_cap_mb = None,
      cr_cpu_cap_pct = None, cr_disk_quota_mb = Some 64, cr_fd_limit = None, cr_api_key_id = None\<rparr>"

definition timeout_io :: create_io where
  "timeout_io =
     \<lparr>io_mkdir = True, io_mount = True, io_exists = (\<lambda>_. False), io_bind_ready = True,
      io_bind_events = True, io_spawn = Some (Some 100), io_outcome = TimedOut, io_stderr = [],
      io_cgroup = False, io_created_at = 0\<rparr>"

lemma sample_find [simp]: "find_session ''a'' sample_registry = Some sample_entry"
  by (simp add: sample_registry_def)

section \<open>Properties\<close>

text \<open>C5: Spawned applications cannot see the daemon's secrets. Two daemons whose environments
  agree on the seven forwarded variables start a child with the same environment; every
  variable of the child is forwarded, fixed by the daemon or given by the caller; and
  \<open>DISPLAY\<close> is there only if the caller sets it.\<close>

theorem child_env_noninterference:
  assumes "\<forall>k \<in> set FORWARDED_ENV. map_of denv k = map_of denv' k"
  shows "child_env denv dir disp uenv = child_env denv' dir disp uenv
    \<and> (map_of (child_env denv dir disp uenv) k \<noteq> None \<longrightarrow>
        k \<in> fst ` set uenv \<or> k \<in> set FORWARDED_ENV
        \<or> k \<in> {''XDG_RUNTIME_DIR'', ''WAYLAND_DISPLAY'', ''XDG_SESSION_TYPE'', ''MOZ_ENABLE_WAYLAND'',
               ''AMD_DEBUG'', ''RADV_DEBUG''})
    \<and> (''DISPLAY'' \<notin> fst ` set uenv \<longrightarrow> map_of (child_env denv dir disp uenv) ''DISPLAY'' = None)"
proof (intro conjI impI)
  show "child_env denv dir disp uenv = child_env denv' dir disp uenv"
    unfolding child_env_def forward_all_cong [OF assms] ..
  have rev_None: "map_of (rev uenv) j = None" if "j \<notin> fst ` set uenv" for j
    using that by (simp add: map_of_eq_None_iff)
  show "map_of (child_env denv dir disp uenv) ''DISPLAY'' = None" if "''DISPLAY'' \<notin> fst ` set uenv"
    using rev_None [OF that] by (simp add: child_env_def map_of_set_env_all)
  show "k \<in> fst ` set uenv \<or> k \<in> set FORWARDED_ENV
        \<or> k \<in> {''XDG_RUNTIME_DIR'', ''WAYLAND_DISPLAY'', ''XDG_SESSION_TYPE'', ''MOZ_ENABLE_WAYLAND'',
               ''AMD_DEBUG'', ''RADV_DEBUG''}"
    if "map_of (child_env denv dir disp uenv) k \<noteq> None"
  proof (rule ccontr)
    assume "\<not> ?thesis"
    then have "map_of (child_env denv dir disp uenv) k = None"
      using rev_None [of k] map_of_forward_all [of k FORWARDED_ENV denv "[]"]
      by (simp add: child_env_def map_of_set_env_all set_env_def)
    with that show False by simp
  qed
qed

theorem child_env_noninterference_witness:
  "child_env [(''PATH'', ''/bin''), (''DATABASE_URL'', ''s'')] ''/d'' ''w'' [(''A'', ''1'')]
     = child_env [(''PATH'', ''/bin''), (''STRIPE_SECRET_KEY'', ''t'')] ''/d'' ''w'' [(''A'', ''1'')]
   \<and> map_of (child_env [(''PATH'', ''/bin''), (''DATABASE_URL'', ''s'')] ''/d'' ''w'' [(''A'', ''1'')]) ''DISPLAY'' = None"
  using child_env_noninterference
    [of "[(''PATH'', ''/bin''), (''DATABASE_URL'', ''s'')]" "[(''PATH'', ''/bin''), (''STRIPE_SECRET_KEY'', ''t'')]"
      "''/d''" "''w''" "[(''A'', ''1'')]" "''A''"]
  by (simp add: FORWARDED_ENV_def) (elim conjE, simp)

text \<open>The session process gets from the daemon's environment only \<open>PATH\<close>, \<open>RUST_LOG\<close>,
  \<open>RUST_BACKTRACE\<close> and the \<open>WAYMUX_\<close> flags.\<close>

theorem session_env_noninterference:
  assumes "map_of denv ''PATH'' = map_of denv' ''PATH''"
    and "map_of denv ''RUST_LOG'' = map_of denv' ''RUST_LOG''"
    and "map_of denv ''RUST_BACKTRACE'' = map_of denv' ''RUST_BACKTRACE''"
    and "filter (\<lambda>(k, v). starts_with ''WAYMUX_'' k) denv = filter (\<lambda>(k, v). starts_with ''WAYMUX_'' k) denv'"
  shows "session_env denv uenv = session_env denv' uenv"
  using assms by (simp add: session_env_def forward_env_def)

theorem session_env_noninterference_witness:
  "session_env [(''PATH'', ''/bin''), (''JWT_SECRET'', ''x''), (''WAYMUX_A'', ''1'')] [(''B'', ''2'')]
     = session_env [(''WAYMUX_A'', ''1''), (''PATH'', ''/bin'')] [(''B'', ''2'')]"
  by (rule session_env_noninterference) (simp_all add: starts_with_def)

text \<open>The log history replayed to a late subscriber is exactly the last 1024 lines drained
  into the ring, in arrival order.\<close>

theorem log_ring_keeps_latest:
  "fold ring_push ls [] = drop (length ls - LOG_HISTORY_CAPACITY) ls
    \<and> length (fold ring_push ls []) = min (length ls) LOG_HISTORY_CAPACITY"
  by (simp add: fold_ring_push)

text \<open>C8: \<open>destroy\<close>. A name that is not in the table is an error that changes nothing. Otherwise
  the entry and every tag of the session are gone, exactly the session's spawned children
  are sent SIGTERM, its supervisor's kill channel has fired, its tmpfs is unmounted, its
  control group is handed to the cleanup, and every other session is as before.\<close>

theorem destroy_effect:
  "case find_session n st of
     None \<Rightarrow> destroy n st = (st, Err (AnyDestroy DestroyNotFound))
   | Some e \<Rightarrow>
       (case destroy n st of (st', r) \<Rightarrow>
          r = Ok () \<and> find_session n st' = None
          \<and> (\<forall>m. m \<noteq> n \<longrightarrow> find_session m st' = find_session m st)
          \<and> (\<forall>w. map_of (tags st') (n, w) = None)
          \<and> (\<forall>m w. m \<noteq> n \<longrightarrow> map_of (tags st') (m, w) = map_of (tags st) (m, w))
          \<and> effects st' = effects st @ map (\<lambda>p. Sigterm (uint p)) (se_child_pids e)
                @ (case se_tmpfs e of Some d \<Rightarrow> [Unmount d] | None \<Rightarrow> [])
          \<and> set_option (se_kill e) \<subseteq> set (kill_fired st')
          \<and> cg_tasks st' = cg_tasks st @ (case se_cgroup e of Some g \<Rightarrow> [g] | None \<Rightarrow> []))"
proof (cases "find_session n st")
  case None
  then show ?thesis by (simp add: destroy_def)
next
  case (Some e)
  have tags_n: "map_of (filter (\<lambda>t. fst (fst t) \<noteq> n) ts) (m, w) = (if m = n then None else map_of ts (m, w))"
    for ts :: "((string \<times> u32) \<times> string list) list" and m w
    by (induction ts) auto
  show ?thesis
    using Some
    by (auto simp: destroy_def Let_def sigterm_all_fold effects_fold_effect tags_n unmount_tmpfs_def
        start_cgroup_cleanup_def split: option.splits)
qed

theorem destroy_effect_witness:
  "find_session ''a'' (fst (destroy ''a'' sample_registry)) = None
   \<and> effects (fst (destroy ''a'' sample_registry)) = [Sigterm 41, Sigterm 42, Unmount ''/run/a'']
   \<and> 0 \<in> set (kill_fired (fst (destroy ''a'' sample_registry)))"
proof -
  have "effects sample_registry = []" by (simp add: sample_registry_def registry_new_def)
  with destroy_effect [of "''a''" sample_registry] show ?thesis
    by (cases "destroy ''a'' sample_registry") (simp add: sample_entry_def)
qed

text \<open>C10: A session that ends by itself leaves its spawned children and its control group
  behind: the supervisor signals nobody, kills and removes no control group, although
  the entry that knew them is dropped.\<close>

theorem natural_exit_leaves_children:
  assumes "find_session (sup_name s) st = Some e"
  shows "find_session (sup_name s) (session_supervisor s (ChildWait status) st) = None
    \<and> cgroups (session_supervisor s (ChildWait status) st) = cgroups st
    \<and> cg_tasks (session_supervisor s (ChildWait status) st) = cg_tasks st
    \<and> (\<exists>es. effects (session_supervisor s (ChildWait status) st) = effects st @ es
          \<and> (\<forall>p g. Sigterm p \<notin> set es \<and> KillChild p \<notin> set es \<and> CgroupKill g \<notin> set es))"
proof -
  have "\<exists>es. effects (supervisor_finish s c st) = effects st @ es
      \<and> (\<forall>p g. Sigterm p \<notin> set es \<and> KillChild p \<notin> set es \<and> CgroupKill g \<notin> set es)" for c
    using assms by (cases "se_tmpfs e") (simp_all add: supervisor_finish_def Let_def unmount_tmpfs_def)
  moreover have "find_session (sup_name s) (supervisor_finish s c st) = None
      \<and> cgroups (supervisor_finish s c st) = cgroups st
      \<and> cg_tasks (supervisor_finish s c st) = cg_tasks st" for c
    using assms by (simp add: supervisor_finish_def Let_def)
  ultimately show ?thesis by (simp add: session_supervisor_def)
qed

theorem natural_exit_leaves_children_witness:
  "find_session ''a'' (session_supervisor
       \<lparr>sup_name = ''a'', sup_pid = 7, sup_kill = 0, sup_socket = ''/run/a/wayland.sock''\<rparr>
       (ChildWait (Some (ExitCode 0))) sample_registry) = None
   \<and> cgroups (session_supervisor
       \<lparr>sup_name = ''a'', sup_pid = 7, sup_kill = 0, sup_socket = ''/run/a/wayland.sock''\<rparr>
       (ChildWait (Some (ExitCode 0))) sample_registry) = [''a'']"
proof -
  have "cgroups sample_registry = [''a'']" by (simp add: sample_registry_def)
  with natural_exit_leaves_children
    [where s = "\<lparr>sup_name = ''a'', sup_pid = 7, sup_kill = 0, sup_socket = ''/run/a/wayland.sock''\<rparr>"
      and st = sample_registry and e = sample_entry and status = "Some (ExitCode 0)"]
  show ?thesis by simp
qed

text \<open>C9: A \<open>create\<close> that fails after its tmpfs was mounted leaves the mount in place with no
  table entry that owns it: here the session process does not become ready in time.\<close>

theorem create_timeout_leaks_tmpfs:
  assumes "create_check req st = Ok ()" and "io_mkdir io" "io_mount io" "io_bind_ready io"
    "io_bind_events io" "io_spawn io = Some (Some p)" "io_outcome io = TimedOut"
    and "cr_disk_quota_mb req = Some mb" "mb > 0"
  shows "\<exists>st' m. create io denv req st = (st', Err (AnyText m))
    \<and> sessions st' = sessions st \<and> mounts st' = mounts st @ [session_dir st (cr_name req)]
    \<and> Unmount (session_dir st (cr_name req)) \<notin> set (drop (length (effects st)) (effects st'))"
proof -
  let ?d = "session_dir st (cr_name req)"
  define st1 where "st1 = effect (Mount ?d) (st\<lparr>mounts := mounts st @ [?d]\<rparr>)"
  have mnt: "mount_tmpfs io req st = (Some ?d, st1)"
    using assms by (simp add: mount_tmpfs_def st1_def Let_def)
  obtain st2 where st2: "create_prepare io denv req st = (effect (KillChild p) st2,
        Err (AnyText (''session '' @ cr_name req @ '' spawn timed out after 5s'')))"
      "sessions st2 = sessions st1" "mounts st2 = mounts st1"
      "\<exists>es. effects st2 = effects st1 @ es \<and> Unmount ?d \<notin> set es"
  proof -
    obtain s3 es where s3: "s3 = remove_stale io (session_sock st1 (cr_name req) ''events.sock'')
        (remove_stale io (session_sock st1 (cr_name req) ''ready.sock'')
        (remove_stale io (session_sock st1 (cr_name req) ''attach.sock'')
        (remove_stale io (session_sock st1 (cr_name req) ''control.sock'')
        (remove_stale io (session_sock st1 (cr_name req) ''wayland.sock'') st1))))"
      "effects (set_fd_limit req s3) = effects s3 @ es" "set es \<subseteq> range FdLimit"
      using set_fd_limit_simps(5) by metis
    have sock: "session_sock (remove_stale io q x) = session_sock x" for q x
      by (simp add: fun_eq_iff session_sock_def session_dir_def)
    show ?thesis
      using assms mnt s3
      by (intro that [of "effect (SpawnProcess (session_bin (set_fd_limit req s3))
            (session_argv (set_fd_limit req s3) req) (session_env denv (cr_env req))) (set_fd_limit req s3)"])
        (auto simp: create_prepare_def sock Let_def)
  qed
  then show ?thesis using assms(1) by (auto simp: create_def st1_def)
qed

theorem create_timeout_leaks_tmpfs_witness:
  "\<exists>st' m. create timeout_io [] sample_request (registry_new ''/run'' ''bin'') = (st', Err (AnyText m))
     \<and> sessions st' = [] \<and> mounts st' = [''/run/a'']"
proof -
  let ?st = "registry_new ''/run'' ''bin''"
  have "create_check sample_request ?st = Ok ()"
    by (simp add: create_check_def sample_request_def validate_session_name_def
        validate_output_size_def is_ascii_alphanumeric_def MAX_OUTPUT_DIMENSION_def registry_new_def)
  from create_timeout_leaks_tmpfs [OF this, of timeout_io 100 64 "[]"]
  obtain st' m where "create timeout_io [] sample_request ?st = (st', Err (AnyText m))"
      "sessions st' = sessions ?st" "mounts st' = mounts ?st @ [session_dir ?st (cr_name sample_request)]"
    by (auto simp: timeout_io_def sample_request_def)
  then show ?thesis
    by (auto simp: registry_new_def session_dir_def path_join_def sample_request_def)
qed

end
