(* ===== verification/Registry_Steps.thy ===== *)
theory Registry_Steps
  imports Registry
begin

text \<open>
  The daemon as a transition system. Connections, supervisors, waiters, log drainers and
  control-group cleaners are tasks that run concurrently and meet at the table lock, so
  one step is one locked section of \<open>Registry\<close>; a \<open>create\<close> or \<open>spawn_child\<close> in
  progress sits between two of its sections. \<open>reachable\<close> holds of every state the daemon
  can get into from a fresh registry, \<open>registry_inv\<close> is the invariant of the table, and
  the properties at the end are consequences, among them the loss of a session that was
  created again while the supervisor of its predecessor was still at work.
\<close>

section \<open>Steps\<close>

record system =
  reg :: registry
  creating :: "create_request list"
  inserting :: "(create_request \<times> prepared) list"
  spawning :: "(string \<times> int \<times> bool) list"
  tagging :: "(string \<times> u32 \<times> string list) list"

definition system_new :: "string \<Rightarrow> string \<Rightarrow> system" where
  "system_new dir bin =
     \<lparr>reg = registry_new dir bin, creating = [], inserting = [], spawning = [], tagging = []\<rparr>"

text \<open>A resize that the session accepted, and the last step of \<open>tag_window\<close>, which stores the
  tags without looking at the table again.\<close>

definition apply_resize :: "string \<Rightarrow> u32 \<Rightarrow> u32 \<Rightarrow> registry \<Rightarrow> registry" where
  "apply_resize n w h st = update_meta n (\<lambda>m. m\<lparr>sm_width := w, sm_height := h\<rparr>) st"

definition store_tags :: "string \<Rightarrow> u32 \<Rightarrow> string list \<Rightarrow> registry \<Rightarrow> registry" where
  "store_tags n w ts st = st\<lparr>tags := alist_insert (n, w) ts (tags st)\<rparr>"

inductive step :: "system \<Rightarrow> system \<Rightarrow> bool" where
  Check: "create_check req (reg s) = Ok () \<Longrightarrow> step s (s\<lparr>creating := creating s @ [req]\<rparr>)"
| PrepareOk: "\<lbrakk>req \<in> set (creating s); create_prepare io denv req (reg s) = (r, Ok pr)\<rbrakk> \<Longrightarrow>
    step s (s\<lparr>reg := r, creating := remove1 req (creating s), inserting := inserting s @ [(req, pr)]\<rparr>)"
| PrepareErr: "\<lbrakk>req \<in> set (creating s); create_prepare io denv req (reg s) = (r, Err e)\<rbrakk> \<Longrightarrow>
    step s (s\<lparr>reg := r, creating := remove1 req (creating s)\<rparr>)"
| Insert: "\<lbrakk>(req, pr) \<in> set (inserting s); create_insert t req pr (reg s) = (r, res)\<rbrakk> \<Longrightarrow>
    step s (s\<lparr>reg := r, inserting := remove1 (req, pr) (inserting s)\<rparr>)"
| Destroy: "step s (s\<lparr>reg := fst (destroy n (reg s))\<rparr>)"
| Supervise_exit: "sv \<in> set (supervisors (reg s)) \<Longrightarrow>
    step s (s\<lparr>reg := session_supervisor sv (ChildWait status) (reg s)\<rparr>)"
| Supervise_kill: "\<lbrakk>sv \<in> set (supervisors (reg s)); sup_kill sv \<in> set (kill_fired (reg s))\<rbrakk> \<Longrightarrow>
    step s (s\<lparr>reg := session_supervisor sv (KillReceived a1 a2) (reg s)\<rparr>)"
| Spawn_start: "spawn_start spawned denv n argv uenv (reg s) = (r, Ok pid) \<Longrightarrow>
    step s (s\<lparr>reg := r, spawning := spawning s @ [(n, pid, compositor)]\<rparr>)"
| Spawn_finish: "(n, pid, compositor) \<in> set (spawning s) \<Longrightarrow>
    step s (s\<lparr>reg := spawn_finish n pid compositor (reg s),
              spawning := remove1 (n, pid, compositor) (spawning s)\<rparr>)"
| Child_exit: "(n, pid) \<in> set (waiters (reg s)) \<Longrightarrow>
    step s (s\<lparr>reg := child_exited n pid status (reg s)\<rparr>)"
| Drain: "d \<in> set (drainers (reg s)) \<Longrightarrow> step s (s\<lparr>reg := drain_line d line (reg s)\<rparr>)"
| Cgroup: "g \<in> set (cg_tasks (reg s)) \<Longrightarrow> step s (s\<lparr>reg := cgroup_cleanup answers g (reg s)\<rparr>)"
| Attach_s: "step s (s\<lparr>reg := fst (attach n (reg s))\<rparr>)"
| Detach_s: "step s (s\<lparr>reg := fst (detach n (reg s))\<rparr>)"
| Resize_s: "validate_output_size w h = Ok () \<Longrightarrow> step s (s\<lparr>reg := apply_resize n w h (reg s)\<rparr>)"
| Tag_start: "find_session n (reg s) \<noteq> None \<Longrightarrow> step s (s\<lparr>tagging := tagging s @ [(n, w, ts)]\<rparr>)"
| Tag_store: "(n, w, ts) \<in> set (tagging s) \<Longrightarrow>
    step s (s\<lparr>reg := store_tags n w ts (reg s), tagging := remove1 (n, w, ts) (tagging s)\<rparr>)"

inductive reachable :: "string \<Rightarrow> string \<Rightarrow> system \<Rightarrow> bool" for dir bin where
  reach_new: "reachable dir bin (system_new dir bin)"
| reach_step: "\<lbrakk>reachable dir bin s; step s s'\<rbrakk> \<Longrightarrow> reachable dir bin s'"

section \<open>The invariant\<close>

definition entry_ok :: "registry \<Rightarrow> string \<Rightarrow> session_entry \<Rightarrow> bool" where
  "entry_ok st n e \<longleftrightarrow>
     sm_name (se_meta e) = n \<and> validate_session_name n = Ok ()
     \<and> validate_output_size (sm_width (se_meta e)) (sm_height (se_meta e)) = Ok ()
     \<and> sm_inner_socket (se_meta e) = session_sock st n ''wayland.sock''
     \<and> sm_control_socket (se_meta e) = session_sock st n ''control.sock''
     \<and> sm_attach_socket (se_meta e) = session_sock st n ''attach.sock''
     \<and> (\<forall>p. se_compositor_pid e = Some p \<longrightarrow> p \<in> set (se_child_pids e))
     \<and> (\<exists>k. se_kill e = Some k \<and> k < next_id st \<and> k \<notin> set (kill_fired st)
           \<and> (\<exists>s \<in> set (supervisors st). sup_name s = n \<and> sup_kill s = k))"

definition table_inv :: "registry \<Rightarrow> bool" where
  "table_inv st \<longleftrightarrow> distinct (alist_keys (sessions st)) \<and>
     (\<forall>n e. find_session n st = Some e \<longrightarrow> entry_ok st n e)"

text \<open>Every supervisor still has its session in the table, or has been told to stop.\<close>

definition supervised :: "registry \<Rightarrow> bool" where
  "supervised st \<longleftrightarrow>
     distinct (map sup_kill (supervisors st)) \<and>
     (\<forall>s \<in> set (supervisors st). sup_kill s < next_id st
        \<and> sup_socket s = session_sock st (sup_name s) ''wayland.sock''
        \<and> validate_session_name (sup_name s) = Ok ()
        \<and> (sup_kill s \<in> set (kill_fired st)
           \<or> (\<exists>e. find_session (sup_name s) st = Some e \<and> se_kill e = Some (sup_kill s)))) \<and>
     (\<forall>k \<in> set (kill_fired st). k < next_id st)"

definition logs_bounded :: "registry \<Rightarrow> bool" where
  "logs_bounded st \<longleftrightarrow> (\<forall>i. length (logs st i) \<le> LOG_HISTORY_CAPACITY)"

definition registry_inv :: "registry \<Rightarrow> bool" where
  "registry_inv st \<longleftrightarrow> table_inv st \<and> supervised st \<and> logs_bounded st"

definition request_ok :: "create_request \<Rightarrow> bool" where
  "request_ok req \<longleftrightarrow> validate_session_name (cr_name req) = Ok ()
     \<and> validate_output_size (cr_width req) (cr_height req) = Ok ()"

definition system_inv :: "system \<Rightarrow> bool" where
  "system_inv s \<longleftrightarrow> registry_inv (reg s) \<and> list_all request_ok (creating s)
     \<and> list_all (\<lambda>(req, pr). request_ok req) (inserting s)"

section \<open>Lemmas: frames\<close>

text \<open>Two registries that agree on the table, the supervisors, the kill channels and the logs
  satisfy the invariant together.\<close>

definition same_core :: "registry \<Rightarrow> registry \<Rightarrow> bool" where
  "same_core st st' \<longleftrightarrow> sessions st' = sessions st \<and> supervisors st' = supervisors st
     \<and> kill_fired st' = kill_fired st \<and> next_id st' = next_id st \<and> logs st' = logs st
     \<and> state_dir st' = state_dir st"

lemma session_sock_cong: "state_dir st' = state_dir st \<Longrightarrow> session_sock st' = session_sock st"
  by (simp add: fun_eq_iff session_sock_def session_dir_def)

lemma registry_inv_same_core:
  assumes "same_core st st'"
  shows "registry_inv st' = registry_inv st"
proof -
  have "session_sock st' = session_sock st"
    using assms by (intro session_sock_cong) (simp add: same_core_def)
  with assms show ?thesis
    by (simp add: registry_inv_def table_inv_def supervised_def logs_bounded_def entry_ok_def same_core_def)
qed

lemma same_core_refl [simp]: "same_core st st"
  by (simp add: same_core_def)

lemma same_core_effect [simp]: "same_core st (effect e st') = same_core st st'"
  by (simp add: same_core_def)

lemma same_core_broadcast [simp]: "same_core st (broadcast e st') = same_core st st'"
  by (simp add: same_core_def)

lemma same_core_trans: "same_core a b \<Longrightarrow> same_core b c \<Longrightarrow> same_core a c"
  by (simp add: same_core_def)

lemma same_core_remove_stale [simp]: "same_core st (remove_stale io p st') = same_core st st'"
  by (simp add: remove_stale_def)

lemma same_core_set_fd_limit [simp]: "same_core st (set_fd_limit req st') = same_core st st'"
  by (simp add: set_fd_limit_def split: option.splits)

lemma same_core_mount_tmpfs:
  "mount_tmpfs io req st = (t, st') \<Longrightarrow> same_core st st'"
  by (auto simp: mount_tmpfs_def Let_def same_core_def split: option.splits if_splits)

lemma same_core_make_cgroup:
  "make_cgroup io req pid st = (t, st') \<Longrightarrow> same_core st st'"
  by (auto simp: make_cgroup_def Let_def same_core_def split: option.splits if_splits)

lemma same_core_create_prepare:
  assumes "create_prepare io denv req st = (st', res)"
  shows "same_core st st'"
proof -
  obtain t st1 where m: "mount_tmpfs io req st = (t, st1)" by fastforce
  have cg: "make_cgroup io req pid x = (c, y) \<Longrightarrow> same_core st y = same_core st x" for x pid c y
    by (drule same_core_make_cgroup) (simp add: same_core_def)
  show ?thesis
    using assms same_core_mount_tmpfs [OF m] unfolding create_prepare_def m
    by (auto simp: Let_def split: if_splits option.splits spawn_outcome.splits prod.splits dest!: cg)
qed

lemma same_core_spawn_start:
  "spawn_start spawned denv n argv uenv st = (st', res) \<Longrightarrow> same_core st st'"
  by (auto simp: spawn_start_def split: result.splits option.splits prod.splits)

lemma same_core_cgroup_cleanup: "same_core st (cgroup_cleanup answers g st)"
  by (simp add: cgroup_cleanup_def Let_def same_core_def)

lemma same_core_store_tags: "same_core st (store_tags n w ts st)"
  by (simp add: store_tags_def same_core_def)

lemma length_ring_push:
  "length q \<le> LOG_HISTORY_CAPACITY \<Longrightarrow> length (ring_push l q) \<le> LOG_HISTORY_CAPACITY"
  by (auto simp: ring_push_def LOG_HISTORY_CAPACITY_def)

lemma logs_bounded_drain_line: "logs_bounded st \<Longrightarrow> logs_bounded (drain_line d line st)"
  by (cases d) (auto simp: drain_line_def logs_bounded_def length_ring_push)

section \<open>Lemmas: each step keeps the invariant\<close>

text \<open>Changing one entry in place keeps the invariant when it keeps the entry's name, sockets
  and kill channel.\<close>

lemma registry_inv_update_session:
  assumes inv: "registry_inv st"
    and f: "\<And>e. entry_ok st n e \<Longrightarrow> entry_ok st n (f e) \<and> se_kill (f e) = se_kill e"
  shows "registry_inv (update_session n f st)"
proof -
  let ?st = "update_session n f st"
  have sock: "session_sock ?st = session_sock st" by (rule session_sock_cong) simp
  have ok: "entry_ok ?st m e = entry_ok st m e" for m e
    by (simp add: entry_ok_def sock)
  from inv have t: "table_inv st" "supervised st" "logs_bounded st"
    by (simp_all add: registry_inv_def)
  have "table_inv ?st"
    using t(1) f by (auto simp: table_inv_def ok split: if_splits)
  moreover have "supervised ?st"
    unfolding supervised_def
  proof (intro conjI ballI)
    show "distinct (map sup_kill (supervisors ?st))" using t(2) by (simp add: supervised_def)
    fix s assume s: "s \<in> set (supervisors ?st)"
    with t(2) show "sup_kill s < next_id ?st" "validate_session_name (sup_name s) = Ok ()"
      "sup_socket s = session_sock ?st (sup_name s) ''wayland.sock''"
      by (simp_all add: supervised_def sock)
    from s t(2) consider "sup_kill s \<in> set (kill_fired st)"
      | e where "find_session (sup_name s) st = Some e" "se_kill e = Some (sup_kill s)"
      by (auto simp: supervised_def)
    then show "sup_kill s \<in> set (kill_fired ?st) \<or>
        (\<exists>e. find_session (sup_name s) ?st = Some e \<and> se_kill e = Some (sup_kill s))"
    proof cases
      case 2
      with t(1) f show ?thesis by (cases "sup_name s = n") (auto simp: table_inv_def)
    qed simp
  next
    fix k assume "k \<in> set (kill_fired ?st)"
    with t(2) show "k < next_id ?st" by (simp add: supervised_def)
  qed
  ultimately show ?thesis using t(3) by (simp add: registry_inv_def logs_bounded_def)
qed

lemma registry_inv_update_meta:
  assumes "registry_inv st"
    and "\<And>m. sm_name (f m) = sm_name m \<and> sm_inner_socket (f m) = sm_inner_socket m
      \<and> sm_control_socket (f m) = sm_control_socket m \<and> sm_attach_socket (f m) = sm_attach_socket m
      \<and> (validate_output_size (sm_width m) (sm_height m) = Ok () \<longrightarrow>
           validate_output_size (sm_width (f m)) (sm_height (f m)) = Ok ())"
  shows "registry_inv (update_meta n f st)"
  unfolding update_meta_def
  by (rule registry_inv_update_session [OF assms(1)]) (use assms(2) in \<open>auto simp: entry_ok_def\<close>)

lemma registry_inv_attach: "registry_inv st \<Longrightarrow> registry_inv (fst (attach n st))"
  by (auto simp: attach_def intro!: registry_inv_update_meta split: option.splits)

lemma registry_inv_detach: "registry_inv st \<Longrightarrow> registry_inv (fst (detach n st))"
  by (auto simp: detach_def intro!: registry_inv_update_meta split: option.splits)

lemma registry_inv_resize:
  "registry_inv st \<Longrightarrow> validate_output_size w h = Ok () \<Longrightarrow> registry_inv (apply_resize n w h st)"
  unfolding apply_resize_def by (rule registry_inv_update_meta) auto

lemma registry_inv_child_exited:
  assumes "registry_inv st"
  shows "registry_inv (child_exited n pid status st)"
proof -
  let ?f = "\<lambda>e. e\<lparr>se_child_pids := filter (\<lambda>q. q \<noteq> of_int pid) (se_child_pids e),
      se_compositor_pid := (if se_compositor_pid e = Some (of_int pid) then None else se_compositor_pid e)\<rparr>"
  have "registry_inv (update_session n ?f st)"
    by (rule registry_inv_update_session [OF assms]) (auto simp: entry_ok_def)
  moreover have "same_core (if pid > 0 then update_session n ?f st else st) (child_exited n pid status st)"
    by (simp add: child_exited_def Let_def same_core_def)
  ultimately show ?thesis
    using assms registry_inv_same_core by (auto split: if_splits)
qed

lemma registry_inv_register_child:
  assumes "registry_inv st"
  shows "registry_inv (register_child n pid compositor st)"
proof (cases "find_session n st")
  case None
  with assms show ?thesis by (simp add: register_child_def)
next
  case (Some e)
  let ?f = "\<lambda>e. e\<lparr>se_child_pids := se_child_pids e @ [of_int pid],
      se_compositor_pid := (if compositor then Some (of_int pid) else se_compositor_pid e)\<rparr>"
  have "registry_inv (update_session n ?f st)"
    by (rule registry_inv_update_session [OF assms]) (auto simp: entry_ok_def)
  moreover have "same_core (if pid > 0 then update_session n ?f st else st) (register_child n pid compositor st)"
    using Some by (auto simp: register_child_def Let_def same_core_def split: option.splits)
  ultimately show ?thesis
    using assms registry_inv_same_core by (auto split: if_splits)
qed

lemma registry_inv_drain_line:
  assumes "registry_inv st"
  shows "registry_inv (drain_line d line st)"
proof -
  have "session_sock (drain_line d line st) = session_sock st"
    by (rule session_sock_cong) (simp add: drain_line_def split: prod.splits)
  with assms logs_bounded_drain_line show ?thesis
    by (auto simp: registry_inv_def table_inv_def supervised_def entry_ok_def drain_line_def split: prod.splits)
qed

text \<open>Two entries with the same kill channel have the same name: the channel belongs to one
  supervisor.\<close>

lemma entry_kill_unique:
  assumes "registry_inv st" "find_session n st = Some e" "find_session m st = Some e'"
    and "se_kill e = se_kill e'"
  shows "n = m"
proof -
  from assms(1-3) have "entry_ok st n e" "entry_ok st m e'" and d: "distinct (map sup_kill (supervisors st))"
    by (auto simp: registry_inv_def table_inv_def supervised_def)
  then obtain s s' where "s \<in> set (supervisors st)" "s' \<in> set (supervisors st)"
    "sup_kill s = sup_kill s'" "sup_name s = n" "sup_name s' = m"
    using assms(4) by (auto simp: entry_ok_def)
  with d show ?thesis by (metis distinct_map inj_on_def)
qed

definition drop_entry :: "string \<Rightarrow> registry \<Rightarrow> registry" where
  "drop_entry n st =
     (case find_session n st of
        Some e \<Rightarrow> fire_kill (se_kill e) (st\<lparr>sessions := alist_remove n (sessions st)\<rparr>)
      | None \<Rightarrow> st)"

lemma drop_entry_simps [simp]:
  "find_session m (drop_entry n st) = (if m = n then None else find_session m st)"
  "supervisors (drop_entry n st) = supervisors st" "next_id (drop_entry n st) = next_id st"
  "state_dir (drop_entry n st) = state_dir st" "logs (drop_entry n st) = logs st"
  "set (kill_fired (drop_entry n st)) =
     (case find_session n st of Some e \<Rightarrow> set_option (se_kill e) | None \<Rightarrow> {}) \<union> set (kill_fired st)"
  "distinct (alist_keys (sessions st)) \<Longrightarrow> distinct (alist_keys (sessions (drop_entry n st)))"
  by (auto simp: drop_entry_def split: option.splits)

lemma registry_inv_drop_entry:
  assumes inv: "registry_inv st"
  shows "registry_inv (drop_entry n st)"
proof (cases "find_session n st")
  case None
  with inv show ?thesis by (simp add: drop_entry_def)
next
  case (Some e)
  let ?st = "drop_entry n st"
  have sock: "session_sock ?st = session_sock st" by (rule session_sock_cong) simp
  from inv Some have e: "entry_ok st n e" and t: "table_inv st" "supervised st" "logs_bounded st"
    by (auto simp: registry_inv_def table_inv_def)
  from e obtain k where k: "se_kill e = Some k" "k < next_id st" by (auto simp: entry_ok_def)
  have "entry_ok ?st m e'" if "find_session m st = Some e'" "m \<noteq> n" for m e'
  proof -
    have "entry_ok st m e'" using t(1) that by (simp add: table_inv_def)
    moreover have "se_kill e' \<noteq> Some k"
      using entry_kill_unique [OF inv Some that(1)] k that(2) by auto
    ultimately show ?thesis by (auto simp: entry_ok_def sock Some k)
  qed
  then have "table_inv ?st" using t(1) by (auto simp: table_inv_def split: if_splits)
  moreover have "supervised ?st"
    using t(2) k Some by (auto simp: supervised_def sock)
  ultimately show ?thesis using t(3) by (simp add: registry_inv_def logs_bounded_def)
qed

lemma same_core_unmount [simp]: "same_core st (unmount_tmpfs t st') = same_core st st'"
  by (simp add: same_core_def)

lemma same_core_retain [simp]: "same_core st (retain_tags n st') = same_core st st'"
  by (simp add: same_core_def)

lemma same_core_start_cgroup [simp]: "same_core st (start_cgroup_cleanup c st') = same_core st st'"
  by (simp add: same_core_def)

lemma destroy_drop_entry:
  assumes "find_session n st \<noteq> None"
  shows "same_core (drop_entry n st) (fst (destroy n st))"
  using assms
  by (auto simp: destroy_def drop_entry_def Let_def same_core_def sigterm_all_fold fire_kill_def
      split: option.splits)

lemma registry_inv_destroy:
  assumes "registry_inv st"
  shows "registry_inv (fst (destroy n st))"
proof (cases "find_session n st")
  case None
  with assms show ?thesis by (simp add: destroy_def)
next
  case (Some e)
  then show ?thesis
    using registry_inv_same_core [OF destroy_drop_entry] registry_inv_drop_entry [OF assms] by simp
qed

definition drop_supervisor :: "supervisor \<Rightarrow> registry \<Rightarrow> registry" where
  "drop_supervisor s st = st\<lparr>supervisors := remove1 s (supervisors st)\<rparr>"

lemma registry_inv_drop_supervisor:
  assumes inv: "registry_inv st" and s: "find_session (sup_name s) st = None"
  shows "registry_inv (drop_supervisor s st)"
proof -
  let ?st = "drop_supervisor s st"
  have sock: "session_sock ?st = session_sock st"
    by (rule session_sock_cong) (simp add: drop_supervisor_def)
  from inv have t: "table_inv st" "supervised st" "logs_bounded st"
    by (simp_all add: registry_inv_def)
  from t(2) have "distinct (supervisors st)"
    by (auto simp: supervised_def distinct_map)
  then have sups: "set (supervisors ?st) = set (supervisors st) - {s}"
    by (simp add: drop_supervisor_def)
  have d: "distinct (map sup_kill (supervisors ?st))"
    using t(2) by (simp add: drop_supervisor_def supervised_def distinct_map inj_on_diff distinct_remove1
        inj_on_def \<open>distinct (supervisors st)\<close> set_remove1_eq)
  have "entry_ok ?st m e" if "find_session m st = Some e" for m e
  proof -
    have "m \<noteq> sup_name s" using that s by auto
    moreover have "entry_ok st m e" using t(1) that by (simp add: table_inv_def)
    ultimately show ?thesis
      using sups by (auto simp: entry_ok_def sock) (auto simp: drop_supervisor_def)
  qed
  then have "table_inv ?st"
    using t(1) by (simp add: table_inv_def drop_supervisor_def)
  moreover have "supervised ?st"
    unfolding supervised_def sups sock using t(2) d by (auto simp: supervised_def drop_supervisor_def)
  ultimately show ?thesis
    using t(3) by (simp add: registry_inv_def logs_bounded_def drop_supervisor_def)
qed

lemma supervisor_finish_drop:
  "same_core (drop_supervisor s (drop_entry (sup_name s) st)) (supervisor_finish s code st)"
  by (auto simp: supervisor_finish_def drop_supervisor_def drop_entry_def Let_def same_core_def
      fire_kill_def split: option.splits prod.splits)

lemma registry_inv_supervisor:
  assumes "registry_inv st"
  shows "registry_inv (session_supervisor s wake st)"
proof -
  have fin: "registry_inv (supervisor_finish s code st')" if "registry_inv st'" for code st'
    using registry_inv_same_core [OF supervisor_finish_drop]
      registry_inv_drop_supervisor [OF registry_inv_drop_entry [OF that]] by simp
  have "registry_inv (fold effect es st)" for es
    using assms by (subst registry_inv_same_core [of st]) (simp_all add: same_core_def)
  with fin assms show ?thesis
    by (auto simp: session_supervisor_def split: supervisor_wake.splits prod.splits)
qed

lemma create_insert_cases:
  assumes "create_insert t req pr st = (st', res)"
  obtains (taken) e where "find_session (cr_name req) st = Some e"
      "st' = effect (KillChild (pr_pid pr)) st" "res = Err (AnyCreate CreateAlreadyExists)"
  | (fresh) "find_session (cr_name req) st = None"
      "sessions st' = alist_insert (cr_name req) (new_entry t req pr st) (sessions st)"
      "supervisors st' = supervisors st @ [\<lparr>sup_name = cr_name req, sup_pid = pr_pid pr,
         sup_kill = next_id st, sup_socket = session_sock st (cr_name req) ''wayland.sock''\<rparr>]"
      "next_id st' = next_id st + 3" "kill_fired st' = kill_fired st"
      "logs st' = (logs st)(next_id st + 1 := [])" "state_dir st' = state_dir st"
      "events st' = events st @ [SessionCreated (cr_name req)]"
      "res = Ok \<lparr>csr_name = cr_name req,
         csr_inner_socket_path = session_sock st (cr_name req) ''wayland.sock''\<rparr>"
  using assms by (cases "find_session (cr_name req) st") (auto simp: create_insert_def Let_def)

lemma new_entry_kill [simp]: "se_kill (new_entry t req pr st) = Some (next_id st)"
  by (simp add: new_entry_def)

lemma registry_inv_insert:
  assumes inv: "registry_inv st" and ok: "request_ok req"
    and ins: "create_insert t req pr st = (st', res)"
  shows "registry_inv st'"
  using ins
proof (cases rule: create_insert_cases)
  case taken
  then show ?thesis using inv registry_inv_same_core [of st st'] by simp
next
  case fresh
  let ?n = "cr_name req" and ?k = "next_id st" and ?e = "new_entry t req pr st"
  have sock: "session_sock st' = session_sock st" using fresh(7) by (rule session_sock_cong)
  from inv have t: "table_inv st" "supervised st" "logs_bounded st"
    by (simp_all add: registry_inv_def)
  have kf: "?k \<notin> set (kill_fired st)" using t(2) by (auto simp: supervised_def)
  have find: "find_session m st' = (if m = ?n then Some ?e else find_session m st)" for m
    using fresh(2) by simp
  have "entry_ok st' ?n ?e"
    using ok kf by (simp add: entry_ok_def new_entry_def request_ok_def sock fresh(3,4,5))
  moreover have "entry_ok st' m e" if "find_session m st = Some e" for m e
  proof -
    have "entry_ok st m e" using t(1) that by (simp add: table_inv_def)
    then show ?thesis by (fastforce simp: entry_ok_def sock fresh(3,4,5))
  qed
  ultimately have "table_inv st'"
    using t(1) find fresh(2) by (auto simp: table_inv_def split: if_splits)
  moreover have "supervised st'"
    using t(2) ok fresh(1) find
    by (fastforce simp: supervised_def sock fresh(3,4,5) request_ok_def)
  moreover have "logs_bounded st'"
    using t(3) by (simp add: logs_bounded_def fresh(6))
  ultimately show ?thesis by (simp add: registry_inv_def)
qed

lemma create_check_ok: "create_check req st = Ok () \<Longrightarrow> request_ok req"
  by (auto simp: create_check_def request_ok_def split: if_splits)

lemma system_inv_new: "system_inv (system_new dir bin)"
  by (simp add: system_inv_def system_new_def registry_new_def registry_inv_def table_inv_def
      supervised_def logs_bounded_def)

lemma list_all_remove1: "list_all P xs \<Longrightarrow> list_all P (remove1 x xs)"
  by (auto simp: list_all_iff dest: notin_set_remove1 set_remove1_subset [THEN subsetD])

lemma system_inv_step:
  assumes "step s s'" "system_inv s"
  shows "system_inv s'"
  using assms
proof (cases rule: step.cases)
  case (Check req)
  with assms(2) create_check_ok show ?thesis by (auto simp: system_inv_def)
next
  case (PrepareOk req io denv r pr)
  with assms(2) have "registry_inv r"
    using registry_inv_same_core [OF same_core_create_prepare] by (auto simp: system_inv_def)
  with PrepareOk assms(2) show ?thesis by (auto simp: system_inv_def list_all_remove1 list_all_iff)
next
  case (PrepareErr req io denv r e)
  with assms(2) have "registry_inv r"
    using registry_inv_same_core [OF same_core_create_prepare] by (auto simp: system_inv_def)
  with PrepareErr assms(2) show ?thesis by (auto simp: system_inv_def list_all_remove1)
next
  case (Insert req pr t r res)
  with assms(2) have "registry_inv r"
    by (intro registry_inv_insert [of "reg s" req t pr r res]) (auto simp: system_inv_def list_all_iff)
  with Insert assms(2) show ?thesis by (auto simp: system_inv_def list_all_remove1)
next
  case (Spawn_start spawned denv n argv uenv r pid compositor)
  with assms(2) have "registry_inv r"
    using registry_inv_same_core [OF same_core_spawn_start] by (auto simp: system_inv_def)
  with Spawn_start assms(2) show ?thesis by (auto simp: system_inv_def)
next
  case (Spawn_finish n pid compositor)
  have "same_core (register_child n pid compositor (reg s)) (spawn_finish n pid compositor (reg s))"
    by (simp add: spawn_finish_def Let_def same_core_def)
  from registry_inv_same_core [OF this] registry_inv_register_child Spawn_finish assms(2)
  show ?thesis by (auto simp: system_inv_def)
next
  case (Cgroup g answers)
  with assms(2) registry_inv_same_core [OF same_core_cgroup_cleanup] show ?thesis
    by (auto simp: system_inv_def)
next
  case (Tag_store n w ts)
  with assms(2) registry_inv_same_core [OF same_core_store_tags] show ?thesis
    by (auto simp: system_inv_def)
qed (auto simp: system_inv_def registry_inv_destroy registry_inv_supervisor registry_inv_child_exited
    registry_inv_drain_line registry_inv_attach registry_inv_detach registry_inv_resize)

lemma reachable_inv: "reachable dir bin s \<Longrightarrow> system_inv s"
  by (induction rule: reachable.induct) (auto simp: system_inv_new intro: system_inv_step)

lemma state_dir_destroy [simp]: "state_dir (fst (destroy n st)) = state_dir st"
  by (simp add: destroy_def Let_def sigterm_all_fold split: option.splits)

lemma state_dir_supervisor [simp]: "state_dir (session_supervisor sv wake st) = state_dir st"
proof -
  have "state_dir (supervisor_finish sv c st') = state_dir st'" for c st'
    using supervisor_finish_drop [of sv st' c] by (simp add: same_core_def drop_supervisor_def)
  then show ?thesis by (simp add: session_supervisor_def split: supervisor_wake.splits prod.splits)
qed

lemma step_state_dir:
  assumes "step s s'"
  shows "state_dir (reg s') = state_dir (reg s)"
  using assms
proof (cases rule: step.cases)
  case (PrepareOk req io denv r pr)
  with same_core_create_prepare show ?thesis by (auto simp: same_core_def)
next
  case (PrepareErr req io denv r e)
  with same_core_create_prepare show ?thesis by (auto simp: same_core_def)
next
  case (Insert req pr t r res)
  from Insert(3) have "state_dir r = state_dir (reg s)" by (cases rule: create_insert_cases) simp_all
  with Insert show ?thesis by simp
next
  case (Spawn_start spawned denv n argv uenv r pid compositor)
  with same_core_spawn_start show ?thesis by (auto simp: same_core_def)
next
  case (Cgroup g answers)
  with same_core_cgroup_cleanup show ?thesis by (auto simp: same_core_def)
qed (auto simp: spawn_finish_def register_child_def child_exited_def drain_line_def attach_def detach_def
    update_meta_def apply_resize_def store_tags_def Let_def split: option.splits prod.splits)

lemma reachable_state_dir: "reachable dir bin s \<Longrightarrow> state_dir (reg s) = dir"
  by (induction rule: reachable.induct) (simp_all add: system_new_def registry_new_def step_state_dir)

section \<open>Lemmas: runs that exist\<close>

text \<open>A \<open>create\<close> the operating system answers favourably, without optional resources.\<close>

definition good_io :: create_io where
  "good_io = \<lparr>io_mkdir = True, io_mount = False, io_exists = (\<lambda>_. False), io_bind_ready = True,
     io_bind_events = True, io_spawn = Some (Some 100), io_outcome = Ready, io_stderr = [],
     io_cgroup = False, io_created_at = 0\<rparr>"

lemma create_prepare_good:
  "\<exists>st'. create_prepare good_io denv req st = (st', Ok \<lparr>pr_pid = 100, pr_tmpfs = None, pr_cgroup = None\<rparr>)
    \<and> tags st' = tags st"
  by (auto simp: create_prepare_def good_io_def mount_tmpfs_def make_cgroup_def remove_stale_def
      set_fd_limit_def Let_def split: option.splits)

lemma run_create:
  assumes "reachable dir bin s" "request_ok req" "find_session (cr_name req) (reg s) = None"
  shows "\<exists>s' e. reachable dir bin s' \<and> find_session (cr_name req) (reg s') = Some e
    \<and> se_kill e = Some (next_id (reg s)) \<and> set (supervisors (reg s)) \<subseteq> set (supervisors (reg s'))
    \<and> kill_fired (reg s') = kill_fired (reg s)"
proof -
  let ?pr = "\<lparr>pr_pid = 100, pr_tmpfs = None, pr_cgroup = None\<rparr>"
  let ?s1 = "s\<lparr>creating := creating s @ [req]\<rparr>"
  have "create_check req (reg s) = Ok ()"
    using assms(2,3) by (simp add: create_check_def request_ok_def)
  then have r1: "reachable dir bin ?s1" using assms(1) step.Check reachable.reach_step by blast
  obtain r where r: "create_prepare good_io [] req (reg s) = (r, Ok ?pr)"
    using create_prepare_good by blast
  let ?s2 = "?s1\<lparr>reg := r, creating := remove1 req (creating ?s1), inserting := inserting ?s1 @ [(req, ?pr)]\<rparr>"
  have "step ?s1 ?s2" by (rule step.PrepareOk [of req _ good_io "[]"]) (simp_all add: r)
  with r1 have r2: "reachable dir bin ?s2" by (rule reachable.reach_step)
  obtain r' res where r': "create_insert 0 req ?pr r = (r', res)" by fastforce
  let ?s3 = "?s2\<lparr>reg := r', inserting := remove1 (req, ?pr) (inserting ?s2)\<rparr>"
  have "step ?s2 ?s3" by (rule step.Insert [of req ?pr _ 0 r' res]) (simp_all add: r')
  with r2 have r3: "reachable dir bin ?s3" by (rule reachable.reach_step)
  have core: "same_core (reg s) r" using r by (rule same_core_create_prepare)
  with assms(3) have none: "find_session (cr_name req) r = None" by (simp add: same_core_def)
  from r' have "find_session (cr_name req) r' = Some (new_entry 0 req ?pr r)
      \<and> set (supervisors r) \<subseteq> set (supervisors r') \<and> kill_fired r' = kill_fired r"
    by (cases rule: create_insert_cases) (use none in auto)
  with core r3 show ?thesis
    by (intro exI [of _ ?s3] exI [of _ "new_entry 0 req ?pr r"]) (auto simp: same_core_def)
qed

lemma run_destroy:
  assumes "reachable dir bin s" "find_session n (reg s) = Some e"
  shows "\<exists>s'. reachable dir bin s' \<and> find_session n (reg s') = None
    \<and> supervisors (reg s') = supervisors (reg s) \<and> next_id (reg s') = next_id (reg s)
    \<and> set (kill_fired (reg s')) = set_option (se_kill e) \<union> set (kill_fired (reg s))"
proof -
  let ?s' = "s\<lparr>reg := fst (destroy n (reg s))\<rparr>"
  have "reachable dir bin ?s'" using assms(1) step.Destroy by (rule reachable.reach_step)
  moreover have "same_core (drop_entry n (reg s)) (reg ?s')"
    using destroy_drop_entry assms(2) by simp
  then have "find_session n (reg ?s') = find_session n (drop_entry n (reg s))"
      "supervisors (reg ?s') = supervisors (reg s)" "next_id (reg ?s') = next_id (reg s)"
      "set (kill_fired (reg ?s')) = set (kill_fired (drop_entry n (reg s)))"
    by (simp_all add: same_core_def)
  ultimately show ?thesis using assms(2) by (intro exI [of _ ?s']) simp
qed

section \<open>Properties\<close>

text \<open>C1: In every state the daemon can reach, under any interleaving of requests,
  supervisors, waiters and drainers: names in the table are unique, valid and those of
  their entries; output sizes are between 1 and 16384; a recorded compositor is one of
  the session's children; every session has a live supervisor whose kill channel has not
  fired; every supervisor without a session has been told to stop; no log ring exceeds
  its capacity.\<close>

theorem reachable_registry_inv:
  assumes "reachable dir bin s"
  shows "registry_inv (reg s)"
  using reachable_inv [OF assms] by (simp add: system_inv_def)

lemma sample_request_ok: "request_ok sample_request"
  by (simp add: request_ok_def sample_request_def validate_session_name_def validate_output_size_def
      is_ascii_alphanumeric_def MAX_OUTPUT_DIMENSION_def)

lemma sample_run:
  "\<exists>s e. reachable ''/run'' ''bin'' s \<and> find_session ''a'' (reg s) = Some e"
proof -
  have "find_session (cr_name sample_request) (reg (system_new ''/run'' ''bin'')) = None"
    by (simp add: system_new_def registry_new_def)
  from run_create [OF reachable.reach_new sample_request_ok this] show ?thesis
    by (auto simp: sample_request_def)
qed

theorem reachable_registry_inv_witness:
  "\<exists>s e. reachable ''/run'' ''bin'' s \<and> find_session ''a'' (reg s) = Some e \<and> registry_inv (reg s)"
  using sample_run reachable_registry_inv by blast

text \<open>C6: The daemon's recursive delete stays inside its state directory. Whenever a supervisor
  finishes, the directory it removes is the state directory, a slash, and a name that is
  not empty, contains no slash and does not start with a dot, so it is a proper child
  and not \<open>.\<close> or \<open>..\<close>.\<close>

theorem supervisor_deletes_own_dir:
  assumes "reachable dir bin s" "sv \<in> set (supervisors (reg s))" "dir \<noteq> []" "last dir \<noteq> CHR ''/''"
  shows "RemoveDirAll (dir @ ''/'' @ sup_name sv) \<in> set (effects (supervisor_finish sv code (reg s)))
    \<and> path_parent (sup_socket sv) = dir @ ''/'' @ sup_name sv
    \<and> sup_name sv \<noteq> [] \<and> CHR ''/'' \<notin> set (sup_name sv) \<and> hd (sup_name sv) \<noteq> CHR ''.''"
proof -
  have inv: "registry_inv (reg s)" using reachable_inv [OF assms(1)] by (simp add: system_inv_def)
  then have sv: "validate_session_name (sup_name sv) = Ok ()"
      "sup_socket sv = session_sock (reg s) (sup_name sv) ''wayland.sock''"
    using assms(2) by (auto simp: registry_inv_def supervised_def)
  note nm = validate_session_name_ok [OF sv(1)]
  have d: "session_dir (reg s) (sup_name sv) = dir @ ''/'' @ sup_name sv"
    using reachable_state_dir [OF assms(1)] assms(3,4) nm(3)
    by (simp add: session_dir_def path_join_plain)
  have "last (sup_name sv) \<noteq> CHR ''/''" using nm(1,3) last_in_set by metis
  then have "path_parent (sup_socket sv) = dir @ ''/'' @ sup_name sv"
    unfolding sv(2) session_sock_def d
    by (intro path_parent_join) (use nm in \<open>auto simp: last_append\<close>)
  with nm show ?thesis
    by (auto simp: supervisor_finish_def Let_def split: prod.splits)
qed

theorem supervisor_deletes_own_dir_witness:
  "\<exists>s sv. reachable ''/run'' ''bin'' s \<and> sv \<in> set (supervisors (reg s))
     \<and> RemoveDirAll (''/run'' @ ''/'' @ sup_name sv) \<in> set (effects (supervisor_finish sv 0 (reg s)))"
proof -
  obtain s e where s: "reachable ''/run'' ''bin'' s" "find_session ''a'' (reg s) = Some e"
    using sample_run by blast
  then have "entry_ok (reg s) ''a'' e"
    using reachable_inv [OF s(1)] by (auto simp: system_inv_def registry_inv_def table_inv_def)
  then obtain sv where "sv \<in> set (supervisors (reg s))" by (auto simp: entry_ok_def)
  with supervisor_deletes_own_dir [OF s(1) this, of 0] s(1) show ?thesis by auto
qed

text \<open>While a session stays in the table it stays the same session: no interleaving
  replaces an entry under its name by another one. In particular two concurrent
  \<open>create\<close> calls cannot both succeed for one name.\<close>

theorem session_identity_stable:
  assumes "reachable dir bin s" "step s s'"
    and "find_session n (reg s) = Some e" "find_session n (reg s') = Some e'"
  shows "se_kill e' = se_kill e \<and> se_log e' = se_log e \<and> se_conn e' = se_conn e
    \<and> sm_pid (se_meta e') = sm_pid (se_meta e) \<and> sm_created_at (se_meta e') = sm_created_at (se_meta e)"
  using assms(2)
proof (cases rule: step.cases)
  case (PrepareOk req io denv r pr)
  with same_core_create_prepare assms(3,4) show ?thesis by (auto simp: same_core_def)
next
  case (PrepareErr req io denv r e)
  with same_core_create_prepare assms(3,4) show ?thesis by (auto simp: same_core_def)
next
  case (Insert req pr t r res)
  from Insert(3) show ?thesis
    by (cases rule: create_insert_cases) (use assms(3,4) Insert(1) in \<open>auto split: if_splits\<close>)
next
  case (Destroy m)
  show ?thesis
  proof (cases "find_session m (reg s) = None")
    case True
    with Destroy assms(3,4) show ?thesis by (simp add: destroy_def)
  next
    case False
    from destroy_drop_entry [OF False] have "sessions (reg s') = sessions (drop_entry m (reg s))"
      using Destroy by (simp add: same_core_def)
    with assms(3,4) drop_entry_simps(1) [where m = n and n = m and st = "reg s"] show ?thesis by (simp split: if_splits)
  qed
next
  case (Supervise_exit sv status)
  have "sessions (reg s') = sessions (drop_entry (sup_name sv) (reg s))"
    using supervisor_finish_drop Supervise_exit
    by (simp add: session_supervisor_def same_core_def drop_supervisor_def)
  with assms(3,4) drop_entry_simps(1) [where m = n and n = "sup_name sv" and st = "reg s"] show ?thesis by (simp split: if_splits)
next
  case (Supervise_kill sv a1 a2)
  obtain es where "sessions (reg s') = sessions (drop_entry (sup_name sv) (fold effect es (reg s)))"
    using supervisor_finish_drop Supervise_kill
    by (auto simp: session_supervisor_def same_core_def drop_supervisor_def split: prod.splits)
  with assms(3,4) drop_entry_simps(1) [where m = n and n = "sup_name sv" and st = "fold effect es (reg s)"] show ?thesis
    by (simp split: if_splits)
next
  case (Spawn_start spawned denv n argv uenv r pid compositor)
  with same_core_spawn_start assms(3,4) show ?thesis by (auto simp: same_core_def)
next
  case (Cgroup g answers)
  with same_core_cgroup_cleanup [of "reg s"] assms(3,4) show ?thesis by (auto simp: same_core_def)
qed (use assms(3,4) in \<open>auto simp: spawn_finish_def register_child_def child_exited_def drain_line_def
    attach_def detach_def update_meta_def apply_resize_def store_tags_def Let_def
    split: option.splits prod.splits if_splits\<close>)

theorem session_identity_stable_witness:
  "\<exists>s e. reachable ''/run'' ''bin'' s \<and> find_session ''a'' (reg s) = Some e
     \<and> (\<forall>e'. find_session ''a'' (fst (attach ''a'' (reg s))) = Some e' \<longrightarrow> se_kill e' = se_kill e)
     \<and> find_session ''a'' (fst (attach ''a'' (reg s))) \<noteq> None"
proof -
  obtain s e where s: "reachable ''/run'' ''bin'' s" "find_session ''a'' (reg s) = Some e"
    using sample_run by blast
  have "find_session ''a'' (fst (attach ''a'' (reg s))) \<noteq> None"
    using s(2) by (simp add: attach_def update_meta_def)
  moreover have "se_kill e' = se_kill e" if "find_session ''a'' (fst (attach ''a'' (reg s))) = Some e'" for e'
    using session_identity_stable [OF s(1) step.Attach_s [of s "''a''"] s(2)] that by simp
  ultimately show ?thesis using s by blast
qed

text \<open>C4: A supervisor that outlives its session takes the next session of the same name down
  with it. If a name was destroyed and created again before the old supervisor finished,
  the old supervisor can run at once; it removes the new session from the table, deletes
  the directory with the new session's sockets, and fires the new session's kill channel,
  so the new supervisor may stop a process nobody asked to stop.\<close>

theorem stale_supervisor_removes_successor:
  assumes "reachable dir bin s" "sv \<in> set (supervisors (reg s))"
    and "find_session (sup_name sv) (reg s) = Some e" "se_kill e = Some k" "k \<noteq> sup_kill sv"
  shows "\<exists>s'. step s s' \<and> find_session (sup_name sv) (reg s') = None \<and> k \<in> set (kill_fired (reg s'))
    \<and> RemoveDirAll (path_parent (sup_socket sv)) \<in> set (effects (reg s'))
    \<and> path_parent (sup_socket sv) = path_parent (sm_inner_socket (se_meta e))
    \<and> (\<exists>sv' \<in> set (supervisors (reg s')). sup_kill sv' = k)"
proof -
  let ?r = "session_supervisor sv (KillReceived (Some None) None) (reg s)"
  have inv: "registry_inv (reg s)" using reachable_inv [OF assms(1)] by (simp add: system_inv_def)
  then have sv: "sup_kill sv \<in> set (kill_fired (reg s))"
      "sup_socket sv = session_sock (reg s) (sup_name sv) ''wayland.sock''"
    using assms(2-5) by (auto simp: registry_inv_def supervised_def)
  have eok: "entry_ok (reg s) (sup_name sv) e"
    using inv assms(3) by (simp add: registry_inv_def table_inv_def)
  then obtain sv' where sv': "sv' \<in> set (supervisors (reg s))" "sup_kill sv' = k"
    using assms(4) by (auto simp: entry_ok_def)
  obtain es where r: "?r = supervisor_finish sv (-1) (fold effect es (reg s))"
    by (auto simp: session_supervisor_def split: prod.splits) (simp add: shutdown_child_def)
  have core: "same_core (drop_supervisor sv (drop_entry (sup_name sv) (fold effect es (reg s)))) ?r"
    unfolding r by (rule supervisor_finish_drop)
  have "step s (s\<lparr>reg := ?r\<rparr>)" using assms(2) sv(1) by (rule step.Supervise_kill)
  moreover have "find_session (sup_name sv) ?r = None" "k \<in> set (kill_fired ?r)"
    "sv' \<in> set (supervisors ?r)"
  proof -
    have "sv' \<noteq> sv" using sv'(2) assms(5) by auto
    then show "find_session (sup_name sv) ?r = None" "k \<in> set (kill_fired ?r)" "sv' \<in> set (supervisors ?r)"
      using core assms(3,4) sv'(1) by (simp_all add: same_core_def drop_supervisor_def in_set_remove1)
  qed
  moreover have "RemoveDirAll (path_parent (sup_socket sv)) \<in> set (effects ?r)"
    unfolding r by (auto simp: supervisor_finish_def Let_def split: prod.splits)
  moreover have "path_parent (sup_socket sv) = path_parent (sm_inner_socket (se_meta e))"
    using sv(2) eok by (simp add: entry_ok_def)
  ultimately show ?thesis using sv'(2) by (intro exI [of _ "s\<lparr>reg := ?r\<rparr>"]) auto
qed

theorem stale_supervisor_removes_successor_witness:
  "\<exists>s s' e. \<exists>sv :: supervisor. reachable ''/run'' ''bin'' s \<and> find_session ''a'' (reg s) = Some e
     \<and> sup_name sv = ''a'' \<and> Some (sup_kill sv) \<noteq> se_kill e
     \<and> step s s' \<and> find_session ''a'' (reg s') = None"
proof -
  let ?s0 = "system_new ''/run'' ''bin''"
  have n: "cr_name sample_request = ''a''" by (simp add: sample_request_def)
  have "find_session (cr_name sample_request) (reg ?s0) = None"
    by (simp add: system_new_def registry_new_def)
  from run_create [OF reachable.reach_new sample_request_ok this] obtain s1 e1 where
    s1: "reachable ''/run'' ''bin'' s1" "find_session ''a'' (reg s1) = Some e1"
    unfolding n by blast
  then have "entry_ok (reg s1) ''a'' e1" and lt: "supervised (reg s1)"
    using reachable_inv [OF s1(1)] by (auto simp: system_inv_def registry_inv_def table_inv_def)
  then obtain sv where sv: "sv \<in> set (supervisors (reg s1))" "sup_name sv = ''a''"
    by (auto simp: entry_ok_def)
  with lt have "sup_kill sv < next_id (reg s1)" by (simp add: supervised_def)
  moreover obtain s2 where s2: "reachable ''/run'' ''bin'' s2" "find_session ''a'' (reg s2) = None"
      "supervisors (reg s2) = supervisors (reg s1)" "next_id (reg s2) = next_id (reg s1)"
    using run_destroy [OF s1] by blast
  moreover obtain s3 e3 where s3: "reachable ''/run'' ''bin'' s3" "find_session ''a'' (reg s3) = Some e3"
      "se_kill e3 = Some (next_id (reg s2))" "set (supervisors (reg s2)) \<subseteq> set (supervisors (reg s3))"
    using run_create [OF s2(1) sample_request_ok] s2(2) unfolding n by blast
  ultimately have old: "sv \<in> set (supervisors (reg s3))" "next_id (reg s2) \<noteq> sup_kill sv"
    using sv(1) by auto
  have "find_session (sup_name sv) (reg s3) = Some e3" using s3(2) sv(2) by simp
  from stale_supervisor_removes_successor [OF s3(1) old(1) this s3(3) old(2)]
  obtain s' where "step s3 s'" "find_session ''a'' (reg s') = None" using sv(2) by auto
  moreover have "Some (sup_kill sv) \<noteq> se_kill e3" using s3(3) old(2) by simp
  ultimately show ?thesis
    using s3(1,2) sv(2) by blast
qed

text \<open>Tags can outlive their session: a \<open>tag_window\<close> that checked the window before a
  \<open>destroy\<close> stores the tags after it, and they stay in the store under a name that is not
  in the table, where the next session of that name finds them.\<close>

theorem tag_survives_destroy:
  assumes "reachable dir bin s" "find_session n (reg s) = Some e"
  shows "\<exists>s'. reachable dir bin s' \<and> find_session n (reg s') = None
    \<and> map_of (tags (reg s')) (n, w) = Some ts"
proof -
  let ?s1 = "s\<lparr>tagging := tagging s @ [(n, w, ts)]\<rparr>"
  let ?s2 = "?s1\<lparr>reg := fst (destroy n (reg ?s1))\<rparr>"
  let ?s3 = "?s2\<lparr>reg := store_tags n w ts (reg ?s2), tagging := remove1 (n, w, ts) (tagging ?s2)\<rparr>"
  have "reachable dir bin ?s1"
    using assms by (intro reachable.reach_step [OF assms(1)] step.Tag_start) simp
  then have "reachable dir bin ?s2" by (rule reachable.reach_step) (rule step.Destroy)
  then have "reachable dir bin ?s3" by (rule reachable.reach_step) (rule step.Tag_store, simp)
  moreover have "find_session n (reg ?s3) = None"
    using destroy_drop_entry [where n = n and st = "reg s"] assms(2) drop_entry_simps(1) [where m = n and n = n and st = "reg s"]
    by (simp add: same_core_def store_tags_def)
  ultimately show ?thesis by (intro exI [of _ ?s3]) (simp add: store_tags_def)
qed

theorem tag_survives_destroy_witness:
  "\<exists>s'. reachable ''/run'' ''bin'' s' \<and> find_session ''a'' (reg s') = None
     \<and> map_of (tags (reg s')) (''a'', 1) = Some [''main'']"
  using sample_run tag_survives_destroy by blast

end
