(* ===== verification/Registry_Rpc.thy ===== *)
theory Registry_Rpc
  imports Registry_Steps
begin

text \<open>
  The operations of \<open>waymux-daemon/src/registry.rs\<close> that ask the session process over its
  control socket. \<open>session_control\<close> keeps one connection per session in a slot, uses it
  again, and on a failure reconnects once and sends the request again. \<open>io\<close> holds what
  the sockets do: for each attempt whether the write succeeds and what the peer sends
  back. The arguments \<open>wn\<close> and \<open>de\<close> are the serialisation library's writer and reader,
  as in \<open>Codec\<close>. A write that is attempted is recorded as the effect \<open>CtlWrite\<close>.
\<close>

section \<open>One call\<close>

record rpc_io =
  rpc_reuse :: "bool \<times> instream"
  rpc_connect :: "(nat, string) result"
  rpc_fresh :: "bool \<times> instream"

type_synonym ctl_writer = "session_ctl_request \<Rightarrow> bytes \<times> string option"
type_synonym ctl_reader = "bytes \<Rightarrow> (session_ctl_response, string) result"

text \<open>The inner function \<open>rpc\<close>: write the frame, read a length and a payload.\<close>

definition rpc :: "bool \<times> instream \<Rightarrow> (bytes, string) result" where
  "rpc a =
     (if \<not> fst a then Err ''write session-ctl request''
      else case read_exact 4 (fst (snd a)) of
             None \<Rightarrow> Err ''read session-ctl response length''
           | Some (len_buf, rest) \<Rightarrow>
               let len = of_be_bytes len_buf
               in if len > MAX_FRAME_SIZE then Err (''session-ctl response too large: '' @ dec_str len)
                  else case read_exact len rest of
                         None \<Rightarrow> Err ''read session-ctl response''
                       | Some (payload, _) \<Rightarrow> Ok (len_buf @ payload))"

definition set_conn :: "nat \<Rightarrow> nat option \<Rightarrow> registry \<Rightarrow> registry" where
  "set_conn slot c st = st\<lparr>conns := (conns st)(slot := c)\<rparr>"

definition decode_ctl :: "ctl_reader \<Rightarrow> bytes \<Rightarrow> (session_ctl_response, anyhow) result" where
  "decode_ctl de payload = map_err (\<lambda>_. AnyText ''decode session-ctl response'') (decode_frame de payload)"

text \<open>The first attempt, on the cached connection if there is one; \<open>None\<close> when the call has to
  go on to a fresh connection.\<close>

definition rpc_cached ::
    "rpc_io \<Rightarrow> nat \<Rightarrow> bytes \<Rightarrow> registry \<Rightarrow> registry \<times> bytes option" where
  "rpc_cached io slot buf st =
     (case conns st slot of
        None \<Rightarrow> (st, None)
      | Some c \<Rightarrow>
          let st = effect (CtlWrite c buf) st
          in case rpc (rpc_reuse io) of
               Ok payload \<Rightarrow> (st, Some payload)
             | Err _ \<Rightarrow> (set_conn slot None st, None))"

definition rpc_reconnect ::
    "ctl_reader \<Rightarrow> rpc_io \<Rightarrow> nat \<Rightarrow> bytes \<Rightarrow> registry \<Rightarrow> registry \<times> (session_ctl_response, anyhow) result" where
  "rpc_reconnect de io slot buf st =
     (case rpc_connect io of
        Err m \<Rightarrow> (st, Err (AnyText m))
      | Ok c \<Rightarrow>
          let st = effect (CtlWrite c buf) (set_conn slot (Some c) st)
          in case rpc (rpc_fresh io) of
               Err m \<Rightarrow> (set_conn slot None st, Err (AnyText m))
             | Ok payload \<Rightarrow> (st, decode_ctl de payload))"

definition session_control ::
    "ctl_writer \<Rightarrow> ctl_reader \<Rightarrow> rpc_io \<Rightarrow> string \<Rightarrow> session_ctl_method \<Rightarrow> registry
      \<Rightarrow> registry \<times> (session_ctl_response, anyhow) result" where
  "session_control wn de io n meth st =
     (case find_session n st of
        None \<Rightarrow> (st, Err (AnySessionControl SessionControlNotFound))
      | Some e \<Rightarrow>
          let slot = se_conn e
          in case encode_frame wn \<lparr>ctl_id = 1, ctl_method = meth\<rparr> [] of
               (_, Err _) \<Rightarrow> (st, Err (AnyText ''encode session-ctl request''))
             | (buf, Ok _) \<Rightarrow>
                 (case rpc_cached io slot buf st of
                    (st, Some payload) \<Rightarrow> (st, decode_ctl de payload)
                  | (st, None) \<Rightarrow> rpc_reconnect de io slot buf st))"

section \<open>The calls built on it\<close>

definition ctl_error :: "session_ctl_response \<Rightarrow> string" where
  "ctl_error r = (case ctlr_error r of Some m \<Rightarrow> m | None \<Rightarrow> ''unknown'')"

text \<open>Every call checks \<open>ok\<close> first, with its own error type, and then reads the result.\<close>

definition ctl_call ::
    "ctl_writer \<Rightarrow> ctl_reader \<Rightarrow> rpc_io \<Rightarrow> string \<Rightarrow> session_ctl_method \<Rightarrow> (string \<Rightarrow> anyhow)
      \<Rightarrow> (session_ctl_response \<Rightarrow> ('r, anyhow) result) \<Rightarrow> registry \<Rightarrow> registry \<times> ('r, anyhow) result" where
  "ctl_call wn de io n meth fail k st =
     (case session_control wn de io n meth st of
        (st, Err e) \<Rightarrow> (st, Err e)
      | (st, Ok resp) \<Rightarrow>
          (st, if \<not> ctlr_ok resp then Err (fail (ctl_error resp)) else k resp))"

abbreviation call_failed :: "string \<Rightarrow> anyhow" where
  "call_failed m \<equiv> AnySessionControl (SessionControlFailed m)"

definition as_result :: "string \<Rightarrow> (ctl_result \<Rightarrow> 'r option) \<Rightarrow> session_ctl_response \<Rightarrow> ('r, anyhow) result" where
  "as_result what as resp =
     map_err (\<lambda>m. AnyText (''decode '' @ what @ '': '' @ m)) (ctl_decode_result as resp)"

definition merge_tags :: "string \<Rightarrow> registry \<Rightarrow> window_info list \<Rightarrow> window_info list" where
  "merge_tags n st ws =
     map (\<lambda>w. case map_of (tags st) (n, wi_id w) of Some t \<Rightarrow> w\<lparr>wi_tags := t\<rparr> | None \<Rightarrow> w) ws"

fun as_windows :: "ctl_result \<Rightarrow> window_info list option" where
  "as_windows (CtlWindows ws) = Some ws" | "as_windows _ = None"
fun as_info :: "ctl_result \<Rightarrow> session_ctl_info option" where
  "as_info (CtlInfoResult i) = Some i" | "as_info _ = None"
fun as_screenshot :: "ctl_result \<Rightarrow> session_ctl_screenshot option" where
  "as_screenshot (CtlScreenshotResult i) = Some i" | "as_screenshot _ = None"
fun as_record_started :: "ctl_result \<Rightarrow> session_ctl_record_started option" where
  "as_record_started (CtlRecordStarted i) = Some i" | "as_record_started _ = None"
fun as_record_status :: "ctl_result \<Rightarrow> record_status_response option" where
  "as_record_status (CtlRecordStatusResult i) = Some i" | "as_record_status _ = None"
fun as_viewer_started :: "ctl_result \<Rightarrow> string option" where
  "as_viewer_started (CtlViewerStarted i) = Some i" | "as_viewer_started _ = None"
fun as_viewer_status :: "ctl_result \<Rightarrow> string option option" where
  "as_viewer_status (CtlViewerStatusResult i) = Some i" | "as_viewer_status _ = None"

definition list_windows ::
    "ctl_writer \<Rightarrow> ctl_reader \<Rightarrow> rpc_io \<Rightarrow> string \<Rightarrow> registry \<Rightarrow> registry \<times> (window_info list, anyhow) result" where
  "list_windows wn de io n st =
     (case ctl_call wn de io n CtlListWindows call_failed (as_result ''list_windows'' as_windows) st of
        (st, Err e) \<Rightarrow> (st, Err e)
      | (st, Ok ws) \<Rightarrow> (st, Ok (merge_tags n st ws)))"

definition resize ::
    "ctl_writer \<Rightarrow> ctl_reader \<Rightarrow> rpc_io \<Rightarrow> string \<Rightarrow> u32 \<Rightarrow> u32 \<Rightarrow> registry \<Rightarrow> registry \<times> (unit, anyhow) result" where
  "resize wn de io n width height st =
     (if validate_output_size width height \<noteq> Ok ()
      then (st, Err (AnyResize (ResizeRejectedErr
              (''width and height must each be between 1 and '' @ dec_str (unat MAX_OUTPUT_DIMENSION)
               @ '' pixels (got '' @ dec_str (unat width) @ ''x'' @ dec_str (unat height) @ '')''))))
      else case ctl_call wn de io n (CtlResize width height) (\<lambda>m. AnyResize (ResizeRejectedErr m)) (\<lambda>_. Ok ()) st of
             (st, Err e) \<Rightarrow> (st, Err e)
           | (st, Ok _) \<Rightarrow> (apply_resize n width height st, Ok ()))"

definition screenshot ::
    "ctl_writer \<Rightarrow> ctl_reader \<Rightarrow> rpc_io \<Rightarrow> string \<Rightarrow> u32 \<Rightarrow> registry \<Rightarrow> registry \<times> (session_ctl_screenshot, anyhow) result" where
  "screenshot wn de io n window_id st =
     ctl_call wn de io n (CtlScreenshot window_id) (\<lambda>m. AnyScreenshot (ScreenshotFailed m))
       (as_result ''screenshot'' as_screenshot) st"

definition screenshot_desktop ::
    "ctl_writer \<Rightarrow> ctl_reader \<Rightarrow> rpc_io \<Rightarrow> string \<Rightarrow> registry \<Rightarrow> registry \<times> (session_ctl_screenshot, anyhow) result" where
  "screenshot_desktop wn de io n st =
     ctl_call wn de io n CtlScreenshotDesktop (\<lambda>m. AnyScreenshot (ScreenshotFailed m))
       (as_result ''screenshot_desktop'' as_screenshot) st"

text \<open>The calls that only report success.\<close>

definition unit_call ::
    "ctl_writer \<Rightarrow> ctl_reader \<Rightarrow> rpc_io \<Rightarrow> string \<Rightarrow> session_ctl_method \<Rightarrow> registry \<Rightarrow> registry \<times> (unit, anyhow) result" where
  "unit_call wn de io n meth st = ctl_call wn de io n meth call_failed (\<lambda>_. Ok ()) st"

definition inject_pointer where
  "inject_pointer wn de io n x y button state axis_x axis_y window_id content st =
     unit_call wn de io n (CtlInjectPointer x y button state axis_x axis_y window_id content) st"

definition inject_touch where
  "inject_touch wn de io n i x y phase window_id content st =
     unit_call wn de io n (CtlInjectTouch i x y phase window_id content) st"

definition inject_key where
  "inject_key wn de io n keycode state modifiers st =
     unit_call wn de io n (CtlInjectKey keycode state modifiers) st"

definition inject_batch where
  "inject_batch wn de io n ops st = unit_call wn de io n (CtlInjectBatch ops) st"

definition record_start where
  "record_start wn de io n path codec secondary mode min_fps st =
     ctl_call wn de io n (CtlRecordStart path codec secondary mode min_fps) call_failed
       (as_result ''record_start'' as_record_started) st"

definition record_stop where
  "record_stop wn de io n st = unit_call wn de io n CtlRecordStop st"

definition record_status where
  "record_status wn de io n st =
     ctl_call wn de io n CtlRecordStatus call_failed (as_result ''record_status'' as_record_status) st"

definition viewer_start where
  "viewer_start wn de io n bind port st =
     ctl_call wn de io n (CtlViewerStart bind port) call_failed (as_result ''viewer_start'' as_viewer_started) st"

definition viewer_stop where
  "viewer_stop wn de io n st = unit_call wn de io n CtlViewerStop st"

definition viewer_status where
  "viewer_status wn de io n st =
     ctl_call wn de io n CtlViewerStatus call_failed (as_result ''viewer_status'' as_viewer_status) st"

definition tag_window ::
    "ctl_writer \<Rightarrow> ctl_reader \<Rightarrow> rpc_io \<Rightarrow> string \<Rightarrow> u32 \<Rightarrow> string list \<Rightarrow> registry \<Rightarrow> registry \<times> (unit, anyhow) result" where
  "tag_window wn de io n window_id ts st =
     (case list_windows wn de io n st of
        (st, Err e) \<Rightarrow> (st, Err e)
      | (st, Ok ws) \<Rightarrow>
          if \<not> list_ex (\<lambda>w. wi_id w = window_id) ws then (st, Err (AnyTagWindow TagWindowNotFound))
          else (store_tags n window_id ts st, Ok ()))"

section \<open>Waiting for quiescence\<close>

text \<open>What one round of the polling loop sees: the sockets, the monotonic clock in
  nanoseconds and the runtime's clock in milliseconds.\<close>

record idle_round =
  idle_rpc :: rpc_io
  idle_now_ns :: u64
  idle_instant_ms :: nat

definition saturating_sub :: "u64 \<Rightarrow> u64 \<Rightarrow> u64" where
  "saturating_sub a b = (if b \<le> a then a - b else 0)"

text \<open>One round: \<open>Some\<close> result when the loop returns.\<close>

definition idle_step ::
    "ctl_writer \<Rightarrow> ctl_reader \<Rightarrow> string \<Rightarrow> u64 \<Rightarrow> nat \<Rightarrow> idle_round \<Rightarrow> registry
      \<Rightarrow> registry \<times> (bool, anyhow) result option" where
  "idle_step wn de n quiet_ns deadline rd st =
     (case ctl_call wn de (idle_rpc rd) n CtlInfo call_failed (as_result ''info'' as_info) st of
        (st, Err e) \<Rightarrow> (st, Some (Err e))
      | (st, Ok info) \<Rightarrow>
          (st, if saturating_sub (idle_now_ns rd) (sci_last_damage_ns info) \<ge> quiet_ns then Some (Ok True)
               else if idle_instant_ms rd \<ge> deadline then Some (Ok False)
               else None))"

text \<open>The loop, with the number of rounds allowed; \<open>rounds i\<close> is what round \<open>i\<close> sees.\<close>

primrec idle_loop ::
    "ctl_writer \<Rightarrow> ctl_reader \<Rightarrow> string \<Rightarrow> u64 \<Rightarrow> nat \<Rightarrow> (nat \<Rightarrow> idle_round) \<Rightarrow> nat \<Rightarrow> nat \<Rightarrow> registry
      \<Rightarrow> (registry \<times> (bool, anyhow) result) option" where
  "idle_loop wn de n quiet_ns deadline rounds 0 i st = None"
| "idle_loop wn de n quiet_ns deadline rounds (Suc fuel) i st =
     (case idle_step wn de n quiet_ns deadline (rounds i) st of
        (st, Some r) \<Rightarrow> Some (st, r)
      | (st, None) \<Rightarrow> idle_loop wn de n quiet_ns deadline rounds fuel (Suc i) st)"

definition wait_for_idle ::
    "ctl_writer \<Rightarrow> ctl_reader \<Rightarrow> string \<Rightarrow> u32 \<Rightarrow> u32 \<Rightarrow> nat \<Rightarrow> (nat \<Rightarrow> idle_round) \<Rightarrow> nat \<Rightarrow> registry
      \<Rightarrow> (registry \<times> (bool, anyhow) result) option" where
  "wait_for_idle wn de n quiet_ms timeout_ms start rounds fuel st =
     idle_loop wn de n (ucast quiet_ms * 1000000) (start + unat timeout_ms) rounds fuel 0 st"

text \<open>The runtime's \<open>sleep\<close> of 10 ms between two rounds, and a clock that has not gone back.\<close>

definition clock_ok :: "nat \<Rightarrow> (nat \<Rightarrow> idle_round) \<Rightarrow> bool" where
  "clock_ok start rounds \<longleftrightarrow> start \<le> idle_instant_ms (rounds 0)
     \<and> (\<forall>i. idle_instant_ms (rounds i) + 10 \<le> idle_instant_ms (rounds (Suc i)))"

section \<open>Lemmas\<close>

lemma set_conn_simps [simp]:
  "sessions (set_conn i c st) = sessions st" "tags (set_conn i c st) = tags st"
  "effects (set_conn i c st) = effects st" "events (set_conn i c st) = events st"
  "conns (set_conn i c st) = (conns st)(i := c)"
  by (simp_all add: set_conn_def)

lemma same_core_set_conn [simp]: "same_core st (set_conn i c st') = same_core st st'"
  by (simp add: set_conn_def same_core_def)

lemma session_control_core:
  assumes "session_control wn de io n meth st = (st', r)"
  shows "same_core st st'" "tags st' = tags st" "events st' = events st"
  using assms
  by (auto simp: session_control_def rpc_cached_def rpc_reconnect_def Let_def
      split: option.splits prod.splits result.splits)

lemma ctl_call_core:
  assumes "ctl_call wn de io n meth fail k st = (st', r)"
  shows "same_core st st'" "tags st' = tags st" "events st' = events st"
  using assms session_control_core
  by (auto simp: ctl_call_def split: prod.splits result.splits)

lemma list_windows_core:
  assumes "list_windows wn de io n st = (st', r)"
  shows "same_core st st'" "tags st' = tags st"
  using assms ctl_call_core by (auto simp: list_windows_def split: prod.splits result.splits)

lemma idle_step_core:
  "idle_step wn de n q d rd st = (st', r) \<Longrightarrow> same_core st st'"
  by (auto simp: idle_step_def split: prod.splits result.splits dest: ctl_call_core(1))

lemma clock_ok_instant:
  assumes "clock_ok start rounds"
  shows "start + 10 * i \<le> idle_instant_ms (rounds i)"
proof (induction i)
  case (Suc i)
  with assms have "idle_instant_ms (rounds i) + 10 \<le> idle_instant_ms (rounds (Suc i))"
    by (simp add: clock_ok_def)
  with Suc show ?case by simp
qed (use assms in \<open>simp add: clock_ok_def\<close>)

lemma idle_step_deadline:
  assumes "deadline \<le> idle_instant_ms rd"
  shows "\<exists>st' r. idle_step wn de n q deadline rd st = (st', Some r)"
  using assms by (auto simp: idle_step_def split: prod.splits result.splits)

lemma idle_loop_returns:
  assumes "deadline \<le> idle_instant_ms (rounds (i + fuel))"
  shows "\<exists>r. idle_loop wn de n q deadline rounds (Suc fuel) i st = Some r"
  using assms
proof (induction fuel arbitrary: i st)
  case 0
  then show ?case using idle_step_deadline [of deadline "rounds i" wn de n q st] by (auto split: prod.splits)
next
  case (Suc fuel)
  then have next_i: "deadline \<le> idle_instant_ms (rounds (Suc i + fuel))" by simp
  show ?case
  proof (cases "idle_step wn de n q deadline (rounds i) st")
    case (Pair st' r)
    with Suc.IH [OF next_i, of st'] show ?thesis by (cases r) (simp_all del: idle_loop.simps(2) add: idle_loop.simps(2) [of _ _ _ _ _ _ "Suc fuel"])
  qed
qed

lemma idle_loop_more_fuel:
  "idle_loop wn de n q d rounds k i st = Some r \<Longrightarrow> k \<le> k' \<Longrightarrow> idle_loop wn de n q d rounds k' i st = Some r"
proof (induction k arbitrary: i st k')
  case (Suc k)
  then obtain j where "k' = Suc j" "k \<le> j" by (cases k') auto
  with Suc show ?case by (auto split: prod.splits option.splits)
qed simp

lemma idle_loop_result:
  assumes "idle_loop wn de n q d rounds fuel i st = Some (st', r)"
  shows "\<exists>j st0. i \<le> j \<and> j < i + fuel \<and> same_core st st0 \<and> idle_step wn de n q d (rounds j) st0 = (st', Some r)"
  using assms
proof (induction fuel arbitrary: i st)
  case (Suc fuel)
  obtain st1 x where x: "idle_step wn de n q d (rounds i) st = (st1, x)" by fastforce
  show ?case
  proof (cases x)
    case None
    with Suc x obtain j st0 where "Suc i \<le> j" "j < Suc i + fuel" "same_core st1 st0"
        "idle_step wn de n q d (rounds j) st0 = (st', Some r)" by fastforce
    moreover have "same_core st st1" using x by (rule idle_step_core)
    ultimately show ?thesis using same_core_trans by (intro exI [of _ j] exI [of _ st0]) auto
  next
    case (Some y)
    with Suc.prems x show ?thesis by (intro exI [of _ i] exI [of _ st]) simp
  qed
qed simp

lemma quiet_ns_unat: "unat (ucast (q :: u32) * 1000000 :: u64) = unat q * 1000000"
proof -
  have q: "unat q < 2 ^ 32" using unsigned_less [of q] by simp
  have "unat (ucast q :: u64) = unat q" using q by (simp add: unsigned_ucast_eq take_bit_nat_eq_self_iff)
  with q show ?thesis by (simp add: unat_word_ariths)
qed

lemma unat_saturating_sub: "unat (saturating_sub a b) = unat a - unat b"
  by (auto simp: saturating_sub_def unat_sub word_le_nat_alt)

section \<open>A sample session\<close>

definition sample_wn :: ctl_writer where
  "sample_wn r = ([0], None)"

definition sample_io :: rpc_io where
  "sample_io = \<lparr>rpc_reuse = (True, (frame_bytes [1], AtEof)), rpc_connect = Ok 5,
     rpc_fresh = (True, (frame_bytes [1], AtEof))\<rparr>"

definition answer :: "ctl_result \<Rightarrow> ctl_reader" where
  "answer x p = Ok (ctl_success 1 x)"

definition sample_window :: "u32 \<Rightarrow> window_info" where
  "sample_window i = \<lparr>wi_id = i, wi_app_id = [], wi_title = [], wi_tags = [],
     wi_geometry = \<lparr>rect_x = 0, rect_y = 0, rect_width = 1, rect_height = 1\<rparr>, wi_focused = False,
     wi_pid = 0, wi_content_rect = None\<rparr>"

lemma rpc_frame_bytes:
  "length p \<le> MAX_FRAME_SIZE \<Longrightarrow> rpc (True, (frame_bytes p @ rest, e)) = Ok (frame_bytes p)"
  by (simp add: rpc_def frame_bytes_def read_exact_append of_be_frame_len Let_def)

lemma sample_encode: "encode_frame sample_wn r [] = (frame_bytes [0], Ok ())"
  by (simp add: encode_frame_ok_iff sample_wn_def MAX_FRAME_SIZE_def)

lemma sample_call:
  assumes "find_session n st = Some e"
  shows "\<exists>st'. session_control sample_wn (answer x) sample_io n meth st = (st', Ok (ctl_success 1 x))"
proof -
  have "rpc (True, (frame_bytes [1], AtEof)) = Ok (frame_bytes [1])"
    using rpc_frame_bytes [of "[1]" "[]" AtEof] by (simp add: MAX_FRAME_SIZE_def)
  moreover have "decode_frame (answer x) (frame_bytes [1]) = Ok (ctl_success 1 x)"
    by (subst decode_frame_bytes) (simp_all add: MAX_FRAME_SIZE_def answer_def)
  ultimately show ?thesis
    using assms by (auto simp: session_control_def sample_encode rpc_cached_def rpc_reconnect_def sample_io_def
        decode_ctl_def Let_def split: option.splits)
qed

lemma sample_ctl_call:
  assumes "find_session n st = Some e"
  shows "\<exists>st'. ctl_call sample_wn (answer x) sample_io n meth fail k st = (st', k (ctl_success 1 x))
    \<and> sessions st' = sessions st"
proof -
  obtain st' where st': "session_control sample_wn (answer x) sample_io n meth st = (st', Ok (ctl_success 1 x))"
    using sample_call [OF assms] by blast
  from session_control_core(1) [OF this] st' show ?thesis
    by (simp add: ctl_call_def ctl_success_def same_core_def)
qed

lemma sample_list_windows:
  assumes "find_session n st = Some e"
  shows "\<exists>st' w. list_windows sample_wn (answer (CtlWindows [sample_window i])) sample_io n st = (st', Ok [w])
    \<and> wi_id w = i \<and> sessions st' = sessions st"
proof -
  let ?x = "CtlWindows [sample_window i]"
  obtain st' where "ctl_call sample_wn (answer ?x) sample_io n CtlListWindows call_failed
      (as_result ''list_windows'' as_windows) st = (st', as_result ''list_windows'' as_windows (ctl_success 1 ?x))"
      "sessions st' = sessions st"
    using sample_ctl_call [OF assms] by blast
  then show ?thesis
    by (simp add: list_windows_def as_result_def ctl_decode_result_def ctl_success_def merge_tags_def
        sample_window_def split: option.splits)
qed

section \<open>Properties\<close>





text \<open>What \<open>wait_for_idle\<close> answers is true. An answer of quiescence comes from a poll whose
  reported last damage lies at least \<open>quiet_ms\<close> milliseconds before the monotonic clock,
  with no wrap-around; a negative answer comes from a poll at or after the deadline.\<close>

theorem wait_for_idle_sound:
  assumes "wait_for_idle wn de n quiet_ms timeout_ms start rounds fuel st = Some (st', Ok idle)"
  shows "\<exists>j info. j < fuel
    \<and> (if idle then unat (sci_last_damage_ns info) + unat quiet_ms * 1000000 \<le> unat (idle_now_ns (rounds j))
                     \<or> quiet_ms = 0
       else start + unat timeout_ms \<le> idle_instant_ms (rounds j)
            \<and> unat (idle_now_ns (rounds j)) < unat (sci_last_damage_ns info) + unat quiet_ms * 1000000)
    \<and> (\<exists>st0. snd (ctl_call wn de (idle_rpc (rounds j)) n CtlInfo call_failed (as_result ''info'' as_info) st0) = Ok info)"
proof -
  from assms obtain j st0 where j: "j < fuel"
      "idle_step wn de n (ucast quiet_ms * 1000000) (start + unat timeout_ms) (rounds j) st0 = (st', Some (Ok idle))"
    unfolding wait_for_idle_def by (auto dest!: idle_loop_result)
  then obtain info where info: "snd (ctl_call wn de (idle_rpc (rounds j)) n CtlInfo call_failed
        (as_result ''info'' as_info) st0) = Ok info"
      "idle = (ucast quiet_ms * 1000000 \<le> saturating_sub (idle_now_ns (rounds j)) (sci_last_damage_ns info))"
      "\<not> idle \<Longrightarrow> start + unat timeout_ms \<le> idle_instant_ms (rounds j)"
    by (auto simp: idle_step_def split: prod.splits result.splits if_splits)
  have "idle = (unat quiet_ms * 1000000 \<le> unat (idle_now_ns (rounds j)) - unat (sci_last_damage_ns info))"
    using info(2) by (simp add: word_le_nat_alt quiet_ns_unat unat_saturating_sub)
  moreover have "quiet_ms \<noteq> 0 \<Longrightarrow> 0 < unat quiet_ms" by (simp add: unat_gt_0)
  ultimately have "if idle then unat (sci_last_damage_ns info) + unat quiet_ms * 1000000
        \<le> unat (idle_now_ns (rounds j)) \<or> quiet_ms = 0
      else unat (idle_now_ns (rounds j)) < unat (sci_last_damage_ns info) + unat quiet_ms * 1000000"
    by auto
  with info(1,3) j(1) show ?thesis
    by (intro exI [of _ j] exI [of _ info]) auto
qed

theorem wait_for_idle_sound_witness:
  "\<exists>j info. j < (1 :: nat) \<and> unat (sci_last_damage_ns (info :: session_ctl_info)) + 2 * 1000000 \<le> 9000000"
proof -
  let ?info = "\<lparr>sci_width = 1, sci_height = 1, sci_scale = 1, sci_window_count = 0, sci_last_damage_ns = 4000000\<rparr>"
  let ?rounds = "\<lambda>i :: nat. \<lparr>idle_rpc = sample_io, idle_now_ns = 9000000, idle_instant_ms = 0\<rparr>"
  obtain st' where "ctl_call sample_wn (answer (CtlInfoResult ?info)) sample_io ''a'' CtlInfo call_failed
      (as_result ''info'' as_info) sample_registry = (st', as_result ''info'' as_info (ctl_success 1 (CtlInfoResult ?info)))"
    using sample_ctl_call [OF sample_find] by blast
  then have "wait_for_idle sample_wn (answer (CtlInfoResult ?info)) ''a'' 2 30 0 ?rounds (Suc 0) sample_registry
      = Some (st', Ok True)"
    by (simp add: wait_for_idle_def idle_step_def ctl_success_def as_result_def ctl_decode_result_def
        saturating_sub_def)
  from wait_for_idle_sound [OF this] show ?thesis by auto
qed

text \<open>\<open>resize\<close>. A size outside 1..16384 is rejected before the session is asked; on success
  the table shows the new size; on every error the table is as before.\<close>

theorem resize_sound:
  assumes "resize wn de io n width height st = (st', r)"
  shows "case r of
     Ok _ \<Rightarrow> validate_output_size width height = Ok ()
       \<and> (\<forall>e. find_session n st' = Some e \<longrightarrow> sm_width (se_meta e) = width \<and> sm_height (se_meta e) = height)
   | Err _ \<Rightarrow> sessions st' = sessions st \<and>
       (validate_output_size width height \<noteq> Ok () \<longrightarrow> st' = st)"
proof (cases "validate_output_size width height = Ok ()")
  case True
  obtain st1 x where c: "ctl_call wn de io n (CtlResize width height) (\<lambda>m. AnyResize (ResizeRejectedErr m))
      (\<lambda>_. Ok ()) st = (st1, x)" by fastforce
  have "sessions st1 = sessions st" using ctl_call_core(1) [OF c] by (simp add: same_core_def)
  with True c assms show ?thesis
    by (auto simp: resize_def apply_resize_def update_meta_def split: result.splits)
qed (use assms in \<open>auto simp: resize_def\<close>)

theorem resize_sound_witness:
  "\<exists>st'. resize sample_wn (answer CtlUnit) sample_io ''a'' 640 480 sample_registry = (st', Ok ())
     \<and> (\<forall>e. find_session ''a'' st' = Some e \<longrightarrow> sm_width (se_meta e) = 640 \<and> sm_height (se_meta e) = 480)"
proof -
  have "validate_output_size 640 480 = Ok ()"
    by (simp add: validate_output_size_def MAX_OUTPUT_DIMENSION_def)
  moreover obtain st0 where "ctl_call sample_wn (answer CtlUnit) sample_io ''a'' (CtlResize 640 480)
      (\<lambda>m. AnyResize (ResizeRejectedErr m)) (\<lambda>_. Ok ()) sample_registry = (st0, Ok ())"
    using sample_ctl_call [OF sample_find] by blast
  ultimately have "\<exists>st'. resize sample_wn (answer CtlUnit) sample_io ''a'' 640 480 sample_registry = (st', Ok ())"
    by (simp add: resize_def)
  then obtain st' where r: "resize sample_wn (answer CtlUnit) sample_io ''a'' 640 480 sample_registry = (st', Ok ())"
    by blast
  from resize_sound [OF r] show ?thesis using r by (intro exI [of _ st']) simp
qed

text \<open>Tags come back. After a successful \<open>tag_window\<close>, every listing of the session's windows
  shows exactly these tags on that window, and the tags of every other window are those
  the store had.\<close>

theorem tag_then_list:
  assumes "tag_window wn de io n window_id ts st = (st1, Ok ())"
    and "list_windows wn de io' n st1 = (st2, Ok ws)" "w \<in> set ws"
  shows "(wi_id w = window_id \<longrightarrow> wi_tags w = ts)
    \<and> (wi_id w \<noteq> window_id \<longrightarrow> (\<forall>t. map_of (tags st) (n, wi_id w) = Some t \<longrightarrow> wi_tags w = t))"
proof -
  from assms(1) obtain st0 ws0 where "list_windows wn de io n st = (st0, Ok ws0)"
      "st1 = store_tags n window_id ts st0"
    by (auto simp: tag_window_def split: prod.splits result.splits if_splits)
  with list_windows_core(2) have st1: "tags st1 = alist_insert (n, window_id) ts (tags st)"
    by (auto simp: store_tags_def)
  from assms(2) obtain ws' where "ws = merge_tags n st2 ws'"
    by (auto simp: list_windows_def split: prod.splits result.splits)
  moreover have "tags st2 = tags st1" using assms(2) by (rule list_windows_core(2))
  ultimately show ?thesis
    using assms(3) st1 by (auto simp: merge_tags_def split: option.splits if_splits)
qed

theorem tag_then_list_witness:
  "\<exists>st1 st2 w. tag_window sample_wn (answer (CtlWindows [sample_window 4])) sample_io ''a'' 4 [''x''] sample_registry = (st1, Ok ())
     \<and> list_windows sample_wn (answer (CtlWindows [sample_window 4])) sample_io ''a'' st1 = (st2, Ok [w])
     \<and> wi_id w = 4 \<and> wi_tags w = [''x'']"
proof -
  let ?de = "answer (CtlWindows [sample_window 4])"
  obtain st0 w0 where "list_windows sample_wn ?de sample_io ''a'' sample_registry = (st0, Ok [w0])" "wi_id w0 = 4"
      "sessions st0 = sessions sample_registry"
    using sample_list_windows [OF sample_find] by blast
  then have t: "tag_window sample_wn ?de sample_io ''a'' 4 [''x''] sample_registry = (store_tags ''a'' 4 [''x''] st0, Ok ())"
      "find_session ''a'' (store_tags ''a'' 4 [''x''] st0) = Some sample_entry"
    by (simp_all add: tag_window_def store_tags_def)
  obtain st2 w where l: "list_windows sample_wn ?de sample_io ''a'' (store_tags ''a'' 4 [''x''] st0) = (st2, Ok [w])"
      "wi_id w = 4"
    using sample_list_windows [OF t(2)] by blast
  from tag_then_list [OF t(1) l(1)] l t(1) show ?thesis by auto
qed

end
