(* ===== verification/Session_Control.thy ===== *)
theory Session_Control
  imports Composite Codec Registry_State
begin

text \<open>
  The session's control socket: \<open>waymux-session/src/control.rs\<close>, with the parts of
  \<open>recording.rs\<close> and \<open>viewer/\<close> it calls. The state adds to the session's the surface store, the
  recording and the viewer slots and a log of what was started, stopped and signalled. What the
  world answers (the probes, the spawned threads and processes, the PNG encoder, the clock) is the
  argument \<open>io\<close>. A recording thread is named by a number, a bridge by its process id.

  Paths are strings with the components of \<open>std::path::Path\<close>; a dash in an error message is
  written in ASCII.
\<close>

section \<open>Paths\<close>

datatype path_component = RootDir | CurDir | ParentDir | Normal string

fun split_slash :: "string \<Rightarrow> string list" where
  "split_slash [] = [[]]"
| "split_slash (c # cs) =
     (if c = CHR ''/'' then [] # split_slash cs
      else case split_slash cs of [] \<Rightarrow> [[c]] | p # ps \<Rightarrow> (c # p) # ps)"

definition is_absolute :: "string \<Rightarrow> bool" where
  "is_absolute p \<longleftrightarrow> p \<noteq> [] \<and> hd p = CHR ''/''"

definition piece_component :: "string \<Rightarrow> path_component list" where
  "piece_component s = (if s = [] \<or> s = ''.'' then [] else if s = ''..'' then [ParentDir] else [Normal s])"

text \<open>An empty piece is skipped, and so is \<open>.\<close> except at the start of a relative path.\<close>

definition components :: "string \<Rightarrow> path_component list" where
  "components p =
     (if is_absolute p then [RootDir]
      else if hd (split_slash p) = ''.'' then [CurDir] else [])
     @ concat (map piece_component (split_slash p))"

definition path_starts_with :: "string \<Rightarrow> string \<Rightarrow> bool" where
  "path_starts_with p base \<longleftrightarrow> take (length (components base)) (components p) = components base"

text \<open>\<open>parent\<close> and \<open>file_name\<close> of an absolute path: trailing empty and \<open>.\<close> pieces are dropped.\<close>

definition trivial_piece :: "string \<Rightarrow> bool" where
  "trivial_piece s \<longleftrightarrow> s = [] \<or> s = ''.''"

definition path_split :: "string \<Rightarrow> (string \<times> string) option" where
  "path_split p =
     (case dropWhile trivial_piece (rev (split_slash p)) of
        [] \<Rightarrow> None
      | f # rest \<Rightarrow>
          (case dropWhile trivial_piece rest of
             [] \<Rightarrow> Some (''/'', f)
           | front \<Rightarrow> Some (concat (map (\<lambda>s. s @ ''/'') (rev (tl front))) @ hd front, f)))"

definition split_at_dot :: "string \<Rightarrow> (string \<times> string) option" where
  "split_at_dot f =
     (let after = rev (takeWhile (\<lambda>c. c \<noteq> CHR ''.'') (rev f));
          before = take (length f - length after - 1) f
      in if CHR ''.'' \<notin> set f \<or> before = [] then None else Some (before, after))"

text \<open>The second file of a dual recording; \<open>file_stem\<close> and \<open>extension\<close> are those of a file name
  other than \<open>..\<close>.\<close>

definition secondary_path :: "string \<Rightarrow> string" where
  "secondary_path p =
     (case path_split p of
        Some (parent, f) \<Rightarrow>
          if f = ''..'' then p @ ''.secondary''
          else (case split_at_dot f of
                  Some (stem, ext) \<Rightarrow> path_join parent (stem @ ''.secondary.'' @ ext)
                | None \<Rightarrow> p @ ''.secondary'')
      | None \<Rightarrow> p @ ''.secondary'')"

section \<open>Codecs and probes\<close>

fun codec_to_kebab :: "recording_codec \<Rightarrow> string" where
  "codec_to_kebab Ffv1 = ''ffv1''"
| "codec_to_kebab X264Lossless = ''x264-lossless''"
| "codec_to_kebab H264Nvenc = ''h264-nvenc''"
| "codec_to_kebab H264Vaapi = ''h264-vaapi''"
| "codec_to_kebab H264Vulkan = ''h264-vulkan''"
| "codec_to_kebab Ffv1Vulkan = ''ffv1-vulkan''"
| "codec_to_kebab H264VulkanLossless = ''h264-vulkan-lossless''"
| "codec_to_kebab HevcVulkanLossless = ''hevc-vulkan-lossless''"
| "codec_to_kebab CudaNvenc = ''cuda-nvenc''"

fun encoder_name :: "recording_codec \<Rightarrow> string" where
  "encoder_name Ffv1 = ''ffv1''"
| "encoder_name X264Lossless = ''libx264rgb''"
| "encoder_name H264Nvenc = ''h264_nvenc''"
| "encoder_name H264Vaapi = ''h264_vaapi''"
| "encoder_name H264Vulkan = ''h264-vulkan''"
| "encoder_name Ffv1Vulkan = ''ffv1-vulkan''"
| "encoder_name H264VulkanLossless = ''h264-vulkan-lossless''"
| "encoder_name HevcVulkanLossless = ''hevc-vulkan-lossless''"
| "encoder_name CudaNvenc = ''h264_nvenc''"

datatype child_poll = ChildExited | ChildRunning | ChildError

record control_io =
  cio_now :: u64
  cio_depth :: nat
  cio_png :: "bool \<Rightarrow> nat \<Rightarrow> nat \<Rightarrow> bytes \<Rightarrow> (bytes, string) result"
  cio_home_env :: "string option"
  cio_home_passwd :: "string option"
  cio_mkdir :: "string \<Rightarrow> (unit, string) result"
  cio_epoch_secs :: nat
  cio_ffmpeg :: bool
  cio_ffmpeg_encoder :: "string \<Rightarrow> (bool, string) result"
  cio_render_node :: bool
  cio_hi444 :: "(bool \<times> string, string) result"
  cio_thread :: "(unit, string) result"
  cio_viewer_codec :: "recording_codec option"
  cio_bridge :: "string option \<Rightarrow> u16 option \<Rightarrow> u32 \<Rightarrow> u32 \<Rightarrow> (u32 \<times> string, string) result"
  cio_clone :: "(unit, string) result"
  cio_polls :: "child_poll list"

definition probe_ffmpeg :: "control_io \<Rightarrow> (unit, string) result" where
  "probe_ffmpeg io =
     (if cio_ffmpeg io then Ok () else Err ''ffmpeg not found in PATH - install ffmpeg to use recording'')"

definition probe_codec :: "control_io \<Rightarrow> recording_codec \<Rightarrow> (unit, string) result" where
  "probe_codec io codec =
     (if codec \<in> {H264Vulkan, H264VulkanLossless, HevcVulkanLossless} then Ok ()
      else let encoder = encoder_name codec
           in case cio_ffmpeg_encoder io encoder of
                Err e \<Rightarrow> Err (''probe ffmpeg encoder='' @ encoder @ '': '' @ e)
              | Ok known \<Rightarrow>
                  if \<not> known then Err (''encoder '' @ [CHR 0x22] @ encoder @ [CHR 0x22] @ '' not available in this ffmpeg build - ''
                    @ ''install an ffmpeg with the matching codec, or pick a different --codec value'')
                  else if codec = H264Vaapi \<and> \<not> cio_render_node io
                  then Err (''h264-vaapi requires /dev/dri/renderD128 - host has no DRM render node available; ''
                    @ ''either grant the daemon access to it or pick a different --codec'')
                  else Ok ())"

definition home_dir :: "control_io \<Rightarrow> string" where
  "home_dir io =
     (case cio_home_env io of
        Some h \<Rightarrow> if h \<noteq> [] then h else (case cio_home_passwd io of Some d \<Rightarrow> d | None \<Rightarrow> ''/tmp'')
      | None \<Rightarrow> (case cio_home_passwd io of Some d \<Rightarrow> d | None \<Rightarrow> ''/tmp''))"

definition recordings_dir :: "control_io \<Rightarrow> (string, string) result" where
  "recordings_dir io =
     (let dir = path_join (home_dir io) ''.local/share/waymux/recordings''
      in case cio_mkdir io dir of
           Err e \<Rightarrow> Err (''create recordings dir: '' @ e)
         | Ok _ \<Rightarrow> Ok dir)"

definition default_recording_path :: "control_io \<Rightarrow> string \<Rightarrow> (string, string) result" where
  "default_recording_path io name =
     bind_result (recordings_dir io)
       (\<lambda>dir. Ok (path_join dir (name @ ''-'' @ dec_str (cio_epoch_secs io) @ ''.mkv'')))"

text \<open>The gate on every output path.\<close>

definition validate_path :: "control_io \<Rightarrow> string \<Rightarrow> (unit, string) result" where
  "validate_path io p =
     (if \<not> is_absolute p then Err ''recording path must be absolute''
      else if ParentDir \<in> set (components p) then Err (''recording path must not contain '' @ [CHR 0x27] @ ''..'' @ [CHR 0x27])
      else case recordings_dir io of
             Err e \<Rightarrow> Err e
           | Ok allowed \<Rightarrow>
               if \<not> path_starts_with p allowed then Err (''recording path must be inside '' @ allowed)
               else Ok ())"

section \<open>Control state\<close>

record recording_handle =
  rh_thread :: nat
  rh_path :: string
  rh_codec :: recording_codec
  rh_mode :: capture_mode

record dual_recording =
  dr_primary :: recording_handle
  dr_secondary :: "recording_handle option"

record viewer_handle =
  vh_url :: string
  vh_child :: "u32 option"
  vh_codec :: recording_codec

datatype ctl_effect =
    RecordThreadStarted nat string recording_codec capture_mode
  | RecordThreadStopped nat
  | FirstFramePrimed
  | BridgeStarted u32
  | EncoderStopped
  | EncoderJoined
  | SocketClosed
  | BridgeTerm u32
  | BridgeKill u32
  | ShutdownNotified

record control_state =
  cs_session :: session_state
  cs_surfaces :: surfaces
  cs_recording :: "dual_recording option"
  cs_viewer :: "viewer_handle option"
  cs_next_thread :: nat
  cs_effects :: "ctl_effect list"

definition log_ctl :: "ctl_effect list \<Rightarrow> control_state \<Rightarrow> control_state" where
  "log_ctl es s = s\<lparr>cs_effects := cs_effects s @ es\<rparr>"

definition hi444_check :: "control_io \<Rightarrow> recording_codec \<Rightarrow> (unit, string) result" where
  "hi444_check io codec =
     (if codec \<noteq> HevcVulkanLossless then Ok ()
      else case cio_hi444 io of
             Ok (supported, device) \<Rightarrow>
               if supported then Ok ()
               else Err (''hevc-vulkan-lossless requires Vulkan-video HEVC 4:4:4 (Hi444) caps, not exposed by ''
                 @ ''this device ('' @ device @ ''); use ffv1-vulkan or h264-vulkan-lossless for lossless capture on this GPU'')
           | Err e \<Rightarrow> Err (''hevc-vulkan-lossless: cannot open a Vulkan device to verify caps: '' @ e))"

definition spawn_recording_thread ::
    "control_io \<Rightarrow> string \<Rightarrow> recording_codec \<Rightarrow> capture_mode \<Rightarrow> control_state
      \<Rightarrow> control_state \<times> (recording_handle, string) result" where
  "spawn_recording_thread io p codec mode s =
     (case hi444_check io codec of
        Err e \<Rightarrow> (s, Err e)
      | Ok _ \<Rightarrow>
          (case cio_thread io of
             Err e \<Rightarrow> (s, Err (''spawn recording thread: '' @ e))
           | Ok _ \<Rightarrow>
               let t = cs_next_thread s
               in (log_ctl [RecordThreadStarted t p codec mode] (s\<lparr>cs_next_thread := Suc t\<rparr>),
                   Ok \<lparr>rh_thread = t, rh_path = p, rh_codec = codec, rh_mode = mode\<rparr>)))"

definition handles_of :: "dual_recording \<Rightarrow> recording_handle list" where
  "handles_of d = dr_primary d # (case dr_secondary d of Some h \<Rightarrow> [h] | None \<Rightarrow> [])"

definition stop_both :: "dual_recording \<Rightarrow> control_state \<Rightarrow> control_state" where
  "stop_both d s = log_ctl (map (\<lambda>h. RecordThreadStopped (rh_thread h)) (handles_of d)) s"

text \<open>\<open>kill_viewer_child\<close>: \<open>SIGTERM\<close>, then polling for two seconds; \<open>cio_polls\<close> is what the polls
  before the deadline saw. A child that is still there is killed.\<close>

definition kill_viewer_child :: "control_io \<Rightarrow> u32 option \<Rightarrow> control_state \<Rightarrow> control_state" where
  "kill_viewer_child io child s =
     (case child of
        None \<Rightarrow> s
      | Some pid \<Rightarrow>
          log_ctl (BridgeTerm pid
            # (if list_ex (\<lambda>p. p \<noteq> ChildRunning) (cio_polls io) then [] else [BridgeKill pid])) s)"

section \<open>Requests\<close>

definition deliver_reply :: "u32 \<Rightarrow> string \<Rightarrow> bool \<Rightarrow> session_ctl_response" where
  "deliver_reply i message delivered = (if delivered then ctl_success i CtlUnit else ctl_failure i message)"

fun apply_inject_op :: "u64 \<Rightarrow> inject_op \<Rightarrow> session_state \<Rightarrow> session_state" where
  "apply_inject_op now (OpKey keycode st modifiers) s =
     fst (inject_key_state now keycode (st = Pressed) modifiers 0 0 0 s)"
| "apply_inject_op now (OpPointer x y button st axis_x axis_y window_id content sq) s =
     fst (inject_pointer_state now window_id content x y button (st = Pressed) axis_x axis_y sq s)"
| "apply_inject_op now (OpTouch i x y phase window_id content) s =
     fst (inject_touch_state now window_id content i x y phase s)"

definition screenshot_reply ::
    "control_io \<Rightarrow> u32 \<Rightarrow> string \<Rightarrow> captured_frame option \<Rightarrow> session_ctl_response" where
  "screenshot_reply io i none r =
     (case r of
        None \<Rightarrow> ctl_failure i none
      | Some fr \<Rightarrow>
          (case encode_png (cio_png io) (fr_bytes fr) (fr_width fr) (fr_height fr) (fr_stride fr) Argb8888 of
             Ok png \<Rightarrow> ctl_success i (CtlScreenshotResult
                         \<lparr>ss_width = word_of_int (fr_width fr), ss_height = word_of_int (fr_height fr), ss_png = png\<rparr>)
           | Err e \<Rightarrow> ctl_failure i (''encode png: '' @ e)))"

definition ctl_shutdown :: "control_io \<Rightarrow> control_state \<Rightarrow> control_state" where
  "ctl_shutdown io s =
     (let s = (case cs_recording s of
                 Some d \<Rightarrow> stop_both d (s\<lparr>cs_recording := None\<rparr>)
               | None \<Rightarrow> s);
          s = (case cs_viewer s of
                 Some h \<Rightarrow> kill_viewer_child io (vh_child h)
                             (log_ctl [EncoderStopped, SocketClosed] (s\<lparr>cs_viewer := None\<rparr>))
               | None \<Rightarrow> s)
      in log_ctl [ShutdownNotified] s)"

text \<open>The checks of \<open>RecordStart\<close> before anything is started; they give the paths to record to.\<close>

definition record_check ::
    "control_io \<Rightarrow> string \<Rightarrow> string option \<Rightarrow> recording_codec \<Rightarrow> recording_codec option
      \<Rightarrow> (string \<times> string option, string) result" where
  "record_check io name path codec secondary_codec =
     bind_result (case path of Some p \<Rightarrow> Ok p | None \<Rightarrow> default_recording_path io name) (\<lambda>primary.
     let second = map_option (\<lambda>_. secondary_path primary) secondary_codec
     in bind_result (validate_path io primary) (\<lambda>_.
        bind_result (case second of Some sp \<Rightarrow> validate_path io sp | None \<Rightarrow> Ok ()) (\<lambda>_.
        bind_result (probe_ffmpeg io) (\<lambda>_.
        bind_result (probe_codec io codec) (\<lambda>_.
        bind_result (case secondary_codec of
                       Some sc \<Rightarrow> map_err (\<lambda>e. ''secondary codec: '' @ e) (probe_codec io sc)
                     | None \<Rightarrow> Ok ()) (\<lambda>_. Ok (primary, second)))))))"

definition ctl_record_start ::
    "control_io \<Rightarrow> u32 \<Rightarrow> string option \<Rightarrow> recording_codec option \<Rightarrow> recording_codec option \<Rightarrow> capture_mode option
      \<Rightarrow> control_state \<Rightarrow> control_state \<times> session_ctl_response" where
  "ctl_record_start io i path codec secondary_codec mode s =
     (let codec = (case codec of Some c \<Rightarrow> c | None \<Rightarrow> Ffv1);
          mode = (case mode of Some m \<Rightarrow> m | None \<Rightarrow> FocusedWindow)
      in case record_check io (ses_name (cs_session s)) path codec secondary_codec of
           Err e \<Rightarrow> (s, ctl_failure i e)
         | Ok (primary_path, second_path) \<Rightarrow>
             if cs_recording s \<noteq> None then (s, ctl_failure i ''already recording'')
             else case spawn_recording_thread io primary_path codec mode s of
                    (s, Err e) \<Rightarrow> (s, ctl_failure i e)
                  | (s, Ok primary) \<Rightarrow>
                      (case (case (secondary_codec, second_path) of
                               (Some sc, Some sp) \<Rightarrow>
                                 (case spawn_recording_thread io sp sc mode s of
                                    (s, Ok h) \<Rightarrow> (s, Ok (Some h))
                                  | (s, Err e) \<Rightarrow> (s, Err e))
                             | _ \<Rightarrow> (s, Ok None)) of
                         (s, Err e) \<Rightarrow>
                           (log_ctl [RecordThreadStopped (rh_thread primary)] s,
                            ctl_failure i (''secondary encoder: '' @ e))
                       | (s, Ok secondary) \<Rightarrow>
                           (log_ctl [FirstFramePrimed]
                              (s\<lparr>cs_recording := Some \<lparr>dr_primary = primary, dr_secondary = secondary\<rparr>\<rparr>),
                            ctl_success i (CtlRecordStarted
                              \<lparr>rs_path = primary_path, rs_secondary_path = second_path\<rparr>))))"

definition ctl_record_status :: "control_state \<Rightarrow> record_status_response" where
  "ctl_record_status s =
     (case cs_recording s of
        Some d \<Rightarrow> \<lparr>rst_recording = True, rst_path = Some (rh_path (dr_primary d)),
                    rst_secondary_path = map_option rh_path (dr_secondary d),
                    rst_codec = Some (codec_to_kebab (rh_codec (dr_primary d)))\<rparr>
      | None \<Rightarrow> \<lparr>rst_recording = False, rst_path = None, rst_secondary_path = None, rst_codec = None\<rparr>)"

definition ctl_viewer_start ::
    "control_io \<Rightarrow> u32 \<Rightarrow> string option \<Rightarrow> u16 option \<Rightarrow> control_state \<Rightarrow> control_state \<times> session_ctl_response" where
  "ctl_viewer_start io i bind port s =
     (if cs_viewer s \<noteq> None then (s, ctl_failure i ''viewer already active for this session'')
      else case cio_viewer_codec io of
             None \<Rightarrow> (s, ctl_failure i ''no viewer-capable encoder available (probed h264-nvenc, h264-vulkan)'')
           | Some codec \<Rightarrow>
               (case cio_bridge io bind port (ses_width (cs_session s)) (ses_height (cs_session s)) of
                  Err e \<Rightarrow> (s, ctl_failure i (''bridge spawn failed: '' @ e))
                | Ok (pid, url) \<Rightarrow>
                    let s = log_ctl [BridgeStarted pid] s
                    in case cio_clone io of
                         Err e \<Rightarrow> (s, ctl_failure i (''clone socket: '' @ e))
                       | Ok _ \<Rightarrow>
                           (s\<lparr>cs_viewer := Some \<lparr>vh_url = url, vh_child = Some pid, vh_codec = codec\<rparr>\<rparr>,
                            ctl_success i (CtlViewerStarted url))))"

definition ctl_viewer_stop :: "control_io \<Rightarrow> control_state \<Rightarrow> control_state" where
  "ctl_viewer_stop io s =
     (case cs_viewer s of
        Some h \<Rightarrow> kill_viewer_child io (vh_child h)
                    (log_ctl [EncoderStopped, EncoderJoined, SocketClosed] (s\<lparr>cs_viewer := None\<rparr>))
      | None \<Rightarrow> s)"

abbreviation on_session :: "(session_state \<Rightarrow> session_state) \<Rightarrow> control_state \<Rightarrow> control_state" where
  "on_session f s \<equiv> s\<lparr>cs_session := f (cs_session s)\<rparr>"

fun ctl_dispatch ::
    "control_io \<Rightarrow> u32 \<Rightarrow> session_ctl_method \<Rightarrow> control_state \<Rightarrow> (control_state \<times> session_ctl_response) outcome" where
  "ctl_dispatch io i CtlInfo s =
     (let ss = cs_session s
      in Returned (s, ctl_success i (CtlInfoResult
           \<lparr>sci_width = ses_width ss, sci_height = ses_height ss, sci_scale = ses_scale ss,
            sci_window_count = window_count ss, sci_last_damage_ns = last_damage_ns ss\<rparr>)))"
| "ctl_dispatch io i CtlListWindows s = Returned (s, ctl_success i (CtlWindows (windows_list (cs_session s))))"
| "ctl_dispatch io i (CtlResize width height) s =
     Returned (on_session (resize_state (cio_now io) width height) s, ctl_success i CtlUnit)"
| "ctl_dispatch io i (CtlInjectKey keycode st modifiers) s =
     (case inject_key_state (cio_now io) keycode (st = Pressed) modifiers 0 0 0 (cs_session s) of
        (ss, delivered) \<Rightarrow> Returned (s\<lparr>cs_session := ss\<rparr>,
          deliver_reply i ''no focused client with a wl_keyboard to deliver the event to'' delivered))"
| "ctl_dispatch io i (CtlInjectPointer x y button st axis_x axis_y window_id content) s =
     (case inject_pointer_state (cio_now io) window_id content x y button (st = Pressed) axis_x axis_y 0 (cs_session s) of
        (ss, delivered) \<Rightarrow> Returned (s\<lparr>cs_session := ss\<rparr>,
          deliver_reply i ''no focused client with a wl_pointer to deliver the event to'' delivered))"
| "ctl_dispatch io i (CtlInjectTouch tid x y phase window_id content) s =
     (case inject_touch_state (cio_now io) window_id content tid x y phase (cs_session s) of
        (ss, delivered) \<Rightarrow> Returned (s\<lparr>cs_session := ss\<rparr>,
          deliver_reply i ''no target client with a wl_touch to deliver the event to'' delivered))"
| "ctl_dispatch io i (CtlInjectBatch ops) s =
     Returned (on_session (fold (apply_inject_op (cio_now io)) ops) s, ctl_success i CtlUnit)"
| "ctl_dispatch io i (CtlScreenshot window_id) s =
     obind (capture_window (cio_depth io) (cs_surfaces s) window_id (cs_session s)) (\<lambda>r.
       Returned (s, screenshot_reply io i (''no committed buffer for window '' @ dec_str (unat window_id)) r))"
| "ctl_dispatch io i CtlScreenshotDesktop s =
     obind (capture_desktop (cio_depth io) (cs_surfaces s) (cs_session s)) (\<lambda>r.
       Returned (s, screenshot_reply io i ''no windows available to composite'' r))"
| "ctl_dispatch io i CtlShutdown s = Returned (ctl_shutdown io s, ctl_success i CtlUnit)"
| "ctl_dispatch io i (CtlRecordStart path codec secondary_codec mode min_fps) s =
     Returned (ctl_record_start io i path codec secondary_codec mode s)"
| "ctl_dispatch io i CtlRecordStatus s = Returned (s, ctl_success i (CtlRecordStatusResult (ctl_record_status s)))"
| "ctl_dispatch io i CtlRecordStop s =
     (case cs_recording s of
        None \<Rightarrow> Returned (s, ctl_failure i ''not currently recording'')
      | Some d \<Rightarrow> Returned (stop_both d (s\<lparr>cs_recording := None\<rparr>), ctl_success i CtlUnit))"
| "ctl_dispatch io i (CtlViewerStart bind port) s = Returned (ctl_viewer_start io i bind port s)"
| "ctl_dispatch io i CtlViewerStop s = Returned (ctl_viewer_stop io s, ctl_success i CtlUnit)"
| "ctl_dispatch io i CtlViewerStatus s =
     Returned (s, ctl_success i (CtlViewerStatusResult (map_option vh_url (cs_viewer s))))"

section \<open>A connection\<close>

text \<open>Requests are served one after another until the peer closes, a frame cannot be read or
  decoded, or a response cannot be sent; \<open>wr n\<close> says whether the write after \<open>n\<close> earlier ones
  succeeds. The first argument bounds the number of requests.\<close>

primrec ctl_handle ::
    "nat \<Rightarrow> (bytes \<Rightarrow> (session_ctl_request, string) result) \<Rightarrow> (session_ctl_response \<Rightarrow> bytes \<times> string option)
      \<Rightarrow> (nat \<Rightarrow> control_io) \<Rightarrow> (nat \<Rightarrow> bool) \<Rightarrow> nat \<Rightarrow> instream \<Rightarrow> control_state \<Rightarrow> (control_state \<times> bytes) outcome" where
  "ctl_handle 0 dr ww ios wr n stream s = Returned (s, [])"
| "ctl_handle (Suc fuel) dr ww ios wr n stream s =
     (case read_frame stream of
        Ok (Some f, stream) \<Rightarrow>
          (case decode_frame dr f of
             Ok req \<Rightarrow>
               obind (ctl_dispatch (ios n) (ctl_id req) (ctl_method req) s) (\<lambda>(s, resp).
                 case encode_frame ww resp [] of
                   (buf, Ok _) \<Rightarrow>
                     if wr n
                     then obind (ctl_handle fuel dr ww ios wr (Suc n) stream s) (\<lambda>(s, out). Returned (s, buf @ out))
                     else Returned (s, [])
                 | (_, Err _) \<Rightarrow> Returned (s, []))
           | Err _ \<Rightarrow> Returned (s, []))
      | _ \<Rightarrow> Returned (s, []))"

text \<open>Only a peer of the session's own user is served.\<close>

definition ctl_serve ::
    "nat \<Rightarrow> nat option \<Rightarrow> (bytes \<Rightarrow> (session_ctl_request, string) result) \<Rightarrow> (session_ctl_response \<Rightarrow> bytes \<times> string option)
      \<Rightarrow> (nat \<Rightarrow> control_io) \<Rightarrow> (nat \<Rightarrow> bool) \<Rightarrow> instream \<Rightarrow> control_state \<Rightarrow> (control_state \<times> bytes) outcome" where
  "ctl_serve my_uid peer dr ww ios wr stream s =
     (case peer of
        Some uid \<Rightarrow>
          if uid = my_uid then ctl_handle (Suc (length (fst stream))) dr ww ios wr 0 stream s else Returned (s, [])
      | None \<Rightarrow> Returned (s, []))"

section \<open>Lemmas\<close>

lemma log_ctl_simps [simp]:
  "cs_effects (log_ctl es s) = cs_effects s @ es" "cs_recording (log_ctl es s) = cs_recording s"
  "cs_viewer (log_ctl es s) = cs_viewer s" "cs_next_thread (log_ctl es s) = cs_next_thread s"
  "cs_session (log_ctl es s) = cs_session s" "cs_surfaces (log_ctl es s) = cs_surfaces s"
  by (simp_all add: log_ctl_def)

lemma kill_viewer_child_simps [simp]:
  "cs_recording (kill_viewer_child io c s) = cs_recording s" "cs_viewer (kill_viewer_child io c s) = cs_viewer s"
  "cs_next_thread (kill_viewer_child io c s) = cs_next_thread s" "cs_session (kill_viewer_child io c s) = cs_session s"
  by (simp_all add: kill_viewer_child_def split: option.split)

lemma stop_both_simps [simp]:
  "cs_recording (stop_both d s) = cs_recording s" "cs_viewer (stop_both d s) = cs_viewer s"
  "cs_next_thread (stop_both d s) = cs_next_thread s" "cs_session (stop_both d s) = cs_session s"
  "cs_effects (stop_both d s) = cs_effects s @ map (\<lambda>h. RecordThreadStopped (rh_thread h)) (handles_of d)"
  by (simp_all add: stop_both_def)

fun start_of :: "ctl_effect \<Rightarrow> nat set" where
  "start_of (RecordThreadStarted t _ _ _) = {t}"
| "start_of _ = {}"

fun stop_of :: "ctl_effect \<Rightarrow> nat set" where
  "stop_of (RecordThreadStopped t) = {t}"
| "stop_of _ = {}"

definition started :: "control_state \<Rightarrow> nat set" where
  "started s = (\<Union>e \<in> set (cs_effects s). start_of e)"

definition stopped :: "control_state \<Rightarrow> nat set" where
  "stopped s = (\<Union>e \<in> set (cs_effects s). stop_of e)"

lemma started_log [simp]:
  "started (log_ctl es s) = started s \<union> (\<Union>e \<in> set es. start_of e)"
  "stopped (log_ctl es s) = stopped s \<union> (\<Union>e \<in> set es. stop_of e)"
  by (auto simp: started_def stopped_def)

lemma started_frame [simp]:
  "started (s\<lparr>cs_recording := r\<rparr>) = started s" "stopped (s\<lparr>cs_recording := r\<rparr>) = stopped s"
  "started (s\<lparr>cs_next_thread := n\<rparr>) = started s" "stopped (s\<lparr>cs_next_thread := n\<rparr>) = stopped s"
  "started (s\<lparr>cs_viewer := v\<rparr>) = started s" "stopped (s\<lparr>cs_viewer := v\<rparr>) = stopped s"
  "started (s\<lparr>cs_session := ss\<rparr>) = started s" "stopped (s\<lparr>cs_session := ss\<rparr>) = stopped s"
  by (simp_all add: started_def stopped_def)

lemma started_kill [simp]:
  "started (kill_viewer_child io c s) = started s" "stopped (kill_viewer_child io c s) = stopped s"
  by (simp_all add: kill_viewer_child_def split: option.split)

lemma started_stop_both [simp]:
  "started (stop_both d s) = started s" "stopped (stop_both d s) = stopped s \<union> rh_thread ` set (handles_of d)"
  by (auto simp: stop_both_def)

lemma spawn_recording_thread_eq:
  "spawn_recording_thread io p codec mode s = (s', r) \<Longrightarrow>
    (\<exists>e. r = Err e \<and> s' = s)
    \<or> (r = Ok \<lparr>rh_thread = cs_next_thread s, rh_path = p, rh_codec = codec, rh_mode = mode\<rparr>
      \<and> s' = log_ctl [RecordThreadStarted (cs_next_thread s) p codec mode] (s\<lparr>cs_next_thread := Suc (cs_next_thread s)\<rparr>))"
  by (cases "hi444_check io codec"; cases "cio_thread io") (auto simp: spawn_recording_thread_def Let_def)

lemma spawn_recording_thread_cases:
  assumes "spawn_recording_thread io p codec mode s = (s', r)"
  obtains e where "r = Err e" "s' = s"
  | "r = Ok \<lparr>rh_thread = cs_next_thread s, rh_path = p, rh_codec = codec, rh_mode = mode\<rparr>"
    "s' = log_ctl [RecordThreadStarted (cs_next_thread s) p codec mode] (s\<lparr>cs_next_thread := Suc (cs_next_thread s)\<rparr>)"
  using spawn_recording_thread_eq [OF assms] by blast

section \<open>The state machine of the recording slot\<close>

definition active_threads :: "control_state \<Rightarrow> nat set" where
  "active_threads s = (case cs_recording s of Some d \<Rightarrow> rh_thread ` set (handles_of d) | None \<Rightarrow> {})"

definition rec_inv :: "control_state \<Rightarrow> bool" where
  "rec_inv s \<longleftrightarrow> started s = active_threads s \<union> stopped s \<and> active_threads s \<inter> stopped s = {}
     \<and> (\<forall>t \<in> started s. t < cs_next_thread s)"

lemma rec_inv_frame:
  assumes "rec_inv s" "started s' = started s" "stopped s' = stopped s" "cs_recording s' = cs_recording s"
    "cs_next_thread s' = cs_next_thread s"
  shows "rec_inv s'"
  using assms unfolding rec_inv_def active_threads_def by metis

lemma rec_inv_stop:
  assumes "rec_inv s" "cs_recording s = Some d"
  shows "rec_inv (stop_both d (s\<lparr>cs_recording := None\<rparr>))"
  using assms by (auto simp: rec_inv_def active_threads_def)

lemma rec_inv_started:
  assumes "rec_inv s" "cs_recording s = None" "spawn_recording_thread io p c m s = (s', Ok h)"
  shows "rec_inv (log_ctl [RecordThreadStopped (rh_thread h)] s')"
    and "rec_inv (log_ctl [FirstFramePrimed] (s'\<lparr>cs_recording := Some \<lparr>dr_primary = h, dr_secondary = None\<rparr>\<rparr>))"
  using assms
  by (auto elim!: spawn_recording_thread_cases
      simp: rec_inv_def active_threads_def handles_of_def less_Suc_eq)

lemma rec_inv_started_both:
  assumes "rec_inv s" "cs_recording s = None" "spawn_recording_thread io p c m s = (s1, Ok h)"
    "spawn_recording_thread io q c' m s1 = (s2, Ok h2)"
  shows "rec_inv (log_ctl [FirstFramePrimed] (s2\<lparr>cs_recording := Some \<lparr>dr_primary = h, dr_secondary = Some h2\<rparr>\<rparr>))"
  using assms
  by (auto elim!: spawn_recording_thread_cases
      simp: rec_inv_def active_threads_def handles_of_def less_Suc_eq dest: bspec [of _ _ "Suc (cs_next_thread s)"])

lemma spawn_err_same: "spawn_recording_thread io p c m s = (s', Err e) \<Longrightarrow> s' = s"
  by (auto elim: spawn_recording_thread_cases)

lemma rec_inv_record_start: "rec_inv s \<Longrightarrow> rec_inv (fst (ctl_record_start io i path c c2 m s))"
  by (auto simp: ctl_record_start_def Let_def split: result.splits option.splits prod.splits
      dest: spawn_err_same intro: rec_inv_started rec_inv_started_both)

lemma rec_inv_shutdown: "rec_inv s \<Longrightarrow> rec_inv (ctl_shutdown io s)"
proof -
  assume inv: "rec_inv s"
  let ?s = "case cs_recording s of Some d \<Rightarrow> stop_both d (s\<lparr>cs_recording := None\<rparr>) | None \<Rightarrow> s"
  have "rec_inv ?s" using inv rec_inv_stop by (simp split: option.split)
  then show ?thesis
    unfolding ctl_shutdown_def Let_def by (rule rec_inv_frame) (simp_all split: option.split)
qed

lemma obind_Returned: "obind x f = Returned y \<longleftrightarrow> (\<exists>z. x = Returned z \<and> f z = Returned y)"
  by (cases x) auto

lemma rec_inv_dispatch: "ctl_dispatch io i meth s = Returned (s', r) \<Longrightarrow> rec_inv s \<Longrightarrow> rec_inv s'"
proof (cases meth)
  case (CtlRecordStart p c c2 m f)
  moreover assume "ctl_dispatch io i meth s = Returned (s', r)" "rec_inv s"
  ultimately show ?thesis using rec_inv_record_start [of s io i p c c2 m] by simp
next
  case CtlShutdown
  moreover assume "ctl_dispatch io i meth s = Returned (s', r)" "rec_inv s"
  ultimately show ?thesis using rec_inv_shutdown [of s io] by simp
next
  case CtlRecordStop
  moreover assume "ctl_dispatch io i meth s = Returned (s', r)" "rec_inv s"
  ultimately show ?thesis using rec_inv_stop [of s] by (auto split: option.splits)
qed (auto simp: obind_Returned ctl_viewer_start_def ctl_viewer_stop_def Let_def
    elim!: rec_inv_frame split: option.splits result.splits if_splits prod.splits)

text \<open>Any requests, one after another, each in a world of its own.\<close>

inductive ctl_reach :: "control_state \<Rightarrow> bool" where
  ctl_start: "ses_reach ss \<Longrightarrow> ctl_reach \<lparr>cs_session = ss, cs_surfaces = st, cs_recording = None, cs_viewer = None,
     cs_next_thread = 0, cs_effects = []\<rparr>"
| ctl_request: "ctl_reach s \<Longrightarrow> ctl_dispatch io i meth s = Returned (s', r) \<Longrightarrow> ctl_reach s'"
| ctl_other: "ctl_reach s \<Longrightarrow> ses_step (cs_session s) ss \<Longrightarrow> ctl_reach (s\<lparr>cs_session := ss, cs_surfaces := st\<rparr>)"

lemma rec_inv_reach: "ctl_reach s \<Longrightarrow> rec_inv s"
proof (induction rule: ctl_reach.induct)
  case (ctl_start ss st)
  show ?case by (simp add: rec_inv_def active_threads_def started_def stopped_def)
next
  case (ctl_request s io i meth s' r)
  then show ?case by (simp add: rec_inv_dispatch)
next
  case (ctl_other s ss st)
  then show ?case by (elim rec_inv_frame) (simp_all add: started_def stopped_def)
qed

lemma ses_reach_inject_op: "ses_reach s \<Longrightarrow> ses_reach (apply_inject_op now op s)"
  by (cases op) (auto intro: ses_more S_inject_key S_inject_pointer S_inject_touch)

lemma ses_reach_inject_ops: "ses_reach s \<Longrightarrow> ses_reach (fold (apply_inject_op now) ops s)"
  by (induction ops arbitrary: s) (simp_all add: ses_reach_inject_op)

lemma ctl_dispatch_session:
  assumes "ctl_dispatch io i meth s = Returned (s', r)" "ses_reach (cs_session s)"
  shows "ses_reach (cs_session s')"
proof (cases meth)
  case (CtlInjectKey k st m)
  with assms show ?thesis
    using ses_more [OF assms(2) S_inject_key [of _ "cio_now io" k "st = Pressed" m 0 0 0]] by (auto split: prod.splits)
next
  case (CtlInjectPointer x y b st ax ay w c)
  with assms show ?thesis
    using ses_more [OF assms(2) S_inject_pointer [of _ "cio_now io" w c x y b "st = Pressed" ax ay 0]] by (auto split: prod.splits)
next
  case (CtlInjectTouch tid x y ph w c)
  with assms show ?thesis
    using ses_more [OF assms(2) S_inject_touch [of _ "cio_now io" w c tid x y ph]] by (auto split: prod.splits)
next
  case (CtlRecordStart p c c2 m f)
  with assms show ?thesis
    by (auto simp: ctl_record_start_def Let_def split: result.splits option.splits prod.splits if_splits
        elim!: spawn_recording_thread_cases)
qed (use assms in \<open>auto simp: obind_Returned ctl_shutdown_def ctl_viewer_start_def ctl_viewer_stop_def Let_def
    ses_reach_inject_ops ses_more S_resize split: option.splits result.splits if_splits prod.splits\<close>)

section \<open>Properties\<close>

definition confined :: "control_io \<Rightarrow> string \<Rightarrow> bool" where
  "confined io p \<longleftrightarrow> (\<exists>dir rest. recordings_dir io = Ok dir \<and> is_absolute p \<and> ParentDir \<notin> set (components p)
     \<and> components p = components dir @ rest)"

lemma validate_path_confined: "validate_path io p = Ok () \<Longrightarrow> confined io p"
  by (auto simp: validate_path_def confined_def path_starts_with_def split: if_splits result.splits)
    (metis append_take_drop_id)

lemma record_check_confined:
  assumes "record_check io name path c c2 = Ok (p, sp)"
  shows "confined io p" "sp = Some q \<Longrightarrow> confined io q"
  using assms by (auto simp: record_check_def Let_def split: option.splits intro: validate_path_confined)

lemma record_start_effects:
  assumes "RecordThreadStarted t p c m \<in> set (cs_effects (fst (ctl_record_start io i path c1 c2 m1 s)))"
    and "RecordThreadStarted t p c m \<notin> set (cs_effects s)"
  shows "confined io p"
proof (cases "record_check io (ses_name (cs_session s)) path (case c1 of Some c \<Rightarrow> c | None \<Rightarrow> Ffv1) c2")
  case (Ok q)
  obtain pp sp where q: "q = (pp, sp)" by fastforce
  note conf = record_check_confined [OF Ok [unfolded q]]
  show ?thesis
    using assms Ok q conf
    by (auto simp: ctl_record_start_def Let_def split: result.splits option.splits prod.splits if_splits
        elim!: spawn_recording_thread_cases)
next
  case (Err e)
  with assms show ?thesis by (simp add: ctl_record_start_def Let_def)
qed

text \<open>C28: Recordings stay in the recordings directory. Whatever request the session is sent, every
  file a recording thread is started on, the derived second file of a dual recording included,
  has an absolute path with no \<open>..\<close> component whose components continue those of the recordings
  directory.\<close>

theorem recordings_confined:
  assumes "ctl_dispatch io i meth s = Returned (s', r)"
    and "RecordThreadStarted t p c m \<in> set (cs_effects s')" "RecordThreadStarted t p c m \<notin> set (cs_effects s)"
  shows "\<exists>dir rest. recordings_dir io = Ok dir \<and> is_absolute p \<and> ParentDir \<notin> set (components p)
    \<and> components p = components dir @ rest"
proof -
  have "\<exists>path c1 c2 m1 f. meth = CtlRecordStart path c1 c2 m1 f"
    using assms by (cases meth) (auto simp: obind_Returned ctl_shutdown_def ctl_viewer_start_def ctl_viewer_stop_def
        kill_viewer_child_def Let_def split: option.splits result.splits if_splits prod.splits)
  then obtain path c1 c2 m1 f where "meth = CtlRecordStart path c1 c2 m1 f" by blast
  with assms have "confined io p" using record_start_effects [of t p c m io i path c1 c2 m1 s] by simp
  then show ?thesis by (simp add: confined_def)
qed

definition sample_cio :: control_io where
  "sample_cio = \<lparr>cio_now = 9, cio_depth = 10, cio_png = (\<lambda>_ _ _ b. Ok b), cio_home_env = Some ''/h'',
     cio_home_passwd = None, cio_mkdir = (\<lambda>_. Ok ()), cio_epoch_secs = 7, cio_ffmpeg = True,
     cio_ffmpeg_encoder = (\<lambda>_. Ok True), cio_render_node = True, cio_hi444 = Ok (True, ''gpu''), cio_thread = Ok (),
     cio_viewer_codec = None, cio_bridge = (\<lambda>_ _ _ _. Err ''none''), cio_clone = Ok (), cio_polls = []\<rparr>"

definition sample_control :: control_state where
  "sample_control = \<lparr>cs_session = sample_focused, cs_surfaces = sample_surfaces, cs_recording = None, cs_viewer = None,
     cs_next_thread = 0, cs_effects = []\<rparr>"

lemma sample_dir: "recordings_dir sample_cio = Ok ''/h/.local/share/waymux/recordings''"
  by (simp add: recordings_dir_def home_dir_def sample_cio_def path_join_def)

lemma sample_check:
  "record_check sample_cio n (Some ''/h/.local/share/waymux/recordings/a.mkv'') Ffv1 (Some H264Vulkan)
    = Ok (''/h/.local/share/waymux/recordings/a.mkv'', Some ''/h/.local/share/waymux/recordings/a.secondary.mkv'')"
  by (simp add: record_check_def validate_path_def sample_dir secondary_path_def path_split_def split_at_dot_def
      trivial_piece_def path_join_def components_def is_absolute_def piece_component_def path_starts_with_def
      probe_ffmpeg_def probe_codec_def) (simp add: sample_cio_def)

lemma sample_record:
  "\<exists>s'. ctl_dispatch sample_cio 4 (CtlRecordStart (Some ''/h/.local/share/waymux/recordings/a.mkv'') None
      (Some H264Vulkan) None None) sample_control
    = Returned (s', ctl_success 4 (CtlRecordStarted \<lparr>rs_path = ''/h/.local/share/waymux/recordings/a.mkv'',
        rs_secondary_path = Some ''/h/.local/share/waymux/recordings/a.secondary.mkv''\<rparr>))
    \<and> RecordThreadStarted 1 ''/h/.local/share/waymux/recordings/a.secondary.mkv'' H264Vulkan FocusedWindow \<in> set (cs_effects s')
    \<and> active_threads s' = {0, 1}"
  by (simp add: ctl_record_start_def sample_check spawn_recording_thread_def hi444_check_def Let_def
      sample_control_def active_threads_def) (simp add: sample_cio_def handles_of_def)

theorem recordings_confined_witness:
  "\<exists>rest. components ''/h/.local/share/waymux/recordings/a.secondary.mkv''
    = components ''/h/.local/share/waymux/recordings'' @ rest"
proof -
  from sample_record obtain s' r where
    d: "ctl_dispatch sample_cio 4 (CtlRecordStart (Some ''/h/.local/share/waymux/recordings/a.mkv'') None
      (Some H264Vulkan) None None) sample_control = Returned (s', r)"
    and e: "RecordThreadStarted 1 ''/h/.local/share/waymux/recordings/a.secondary.mkv'' H264Vulkan FocusedWindow
      \<in> set (cs_effects s')" by blast
  have n: "RecordThreadStarted 1 ''/h/.local/share/waymux/recordings/a.secondary.mkv'' H264Vulkan FocusedWindow
      \<notin> set (cs_effects sample_control)" by (simp add: sample_control_def)
  from recordings_confined [OF d e n] show ?thesis by (auto simp: sample_dir)
qed



end
