(* ===== verification/Server.thy ===== *)
theory Server
  imports Registry_Rpc
begin

text \<open>
  The daemon's connection handler, \<open>waymux-daemon/src/server.rs\<close>: the hello gate, the
  dispatch of every request to the registry, the mapping of errors to wire codes,
  subscriptions and the event forwarder. A connection is the state of its reader task
  and the messages it has put on its way to the writer task. Answers of sockets and of
  the operating system come from \<open>dispatch_io\<close>, one per request; \<open>to_value\<close> is the
  serialisation library's conversion of a result.
\<close>

section \<open>Results and errors\<close>

datatype reply =
    RHello hello_result
  | RSessions "session_info list"
  | RCreated create_session_result
  | RAttach attach_result
  | RUnit
  | RSpawn int
  | RWindows "window_info list"
  | RIdle bool
  | RRecordStarted session_ctl_record_started
  | RRecordStatus record_status_response
  | RViewerStarted string
  | RViewerStatus "string option"
  | RScreenshot session_ctl_screenshot

type_synonym 'v to_value = "reply \<Rightarrow> ('v, string) result"

definition internal_err :: "u32 \<Rightarrow> string \<Rightarrow> 'v response" where
  "internal_err i m = response_failure i (response_error_new Internal m)"

text \<open>\<open>Response::success(..).unwrap_or_else(internal_err)\<close>\<close>

definition success_or_internal :: "'v to_value \<Rightarrow> u32 \<Rightarrow> reply \<Rightarrow> 'v response" where
  "success_or_internal tv i x =
     (case response_success tv i x of Ok r \<Rightarrow> r | Err m \<Rightarrow> internal_err i m)"

fun map_create_err :: "anyhow \<Rightarrow> 'v response_error" where
  "map_create_err (AnyCreate CreateAlreadyExists) =
     response_error_new AlreadyExists (create_error_str CreateAlreadyExists)"
| "map_create_err (AnyCreate CreateInvalidName) =
     response_error_new BadRequest (create_error_str CreateInvalidName)"
| "map_create_err (AnyCreate CreateInvalidSize) =
     response_error_new BadRequest (create_error_str CreateInvalidSize)"
| "map_create_err e = response_error_new Internal (anyhow_str e)"

fun map_destroy_err :: "anyhow \<Rightarrow> 'v response_error" where
  "map_destroy_err (AnyDestroy DestroyNotFound) =
     response_error_new NotFound (destroy_error_str DestroyNotFound)"
| "map_destroy_err e = response_error_new Internal (anyhow_str e)"

fun map_spawn_err :: "anyhow \<Rightarrow> 'v response_error" where
  "map_spawn_err (AnySpawn SpawnSessionNotFound) =
     response_error_new NotFound (spawn_error_str SpawnSessionNotFound)"
| "map_spawn_err (AnySpawn SpawnInvalidArgv) =
     response_error_new BadRequest (spawn_error_str SpawnInvalidArgv)"
| "map_spawn_err (AnySpawn SpawnArgvNotAbsolute) =
     response_error_new BadRequest (spawn_error_str SpawnArgvNotAbsolute)"
| "map_spawn_err (AnySpawn SpawnArgvTooLarge) =
     response_error_new BadRequest (spawn_error_str SpawnArgvTooLarge)"
| "map_spawn_err e = response_error_new Internal (anyhow_str e)"

fun map_session_ctl_err :: "anyhow \<Rightarrow> 'v response_error" where
  "map_session_ctl_err (AnySessionControl SessionControlNotFound) =
     response_error_new NotFound (session_control_error_str SessionControlNotFound)"
| "map_session_ctl_err (AnySessionControl (SessionControlFailed m)) =
     response_error_new Internal (session_control_error_str (SessionControlFailed m))"
| "map_session_ctl_err e = response_error_new Internal (anyhow_str e)"

fun map_resize_err :: "anyhow \<Rightarrow> 'v response_error" where
  "map_resize_err (AnySessionControl SessionControlNotFound) =
     response_error_new NotFound (session_control_error_str SessionControlNotFound)"
| "map_resize_err (AnyResize c) = response_error_new ResizeRejected (resize_error_str c)"
| "map_resize_err e = response_error_new Internal (anyhow_str e)"

fun map_screenshot_err :: "anyhow \<Rightarrow> 'v response_error" where
  "map_screenshot_err (AnySessionControl SessionControlNotFound) =
     response_error_new NotFound (session_control_error_str SessionControlNotFound)"
| "map_screenshot_err (AnyScreenshot c) = response_error_new NotFound (screenshot_error_str c)"
| "map_screenshot_err e = response_error_new Internal (anyhow_str e)"

fun map_tag_err :: "anyhow \<Rightarrow> 'v response_error" where
  "map_tag_err (AnySessionControl SessionControlNotFound) =
     response_error_new NotFound (session_control_error_str SessionControlNotFound)"
| "map_tag_err (AnyTagWindow c) = response_error_new NotFound (tag_window_error_str c)"
| "map_tag_err e = response_error_new Internal (anyhow_str e)"

text \<open>The shape of nearly every arm: the result or the mapped error.\<close>

definition reply_with ::
    "'v to_value \<Rightarrow> u32 \<Rightarrow> ('a \<Rightarrow> reply) \<Rightarrow> (anyhow \<Rightarrow> 'v response_error) \<Rightarrow> ('a, anyhow) result \<Rightarrow> 'v response" where
  "reply_with tv i ok err r =
     (case r of Ok x \<Rightarrow> success_or_internal tv i (ok x) | Err e \<Rightarrow> response_failure i (err e))"

fun method_name :: "request_method \<Rightarrow> string" where
  "method_name (Hello _) = ''hello''"
| "method_name ListSessions = ''list_sessions''"
| "method_name (CreateSession _) = ''create_session''"
| "method_name (DestroySession _) = ''destroy_session''"
| "method_name (Attach _) = ''attach''"
| "method_name (Detach _) = ''detach''"
| "method_name (Resize _ _ _) = ''resize''"
| "method_name (Spawn _ _ _ _) = ''spawn''"
| "method_name (ListWindows _) = ''list_windows''"
| "method_name (TagWindow _ _ _) = ''tag_window''"
| "method_name (Screenshot _ _ _) = ''screenshot''"
| "method_name (ScreenshotDesktop _ _) = ''screenshot_desktop''"
| "method_name (WaitForIdle _ _ _) = ''wait_for_idle''"
| "method_name (Subscribe _) = ''subscribe''"
| "method_name (InjectKey _ _ _ _) = ''inject_key''"
| "method_name (InjectPointer _ _ _ _ _ _ _ _ _) = ''inject_pointer''"
| "method_name (InjectBatch _ _) = ''inject_batch''"
| "method_name (InjectSelector _ _ _ _ _) = ''inject_selector''"
| "method_name (InjectTouch _ _ _ _ _ _ _) = ''inject_touch''"
| "method_name (RecordStart _ _ _ _ _ _) = ''record_start''"
| "method_name (RecordStop _) = ''record_stop''"
| "method_name (RecordStatus _) = ''record_status''"
| "method_name (StreamLogs _ _) = ''stream_logs''"
| "method_name (ViewerStart _ _ _) = ''viewer_start''"
| "method_name (ViewerStop _) = ''viewer_stop''"
| "method_name (ViewerStatus _) = ''viewer_status''"

section \<open>Connections\<close>

datatype 'v outgoing = OutResponse "'v response" | OutEvent event

text \<open>A forwarder: its topics and its position in the broadcast history.\<close>

record 'v connection =
  negotiated :: bool
  forwarder :: "(string list \<times> nat) option"
  out_queue :: "'v outgoing list"

definition connection_new :: "'v connection" where
  "connection_new = \<lparr>negotiated = False, forwarder = None, out_queue = []\<rparr>"

definition send_out :: "'v outgoing \<Rightarrow> 'v connection \<Rightarrow> 'v connection" where
  "send_out m c = c\<lparr>out_queue := out_queue c @ [m]\<rparr>"

definition handle_hello_gate :: "'v to_value \<Rightarrow> request \<Rightarrow> 'v connection \<Rightarrow> 'v connection \<times> 'v response" where
  "handle_hello_gate tv req c =
     (case req_method req of
        Hello v \<Rightarrow>
          if v = 0 \<or> v > CURRENT_PROTOCOL_VERSION
          then (c, response_failure (req_id req) (response_error_new ProtoVersion
                  (''client protocol '' @ dec_str (unat v) @ '' not supported (server: ''
                   @ dec_str (unat CURRENT_PROTOCOL_VERSION) @ '')'')))
          else (c\<lparr>negotiated := True\<rparr>,
                success_or_internal tv (req_id req)
                  (RHello \<lparr>server_protocol = CURRENT_PROTOCOL_VERSION,
                           capabilities = [''subscribe'', ''spawn'']\<rparr>))
      | _ \<Rightarrow> (c, response_failure (req_id req)
                 (response_error_new ProtoVersion ''first request must be hello'')))"

section \<open>Subscriptions\<close>

definition replay_session :: "registry \<Rightarrow> string \<Rightarrow> event list" where
  "replay_session st n = map (\<lambda>(stream, line). event_new (Log n stream line)) (replay_logs n st)"

definition replay_topic :: "registry \<Rightarrow> string \<Rightarrow> event list" where
  "replay_topic st topic =
     (case strip_prefix ''logs:'' topic of Some n \<Rightarrow> replay_session st n | None \<Rightarrow> [])
     @ (if topic = ''logs'' then concat (map (\<lambda>i. replay_session st (si_name i)) (list_sessions st)) else [])"

text \<open>The \<open>Subscribe\<close> arm: the old forwarder is aborted, the new one starts at the channel's
  present end \<open>rx\<close>, the retained logs go out, then the forwarder runs. Other tasks may run
  between the subscription and the replay, so \<open>rx\<close> and the state \<open>st\<close> the replay reads are
  separate arguments.\<close>

definition subscribe :: "nat \<Rightarrow> registry \<Rightarrow> string list \<Rightarrow> 'v connection \<Rightarrow> 'v connection" where
  "subscribe rx st topics c =
     (let c = c\<lparr>forwarder := None\<rparr>;
          c = fold (\<lambda>ev. send_out (OutEvent ev)) (concat (map (replay_topic st) topics)) c
      in c\<lparr>forwarder := Some (topics, rx)\<rparr>)"

definition topic_matches :: "event \<Rightarrow> string list \<Rightarrow> bool" where
  "topic_matches ev topics =
     (if topics = [] then False
      else case event_body ev of
             SessionCreated _ \<Rightarrow> list_ex (\<lambda>t. t = ''sessions'') topics
           | SessionDestroyed _ _ \<Rightarrow> list_ex (\<lambda>t. t = ''sessions'') topics
           | SessionCrashed _ _ _ \<Rightarrow> list_ex (\<lambda>t. t = ''sessions'') topics
           | Occluded _ _ \<Rightarrow> list_ex (\<lambda>t. t = ''sessions'') topics
           | ChildExited _ _ _ \<Rightarrow> list_ex (\<lambda>t. t = ''sessions'') topics
           | WindowCreated _ _ _ _ _ \<Rightarrow> list_ex (\<lambda>t. t = ''windows'') topics
           | WindowDestroyed _ _ \<Rightarrow> list_ex (\<lambda>t. t = ''windows'') topics
           | WindowChanged _ _ _ \<Rightarrow> list_ex (\<lambda>t. t = ''windows'') topics
           | Damage n _ _ \<Rightarrow>
               list_ex (\<lambda>t. t = ''damage'' \<or> strip_prefix ''damage:'' t = Some n) topics
           | Log n _ _ \<Rightarrow>
               list_ex (\<lambda>t. t = ''logs'' \<or> strip_prefix ''logs:'' t = Some n) topics)"

text \<open>One turn of \<open>event_forwarder\<close>: nothing to receive, a receiver that fell more than the
  channel's capacity behind (the forwarder ends), or the next event.\<close>

definition forward_step :: "registry \<Rightarrow> 'v connection \<Rightarrow> 'v connection" where
  "forward_step st c =
     (case forwarder c of
        None \<Rightarrow> c
      | Some (topics, pos) \<Rightarrow>
          if length (events st) \<le> pos then c
          else if length (events st) - pos > EVENT_CHANNEL_CAPACITY then c\<lparr>forwarder := None\<rparr>
          else let ev = event_new (events st ! pos);
                   c = c\<lparr>forwarder := Some (topics, Suc pos)\<rparr>
               in if topic_matches ev topics then send_out (OutEvent ev) c else c)"

section \<open>Dispatch\<close>

record dispatch_io =
  dio_denv :: env
  dio_create :: create_io
  dio_spawned :: "int option option"
  dio_rpc :: rpc_io
  dio_start :: nat
  dio_rounds :: "nat \<Rightarrow> idle_round"

definition to_create_request :: "create_session_params \<Rightarrow> create_request" where
  "to_create_request p =
     \<lparr>cr_name = csp_name p, cr_width = csp_width p, cr_height = csp_height p, cr_scale = csp_scale p,
      cr_env = csp_env p, cr_share_clipboard = csp_share_clipboard p, cr_share_audio = csp_share_audio p,
      cr_mem_cap_mb = csp_mem_cap_mb p, cr_cpu_cap_pct = csp_cpu_cap_pct p,
      cr_disk_quota_mb = csp_disk_quota_mb p, cr_fd_limit = csp_fd_limit p,
      cr_api_key_id = csp_api_key_id p\<rparr>"

text \<open>The rounds \<open>wait_for_idle\<close> needs at most, by its termination theorem; the last case of the
  arm below is not reached.\<close>

definition idle_result ::
    "(registry \<times> (bool, anyhow) result) option \<Rightarrow> registry \<Rightarrow> registry \<times> (bool, anyhow) result" where
  "idle_result r st = (case r of Some x \<Rightarrow> x | None \<Rightarrow> (st, Err (AnyText [])))"

fun dispatch_registry ::
    "'v to_value \<Rightarrow> ctl_writer \<Rightarrow> ctl_reader \<Rightarrow> dispatch_io \<Rightarrow> u32 \<Rightarrow> request_method \<Rightarrow> registry
      \<Rightarrow> registry \<times> 'v response" where
  "dispatch_registry tv wn de io i (Hello _) st =
     (st, response_failure i (response_error_new ProtoVersion ''hello already completed''))"
| "dispatch_registry tv wn de io i ListSessions st =
     (st, success_or_internal tv i (RSessions (list_sessions st)))"
| "dispatch_registry tv wn de io i (CreateSession p) st =
     apsnd (reply_with tv i RCreated map_create_err)
       (local_create (dio_create io) (dio_denv io) (to_create_request p) st)"
| "dispatch_registry tv wn de io i (Attach n) st =
     apsnd (reply_with tv i (\<lambda>p. RAttach \<lparr>attach_socket_path = p\<rparr>) map_session_ctl_err) (attach n st)"
| "dispatch_registry tv wn de io i (Detach n) st =
     apsnd (reply_with tv i (\<lambda>_. RUnit) map_session_ctl_err) (detach n st)"
| "dispatch_registry tv wn de io i (DestroySession n) st =
     apsnd (reply_with tv i (\<lambda>_. RUnit) map_destroy_err) (local_destroy n st)"
| "dispatch_registry tv wn de io i (Subscribe topics) st = (st, success_or_internal tv i RUnit)"
| "dispatch_registry tv wn de io i (Spawn n argv env compositor) st =
     apsnd (reply_with tv i RSpawn map_spawn_err)
       (spawn_child (dio_spawned io) (dio_denv io) n argv env compositor st)"
| "dispatch_registry tv wn de io i (ListWindows n) st =
     apsnd (reply_with tv i RWindows map_session_ctl_err) (list_windows wn de (dio_rpc io) n st)"
| "dispatch_registry tv wn de io i (Resize n w h) st =
     apsnd (reply_with tv i (\<lambda>_. RUnit) map_resize_err) (resize wn de (dio_rpc io) n w h st)"
| "dispatch_registry tv wn de io i (TagWindow n w ts) st =
     apsnd (reply_with tv i (\<lambda>_. RUnit) map_tag_err) (tag_window wn de (dio_rpc io) n w ts st)"
| "dispatch_registry tv wn de io i (WaitForIdle n q t) st =
     apsnd (reply_with tv i RIdle map_session_ctl_err)
       (idle_result (wait_for_idle wn de n q t (dio_start io) (dio_rounds io) (unat t div 10 + 2) st) st)"
| "dispatch_registry tv wn de io i (InjectKey n k s m) st =
     apsnd (reply_with tv i (\<lambda>_. RUnit) map_session_ctl_err) (inject_key wn de (dio_rpc io) n k s m st)"
| "dispatch_registry tv wn de io i (InjectPointer n x y b s ax ay w c) st =
     apsnd (reply_with tv i (\<lambda>_. RUnit) map_session_ctl_err)
       (inject_pointer wn de (dio_rpc io) n x y b s ax ay w c st)"
| "dispatch_registry tv wn de io i (InjectBatch n ops) st =
     apsnd (reply_with tv i (\<lambda>_. RUnit) map_session_ctl_err) (inject_batch wn de (dio_rpc io) n ops st)"
| "dispatch_registry tv wn de io i (InjectTouch n t x y ph w c) st =
     apsnd (reply_with tv i (\<lambda>_. RUnit) map_session_ctl_err)
       (inject_touch wn de (dio_rpc io) n t x y ph w c st)"
| "dispatch_registry tv wn de io i (RecordStart n p c sc m f) st =
     apsnd (reply_with tv i RRecordStarted map_session_ctl_err)
       (record_start wn de (dio_rpc io) n p c sc m f st)"
| "dispatch_registry tv wn de io i (RecordStop n) st =
     apsnd (reply_with tv i (\<lambda>_. RUnit) map_session_ctl_err) (record_stop wn de (dio_rpc io) n st)"
| "dispatch_registry tv wn de io i (RecordStatus n) st =
     apsnd (reply_with tv i RRecordStatus map_session_ctl_err) (record_status wn de (dio_rpc io) n st)"
| "dispatch_registry tv wn de io i (ViewerStart n b p) st =
     apsnd (reply_with tv i RViewerStarted map_session_ctl_err) (viewer_start wn de (dio_rpc io) n b p st)"
| "dispatch_registry tv wn de io i (ViewerStop n) st =
     apsnd (reply_with tv i (\<lambda>_. RUnit) map_session_ctl_err) (viewer_stop wn de (dio_rpc io) n st)"
| "dispatch_registry tv wn de io i (ViewerStatus n) st =
     apsnd (reply_with tv i RViewerStatus map_session_ctl_err) (viewer_status wn de (dio_rpc io) n st)"
| "dispatch_registry tv wn de io i (Screenshot n None fmt) st =
     (st, response_failure i (response_error_new NotImplemented
        ''whole-output screenshots are a v2 concern (the protocol spec Q3)''))"
| "dispatch_registry tv wn de io i (Screenshot n (Some w) fmt) st =
     apsnd (reply_with tv i RScreenshot map_screenshot_err) (screenshot wn de (dio_rpc io) n w st)"
| "dispatch_registry tv wn de io i (ScreenshotDesktop n fmt) st =
     apsnd (reply_with tv i RScreenshot map_screenshot_err) (screenshot_desktop wn de (dio_rpc io) n st)"
| "dispatch_registry tv wn de io i (InjectSelector n sel b pr c) st =
     (st, response_failure i (response_error_new NotImplemented
        ''inject_selector is a reserved slot: resolve the target with `windows` (or `wait`) and inject with an explicit window_id''))"
| "dispatch_registry tv wn de io i (StreamLogs n f) st =
     (st, response_failure i (response_error_new NotImplemented
        (method_name (StreamLogs n f) @ '' not implemented yet'')))"

definition dispatch ::
    "'v to_value \<Rightarrow> ctl_writer \<Rightarrow> ctl_reader \<Rightarrow> dispatch_io \<Rightarrow> u32 \<Rightarrow> request_method
      \<Rightarrow> registry \<times> 'v connection \<Rightarrow> (registry \<times> 'v connection) \<times> 'v response" where
  "dispatch tv wn de io i meth sc =
     (case dispatch_registry tv wn de io i meth (fst sc) of
        (st, resp) \<Rightarrow>
          ((st, (case meth of Subscribe topics \<Rightarrow> subscribe (length (events (fst sc))) (fst sc) topics (snd sc) | _ \<Rightarrow> snd sc)), resp))"

section \<open>The reader task\<close>

definition serve_request ::
    "'v to_value \<Rightarrow> ctl_writer \<Rightarrow> ctl_reader \<Rightarrow> dispatch_io \<Rightarrow> request
      \<Rightarrow> registry \<times> 'v connection \<Rightarrow> registry \<times> 'v connection" where
  "serve_request tv wn de io req sc =
     (let ((st, c), resp) =
        (if \<not> negotiated (snd sc)
         then (case handle_hello_gate tv req (snd sc) of (c, resp) \<Rightarrow> ((fst sc, c), resp))
         else dispatch tv wn de io (req_id req) (req_method req) sc)
      in (st, send_out (OutResponse resp) c))"

primrec serve ::
    "'v to_value \<Rightarrow> ctl_writer \<Rightarrow> ctl_reader \<Rightarrow> (nat \<Rightarrow> dispatch_io) \<Rightarrow> nat \<Rightarrow> request list
      \<Rightarrow> registry \<times> 'v connection \<Rightarrow> registry \<times> 'v connection" where
  "serve tv wn de ios k [] sc = sc"
| "serve tv wn de ios k (r # rs) sc = serve tv wn de ios (Suc k) rs (serve_request tv wn de (ios k) r sc)"

text \<open>The messages a byte stream carries, as the reader task reads its requests: frames up to a clean end, a read error, or the first
  frame that does not decode, which closes the connection.\<close>

lemma read_frame_length: "read_frame s = Ok (Some f, s') \<Longrightarrow> length (fst s') < length (fst s)"
  by (drule read_frame_Some_decodes) (auto simp: frame_bytes_def)

function read_messages :: "(bytes \<Rightarrow> ('a, 'd) result) \<Rightarrow> instream \<Rightarrow> 'a list" where
  "read_messages dr s =
     (case read_frame s of
        Ok (Some f, s') \<Rightarrow>
          (case decode_frame dr f of Ok r \<Rightarrow> r # read_messages dr s' | Err _ \<Rightarrow> [])
      | _ \<Rightarrow> [])"
  by pat_completeness auto
termination
proof (relation "measure (\<lambda>(dr, s). length (fst s))", goal_cases)
  case (2 dr s x f s' r)
  then show ?case by (cases s') (auto dest!: read_frame_length)
qed simp

declare read_messages.simps [simp del]

definition reader_task ::
    "'v to_value \<Rightarrow> ctl_writer \<Rightarrow> ctl_reader \<Rightarrow> (bytes \<Rightarrow> (request, string) result) \<Rightarrow> (nat \<Rightarrow> dispatch_io)
      \<Rightarrow> instream \<Rightarrow> registry \<Rightarrow> registry \<times> 'v connection" where
  "reader_task tv wn de dr ios s st =
     (case serve tv wn de ios 0 (read_messages dr s) (st, connection_new) of
        (st, c) \<Rightarrow> (st, c\<lparr>forwarder := None\<rparr>))"

text \<open>The accept loop serves a peer only if its credentials could be read and carry the
  daemon's user id.\<close>

definition accept_peer :: "nat \<Rightarrow> nat option \<Rightarrow> bool" where
  "accept_peer daemon_uid peer = (case peer of Some uid \<Rightarrow> uid = daemon_uid | None \<Rightarrow> False)"

text \<open>The writer task: each message as one frame, until one cannot be encoded or a write fails;
  \<open>wr i = Some k\<close> when the write of message \<open>i\<close> fails after \<open>k\<close> bytes.\<close>

primrec writer_task ::
    "('v outgoing \<Rightarrow> bytes \<times> string option) \<Rightarrow> (nat \<Rightarrow> nat option) \<Rightarrow> nat \<Rightarrow> 'v outgoing list \<Rightarrow> bytes" where
  "writer_task wm wr i [] = []"
| "writer_task wm wr i (msg # msgs) =
     (case encode_frame wm msg [] of
        (buf, Ok _) \<Rightarrow>
          (case wr i of None \<Rightarrow> buf @ writer_task wm wr (Suc i) msgs | Some k \<Rightarrow> take k buf)
      | (_, Err _) \<Rightarrow> [])"

section \<open>Lemmas: responses\<close>

lemma resp_id_simps [simp]:
  "resp_id (response_failure i e) = i" "resp_id (internal_err i m) = i"
  "resp_id (success_or_internal tv i x) = i" "resp_id (reply_with tv i ok err r) = i"
  by (auto simp: response_failure_def internal_err_def success_or_internal_def response_success_def
      reply_with_def split: result.splits)

lemma snd_dispatch_registry_id [simp]: "resp_id (snd (dispatch_registry tv wn de io i meth st)) = i"
  by (induction tv wn de io i meth st rule: dispatch_registry.induct) simp_all

text \<open>A response carries a result exactly if it reports success and an error exactly if it does
  not, and the error code is one the protocol names.\<close>

definition response_wf :: "'v response \<Rightarrow> bool" where
  "response_wf r \<longleftrightarrow> (resp_ok r \<longleftrightarrow> resp_result r \<noteq> None) \<and> (resp_ok r \<longleftrightarrow> resp_error r = None)
     \<and> (case resp_error r of Some e \<Rightarrow> err_code e \<noteq> Unknown | None \<Rightarrow> True)"

lemma map_err_codes [simp]:
  "err_code (map_create_err e) \<noteq> Unknown" "err_code (map_destroy_err e) \<noteq> Unknown"
  "err_code (map_spawn_err e) \<noteq> Unknown" "err_code (map_session_ctl_err e) \<noteq> Unknown"
  "err_code (map_resize_err e) \<noteq> Unknown" "err_code (map_screenshot_err e) \<noteq> Unknown"
  "err_code (map_tag_err e) \<noteq> Unknown"
proof (goal_cases)
  case 1 show ?case by (cases e rule: map_create_err.cases) (simp_all add: response_error_new_def)
next
  case 2 show ?case by (cases e rule: map_destroy_err.cases) (simp_all add: response_error_new_def)
next
  case 3 show ?case by (cases e rule: map_spawn_err.cases) (simp_all add: response_error_new_def)
next
  case 4 show ?case by (cases e rule: map_session_ctl_err.cases) (simp_all add: response_error_new_def)
next
  case 5 show ?case by (cases e rule: map_resize_err.cases) (simp_all add: response_error_new_def)
next
  case 6 show ?case by (cases e rule: map_screenshot_err.cases) (simp_all add: response_error_new_def)
next
  case 7 show ?case by (cases e rule: map_tag_err.cases) (simp_all add: response_error_new_def)
qed

lemma response_wf_simps [simp]:
  "err_code e \<noteq> Unknown \<Longrightarrow> response_wf (response_failure i e)"
  "response_wf (success_or_internal tv i x)"
  "\<lbrakk>\<And>e. err_code (err e) \<noteq> Unknown\<rbrakk> \<Longrightarrow> response_wf (reply_with tv i ok err r)"
  by (auto simp: response_wf_def response_failure_def internal_err_def success_or_internal_def
      response_success_def response_error_new_def reply_with_def split: result.splits)

lemma err_code_new [simp]: "err_code (response_error_new c m) = c"
  by (simp add: response_error_new_def)

lemma dispatch_registry_wf: "response_wf (snd (dispatch_registry tv wn de io i meth st))"
  by (induction tv wn de io i meth st rule: dispatch_registry.induct) simp_all

lemma handle_hello_gate_response:
  "resp_id (snd (handle_hello_gate tv req c)) = req_id req"
  "response_wf (snd (handle_hello_gate tv req c))"
  by (simp_all add: handle_hello_gate_def split: request_method.splits)

section \<open>Lemmas: the queue\<close>

definition responses :: "'v outgoing list \<Rightarrow> 'v response list" where
  "responses q = concat (map (\<lambda>m. case m of OutResponse r \<Rightarrow> [r] | OutEvent _ \<Rightarrow> []) q)"

lemma responses_simps [simp]:
  "responses [] = []" "responses (q @ q') = responses q @ responses q'"
  "responses [OutResponse r] = [r]" "responses [OutEvent ev] = []"
  "responses (map OutEvent evs) = []"
  by (simp_all add: responses_def)

lemma send_out_simps [simp]:
  "out_queue (send_out m c) = out_queue c @ [m]" "negotiated (send_out m c) = negotiated c"
  "forwarder (send_out m c) = forwarder c"
  by (simp_all add: send_out_def)

lemma fold_send_out:
  "fold (\<lambda>ev. send_out (OutEvent ev)) evs c = c\<lparr>out_queue := out_queue c @ map OutEvent evs\<rparr>"
  by (induction evs arbitrary: c) (simp_all add: send_out_def)

lemma subscribe_simps [simp]:
  "out_queue (subscribe rx st topics c) = out_queue c @ map OutEvent (concat (map (replay_topic st) topics))"
  "negotiated (subscribe rx st topics c) = negotiated c"
  "forwarder (subscribe rx st topics c) = Some (topics, rx)"
  by (simp_all add: subscribe_def Let_def fold_send_out)

lemma handle_hello_gate_queue [simp]:
  "out_queue (fst (handle_hello_gate tv req c)) = out_queue c"
  by (simp add: handle_hello_gate_def split: request_method.splits)

lemma dispatch_queue:
  "responses (out_queue (snd (fst (dispatch tv wn de io i meth sc)))) = responses (out_queue (snd sc))"
  by (simp add: dispatch_def split: prod.splits request_method.splits)

lemma dispatch_response:
  "snd (dispatch tv wn de io i meth sc) = snd (dispatch_registry tv wn de io i meth (fst sc))"
  "fst (fst (dispatch tv wn de io i meth sc)) = fst (dispatch_registry tv wn de io i meth (fst sc))"
  by (simp_all add: dispatch_def split: prod.splits)

lemma serve_request_responses:
  "\<exists>r. responses (out_queue (snd (serve_request tv wn de io req sc))) = responses (out_queue (snd sc)) @ [r]
     \<and> resp_id r = req_id req \<and> response_wf r"
proof (cases "negotiated (snd sc)")
  case True
  obtain st' c' resp where d: "dispatch tv wn de io (req_id req) (req_method req) sc = ((st', c'), resp)"
    by (metis surj_pair)
  have "response_wf resp" "resp_id resp = req_id req"
    using dispatch_response(1) [of tv wn de io "req_id req" "req_method req" sc] d
      dispatch_registry_wf [of tv wn de io "req_id req" "req_method req" "fst sc"] by simp_all
  with True d dispatch_queue [of tv wn de io "req_id req" "req_method req" sc] show ?thesis
    by (simp add: serve_request_def)
next
  case False
  then show ?thesis
    using handle_hello_gate_response [of tv req "snd sc"] handle_hello_gate_queue [of tv req "snd sc"]
    by (auto simp: serve_request_def split: prod.splits simp del: handle_hello_gate_queue)
qed

lemma serve_responses:
  "\<exists>rs. responses (out_queue (snd (serve tv wn de ios k reqs sc))) = responses (out_queue (snd sc)) @ rs
     \<and> map resp_id rs = map req_id reqs \<and> list_all response_wf rs"
proof (induction reqs arbitrary: k sc)
  case (Cons req reqs)
  let ?sc = "serve_request tv wn de (ios k) req sc"
  obtain r where "responses (out_queue (snd ?sc)) = responses (out_queue (snd sc)) @ [r]"
      "resp_id r = req_id req" "response_wf r"
    using serve_request_responses by blast
  moreover obtain rs where
      "responses (out_queue (snd (serve tv wn de ios (Suc k) reqs ?sc))) = responses (out_queue (snd ?sc)) @ rs"
      "map resp_id rs = map req_id reqs" "list_all response_wf rs"
    using Cons.IH by blast
  ultimately show ?case by (intro exI [of _ "r # rs"]) simp
qed simp

section \<open>Lemmas: the hello gate\<close>

definition acceptable_hello :: "request \<Rightarrow> bool" where
  "acceptable_hello req = (case req_method req of
     Hello v \<Rightarrow> v \<noteq> 0 \<and> v \<le> CURRENT_PROTOCOL_VERSION | _ \<Rightarrow> False)"

lemma handle_hello_gate_refuses:
  assumes "\<not> acceptable_hello req"
  shows "fst (handle_hello_gate tv req c) = c"
    and "resp_error (snd (handle_hello_gate tv req c)) \<noteq> None"
    and "err_code (the (resp_error (snd (handle_hello_gate tv req c)))) = ProtoVersion"
  using assms
  by (auto simp: handle_hello_gate_def acceptable_hello_def response_failure_def not_le
      split: request_method.splits)

lemma handle_hello_gate_negotiated:
  "negotiated (fst (handle_hello_gate tv req c)) \<longleftrightarrow> negotiated c \<or> acceptable_hello req"
  by (auto simp: handle_hello_gate_def acceptable_hello_def not_less split: request_method.splits)

definition refused :: "'v response \<Rightarrow> bool" where
  "refused r \<longleftrightarrow> \<not> resp_ok r \<and> (\<exists>e. resp_error r = Some e \<and> err_code e = ProtoVersion)"

lemma serve_request_refuses:
  assumes "\<not> negotiated (snd sc)" "\<not> acceptable_hello req"
  shows "\<exists>r. serve_request tv wn de io req sc = (fst sc, send_out (OutResponse r) (snd sc))
    \<and> resp_id r = req_id req \<and> refused r"
proof -
  obtain c' r where h: "handle_hello_gate tv req (snd sc) = (c', r)" by fastforce
  with handle_hello_gate_refuses [OF assms(2), of tv "snd sc"]
    handle_hello_gate_response [of tv req "snd sc"] assms(1)
  show ?thesis
    by (cases sc) (auto simp: serve_request_def refused_def response_wf_def)
qed

lemma serve_refuses:
  assumes "\<not> negotiated (snd sc)" "list_all (\<lambda>r. \<not> acceptable_hello r) reqs"
  shows "\<exists>rs. serve tv wn de ios k reqs sc
      = (fst sc, (snd sc)\<lparr>out_queue := out_queue (snd sc) @ map OutResponse rs\<rparr>)
    \<and> map resp_id rs = map req_id reqs \<and> list_all refused rs"
  using assms
proof (induction reqs arbitrary: k sc)
  case (Cons req reqs)
  from Cons.prems obtain r where
    r: "serve_request tv wn de (ios k) req sc = (fst sc, send_out (OutResponse r) (snd sc))"
       "resp_id r = req_id req" "refused r"
    using serve_request_refuses [of sc req tv wn de "ios k"] by auto
  from Cons.prems obtain rs where
    "serve tv wn de ios (Suc k) reqs (fst sc, send_out (OutResponse r) (snd sc))
       = (fst sc, (send_out (OutResponse r) (snd sc))
            \<lparr>out_queue := out_queue (send_out (OutResponse r) (snd sc)) @ map OutResponse rs\<rparr>)"
    "map resp_id rs = map req_id reqs" "list_all refused rs"
    using Cons.IH [of "(fst sc, send_out (OutResponse r) (snd sc))" "Suc k"] by auto
  with r show ?case by (intro exI [of _ "r # rs"]) (simp add: send_out_def)
qed auto

section \<open>Lemmas: the registry invariant\<close>

lemma registry_inv_create: "registry_inv st \<Longrightarrow> registry_inv (fst (create io denv req st))"
proof (cases "create_check req st")
  case (Ok u)
  assume inv: "registry_inv st"
  obtain st1 res where p: "create_prepare io denv req st = (st1, res)" by fastforce
  have inv1: "registry_inv st1"
    using registry_inv_same_core [OF same_core_create_prepare [OF p]] inv by simp
  show ?thesis
  proof (cases res)
    case (Ok pr)
    have "request_ok req" using \<open>create_check req st = Ok u\<close> create_check_ok by simp
    with inv1 have "registry_inv (fst (create_insert (io_created_at io) req pr st1))"
      using registry_inv_insert by (metis fst_conv surj_pair)
    with Ok p \<open>create_check req st = Ok u\<close> show ?thesis by (simp add: create_def)
  next
    case (Err e)
    with p inv1 \<open>create_check req st = Ok u\<close> show ?thesis by (simp add: create_def)
  qed
qed (simp add: create_def)

lemma registry_inv_spawn_child:
  assumes "registry_inv st"
  shows "registry_inv (fst (spawn_child spawned denv n argv uenv compositor st))"
proof -
  obtain st1 res where s: "spawn_start spawned denv n argv uenv st = (st1, res)" by fastforce
  have inv1: "registry_inv st1"
    using registry_inv_same_core [OF same_core_spawn_start [OF s]] assms by simp
  have "registry_inv (spawn_finish n pid compositor st1)" for pid
  proof -
    have "same_core (register_child n pid compositor st1) (spawn_finish n pid compositor st1)"
      by (simp add: spawn_finish_def same_core_def Let_def)
    from registry_inv_same_core [OF this] registry_inv_register_child [OF inv1, of n pid compositor]
    show ?thesis by simp
  qed
  with s inv1 show ?thesis by (cases res) (simp_all add: spawn_child_def)
qed

lemma registry_inv_ctl_call:
  "registry_inv st \<Longrightarrow> registry_inv (fst (ctl_call wn de io n meth fail k st))"
  by (metis ctl_call_core(1) prod.collapse registry_inv_same_core)

lemma registry_inv_unit_call:
  "registry_inv st \<Longrightarrow> registry_inv (fst (unit_call wn de io n meth st))"
  by (simp add: unit_call_def registry_inv_ctl_call)

lemma registry_inv_list_windows:
  "registry_inv st \<Longrightarrow> registry_inv (fst (list_windows wn de io n st))"
  by (metis list_windows_core(1) prod.collapse registry_inv_same_core)

lemma registry_inv_resize_op:
  assumes "registry_inv st"
  shows "registry_inv (fst (resize wn de io n w h st))"
proof -
  obtain st1 r where c: "ctl_call wn de io n (CtlResize w h) (\<lambda>m. AnyResize (ResizeRejectedErr m)) (\<lambda>_. Ok ()) st
      = (st1, r)" by fastforce
  have "registry_inv st1"
    using registry_inv_ctl_call [OF assms] c by (metis fst_conv)
  with assms c show ?thesis
    by (auto simp: resize_def registry_inv_resize split: result.splits)
qed

lemma registry_inv_tag_window:
  assumes "registry_inv st"
  shows "registry_inv (fst (tag_window wn de io n w ts st))"
proof -
  obtain st1 r where l: "list_windows wn de io n st = (st1, r)" by fastforce
  have "registry_inv st1" using registry_inv_list_windows [OF assms] l by (metis fst_conv)
  then show ?thesis
    using registry_inv_same_core [OF same_core_store_tags [of st1 n w ts]]
    by (auto simp: tag_window_def l split: result.splits)
qed

lemma registry_inv_idle_step:
  "registry_inv st \<Longrightarrow> registry_inv (fst (idle_step wn de n q d rd st))"
  by (metis idle_step_core prod.collapse registry_inv_same_core)

lemma registry_inv_idle_loop:
  "\<lbrakk>idle_loop wn de n q d rounds fuel i st = Some (st', r); registry_inv st\<rbrakk> \<Longrightarrow> registry_inv st'"
proof (induction fuel arbitrary: i st)
  case (Suc fuel)
  obtain st1 x where x: "idle_step wn de n q d (rounds i) st = (st1, x)" by fastforce
  with registry_inv_idle_step [OF Suc.prems(2), of wn de n q d "rounds i"] have "registry_inv st1" by simp
  with Suc x show ?case by (auto split: option.splits)
qed simp

lemma registry_inv_idle_result:
  "registry_inv st \<Longrightarrow> registry_inv (fst (idle_result (wait_for_idle wn de n q t start rounds fuel st) st))"
  by (auto simp: idle_result_def wait_for_idle_def split: option.splits dest: registry_inv_idle_loop)

lemmas registry_inv_ops =
  registry_inv_create registry_inv_spawn_child registry_inv_ctl_call registry_inv_unit_call
  registry_inv_list_windows registry_inv_resize_op registry_inv_tag_window registry_inv_idle_result
  registry_inv_attach registry_inv_detach registry_inv_destroy

lemma registry_inv_dispatch:
  "registry_inv st \<Longrightarrow> registry_inv (fst (dispatch_registry tv wn de io i meth st))"
  by (induction tv wn de io i meth st rule: dispatch_registry.induct)
    (simp_all add: registry_inv_ops local_create_def local_destroy_def inject_key_def inject_pointer_def
      inject_batch_def inject_touch_def record_start_def record_stop_def record_status_def viewer_start_def
      viewer_stop_def viewer_status_def screenshot_def screenshot_desktop_def)

lemma registry_inv_serve_request:
  assumes "registry_inv (fst sc)"
  shows "registry_inv (fst (serve_request tv wn de io req sc))"
proof -
  have "fst (serve_request tv wn de io req sc)
      = (if negotiated (snd sc) then fst (dispatch_registry tv wn de io (req_id req) (req_method req) (fst sc))
         else fst sc)"
    by (simp add: serve_request_def dispatch_response(2) [symmetric] case_prod_beta)
  with assms registry_inv_dispatch [OF assms, of tv wn de io "req_id req" "req_method req"] show ?thesis
    by simp
qed

lemma registry_inv_serve:
  "registry_inv (fst sc) \<Longrightarrow> registry_inv (fst (serve tv wn de ios k reqs sc))"
proof (induction reqs arbitrary: k sc)
  case (Cons req reqs)
  have "registry_inv (fst (serve_request tv wn de (ios k) req sc))"
    using Cons.prems by (rule registry_inv_serve_request)
  from Cons.IH [OF this, of "Suc k"] show ?case by simp
qed simp

section \<open>Lemmas: forwarding\<close>

lemma forward_steps:
  assumes "forwarder c = Some (topics, pos)" "length (events st) - pos \<le> EVENT_CHANNEL_CAPACITY"
    and "pos + k \<le> length (events st)"
  shows "(forward_step st ^^ k) c = c\<lparr>forwarder := Some (topics, pos + k),
    out_queue := out_queue c @ map OutEvent (filter (\<lambda>ev. topic_matches ev topics)
      (map event_new (take k (drop pos (events st)))))\<rparr>"
  using assms(3)
proof (induction k)
  case 0
  with assms(1) show ?case by simp
next
  case (Suc k)
  then have "take (Suc k) (drop pos (events st)) = take k (drop pos (events st)) @ [events st ! (pos + k)]"
    by (simp add: take_Suc_conv_app_nth)
  with Suc assms(2) show ?case
    by (simp add: forward_step_def send_out_def Let_def)
qed

definition log_event :: "string \<Rightarrow> log_line \<Rightarrow> event" where
  "log_event n l = event_new (Log n (fst l) (snd l))"

lemmas strip_prefix_logs [simp] = strip_prefix_append [of "''logs:''", simplified]

lemma topic_matches_logs:
  "topic_matches ev [''logs:'' @ n] \<longleftrightarrow> (\<exists>l. ev = ev\<lparr>event_body := Log n (fst l) (snd l)\<rparr>)"
  by (cases ev; cases "event_body ev") (auto simp: topic_matches_def strip_prefix_Some)

lemma topic_matches_log_event [simp]: "topic_matches (event_new (Log n s l)) [''logs:'' @ n]"
  by (simp add: topic_matches_def event_new_def strip_prefix_Some)

lemma drain_lines:
  "sessions (fold (drain_line (lg, n, stream)) ls st) = sessions st"
  "events (fold (drain_line (lg, n, stream)) ls st) = events st @ map (Log n stream) ls"
  "logs (fold (drain_line (lg, n, stream)) ls st) lg = fold ring_push (map (Pair stream) ls) (logs st lg)"
  by (induction ls arbitrary: st) (simp_all add: drain_line_def)

lemma replay_topic_session:
  "find_session n st = Some e \<Longrightarrow> replay_topic st (''logs:'' @ n) = map (log_event n) (logs st (se_log e))"
  by (simp add: replay_topic_def replay_session_def replay_logs_def log_event_def case_prod_beta)

section \<open>Lemmas: messages on the wire\<close>

lemma read_messages_frame:
  assumes "serde_ok wq dr" "wq v = (p, None)" "length p \<le> MAX_FRAME_SIZE"
  shows "read_messages dr (frame_bytes p @ rest, e) = v # read_messages dr (rest, e)"
  using assms by (subst read_messages.simps)
    (simp add: read_frame_bytes decode_frame_bytes serde_ok_def)

lemma read_messages_nil [simp]: "read_messages dr ([], e) = []"
  by (subst read_messages.simps) (simp add: read_frame_def read_exact_def split: stream_end.splits)

lemma read_messages_partial:
  assumes "k < length (frame_bytes p)" "length p \<le> MAX_FRAME_SIZE"
  shows "read_messages dr (take k (frame_bytes p), e) = []"
proof -
  have "read_frame (take k (frame_bytes p), e) \<noteq> Ok (Some f, s')" for f s'
  proof
    assume "read_frame (take k (frame_bytes p), e) = Ok (Some f, s')"
    then obtain q where q: "length q \<le> MAX_FRAME_SIZE" "take k (frame_bytes p) = frame_bytes q @ fst s'"
      using read_frame_Some_decodes by fastforce
    then have "frame_bytes q @ (fst s' @ drop k (frame_bytes p)) = frame_bytes p @ []"
      by (metis append.assoc append_take_drop_id append_Nil2)
    from payload_frames.enc_prefix_free [OF q(1) assms(2) this] assms(1) show False by simp
  qed
  then show ?thesis
    by (subst read_messages.simps) (auto split: result.splits option.splits)
qed

definition encodable :: "('a \<Rightarrow> bytes \<times> 'e option) \<Rightarrow> 'a \<Rightarrow> bool" where
  "encodable wn v \<longleftrightarrow> snd (wn v) = None \<and> length (fst (wn v)) \<le> MAX_FRAME_SIZE"

lemma encodable_frame: "encodable wn v \<Longrightarrow> encode_frame wn v [] = (frame_bytes (fst (wn v)), Ok ())"
  by (cases "wn v") (simp add: encodable_def encode_frame_ok_iff)

lemma not_encodable: "\<not> encodable wn v \<Longrightarrow> \<exists>e. encode_frame wn v [] = ([], Err e)"
  by (cases "wn v"; cases "snd (wn v)") (auto simp: encodable_def encode_frame_def Let_def)

lemma read_messages_sent_append:
  assumes "serde_ok wq dr" "list_all (encodable wq) vs"
  shows "read_messages dr (concat (map (\<lambda>v. fst (encode_frame wq v [])) vs) @ rest, e)
    = vs @ read_messages dr (rest, e)"
  using assms(2)
proof (induction vs)
  case (Cons v vs)
  then have "encodable wq v" by simp
  moreover obtain p x where "wq v = (p, x)" by fastforce
  ultimately show ?case
    using Cons read_messages_frame [OF assms(1), of v p] by (simp add: encodable_frame) (simp add: encodable_def)
qed simp

lemma read_messages_sent:
  assumes "serde_ok wq dr" "list_all (encodable wq) vs"
  shows "read_messages dr (concat (map (\<lambda>v. fst (encode_frame wq v [])) vs), e) = vs"
  using read_messages_sent_append [OF assms, of "[]" e] by simp

lemma read_messages_written:
  assumes "serde_ok wm dm"
  shows "\<exists>k. read_messages dm (writer_task wm wr i q, e) = take k q
    \<and> (list_all (encodable wm) q \<and> (\<forall>j. wr j = None) \<longrightarrow> k = length q)"
proof (induction q arbitrary: i)
  case Nil
  show ?case by (intro exI [of _ 0]) simp
next
  case (Cons m q)
  show ?case
  proof (cases "encodable wm m")
    case False
    from not_encodable [OF this] obtain x where "encode_frame wm m [] = ([], Err x)" ..
    with False show ?thesis by (intro exI [of _ 0]) simp
  next
    case True
    then obtain p where p: "wm m = (p, None)" "length p \<le> MAX_FRAME_SIZE"
      by (cases "wm m") (auto simp: encodable_def)
    have f: "encode_frame wm m [] = (frame_bytes p, Ok ())" using encodable_frame [OF True] p by simp
    note rd = read_messages_frame [OF assms p]
    show ?thesis
    proof (cases "wr i")
      case None
      from Cons.IH [of "Suc i"] obtain k where
          k: "read_messages dm (writer_task wm wr (Suc i) q, e) = take k q"
            "list_all (encodable wm) q \<and> (\<forall>j. wr j = None) \<longrightarrow> k = length q"
        by (elim exE conjE)
      have "writer_task wm wr i (m # q) = frame_bytes p @ writer_task wm wr (Suc i) q"
        using None f by simp
      with k rd [of "writer_task wm wr (Suc i) q" e] show ?thesis
        by (intro exI [of _ "Suc k"]) (simp del: writer_task.simps)
    next
      case (Some k)
      then have nof: "\<not> (\<forall>j. wr j = None)" by (metis option.distinct(1))
      have w: "writer_task wm wr i (m # q) = take k (frame_bytes p)" using Some f by simp
      show ?thesis
      proof (cases "k < length (frame_bytes p)")
        case True
        from read_messages_partial [OF True p(2), of dm e] w nof show ?thesis
          by (intro exI [of _ 0]) (simp del: writer_task.simps)
      next
        case False
        then have "take k (frame_bytes p) = frame_bytes p" by simp
        with w rd [of "[]" e] have "read_messages dm (writer_task wm wr i (m # q), e) = take 1 (m # q)" by simp
        with nof show ?thesis by blast
      qed
    qed
  qed
qed

section \<open>A sample connection\<close>

definition sample_message :: request where
  "sample_message = \<lparr>req_id = 1, req_method = ListSessions\<rparr>"

definition sample_wq :: "request \<Rightarrow> bytes \<times> string option" where
  "sample_wq r = (if r = sample_message then ([7], None) else ([], Some []))"

definition sample_dr :: "bytes \<Rightarrow> (request, string) result" where
  "sample_dr p = (if p = [7] then Ok sample_message else Err [])"

definition sample_dio :: dispatch_io where
  "sample_dio = \<lparr>dio_denv = [], dio_create = timeout_io, dio_spawned = None, dio_rpc = sample_io, dio_start = 0,
     dio_rounds = (\<lambda>i. \<lparr>idle_rpc = sample_io, idle_now_ns = 0, idle_instant_ms = 10 * i\<rparr>)\<rparr>"

definition sample_out :: "unit outgoing" where
  "sample_out = OutEvent (event_new (SessionCreated ''a''))"

definition sample_wm :: "unit outgoing \<Rightarrow> bytes \<times> string option" where
  "sample_wm m = (if m = sample_out then ([7], None) else ([], Some []))"

definition sample_dm :: "bytes \<Rightarrow> (unit outgoing, string) result" where
  "sample_dm p = (if p = [7] then Ok sample_out else Err [])"

lemma sample_serde_out: "serde_ok sample_wm sample_dm"
  by (auto simp: serde_ok_def sample_wm_def sample_dm_def split: if_splits)

lemma sample_serde: "serde_ok sample_wq sample_dr"
  by (auto simp: serde_ok_def sample_wq_def sample_dr_def split: if_splits)

lemma sample_messages: "read_messages sample_dr (frame_bytes [7], AtEof) = [sample_message]"
  using read_messages_frame [OF sample_serde, of sample_message "[7]" "[]" AtEof]
  by (simp add: sample_wq_def MAX_FRAME_SIZE_def)

section \<open>Properties\<close>


text \<open>C12: A connection that never says hello with a supported protocol version gets no
  service: the registry is as it was, and every request is refused with the protocol
  version error.\<close>

theorem no_service_before_hello:
  assumes "list_all (\<lambda>r. \<not> acceptable_hello r) (read_messages dr s)"
  shows "fst (reader_task tv wn de dr ios s st) = st
    \<and> (\<exists>rs. out_queue (snd (reader_task tv wn de dr ios s st)) = map OutResponse rs
         \<and> map resp_id rs = map req_id (read_messages dr s) \<and> list_all refused rs)"
proof -
  obtain rs where "serve tv wn de ios 0 (read_messages dr s) (st, connection_new)
      = (st, connection_new\<lparr>out_queue := map OutResponse rs\<rparr>)"
      "map resp_id rs = map req_id (read_messages dr s)" "list_all refused rs"
    using serve_refuses [OF _ assms, of "(st, connection_new)" tv wn de ios 0]
    by (auto simp: connection_new_def)
  then show ?thesis by (auto simp: reader_task_def)
qed

theorem no_service_before_hello_witness:
  "fst (reader_task (\<lambda>_. Ok ()) sample_wn (answer CtlUnit) sample_dr (\<lambda>_. sample_dio) (frame_bytes [7], AtEof) sample_registry)
     = sample_registry
   \<and> (\<exists>rs. out_queue (snd (reader_task (\<lambda>_. Ok ()) sample_wn (answer CtlUnit) sample_dr (\<lambda>_. sample_dio)
             (frame_bytes [7], AtEof) sample_registry)) = map OutResponse rs
        \<and> map resp_id rs = [1] \<and> list_all refused rs)"
proof -
  have "list_all (\<lambda>r. \<not> acceptable_hello r) (read_messages sample_dr (frame_bytes [7], AtEof))"
    by (simp add: sample_messages acceptable_hello_def sample_message_def)
  from no_service_before_hello [OF this] show ?thesis
    unfolding sample_messages by (simp add: sample_message_def)
qed

text \<open>No sequence of requests on a connection, valid or not, whatever the sockets and the
  operating system answer, takes the session table out of its invariant.\<close>

theorem requests_keep_registry_inv:
  assumes "registry_inv st"
  shows "registry_inv (fst (reader_task tv wn de dr ios s st))"
  using registry_inv_serve [of "(st, connection_new)" tv wn de ios 0 "read_messages dr s"] assms
  by (simp add: reader_task_def case_prod_beta)

theorem requests_keep_registry_inv_witness:
  "registry_inv (fst (reader_task (\<lambda>_. Ok ()) sample_wn (answer CtlUnit) sample_dr (\<lambda>_. sample_dio)
     (frame_bytes [7], AtEof) (registry_new ''/run'' ''bin'')))"
  by (rule requests_keep_registry_inv)
    (use system_inv_new [of "''/run''" "''bin''"] in \<open>simp add: system_inv_def system_new_def\<close>)

text \<open>C13: Messages over a connection. The requests a client writes one frame each are the
  requests the server reads; what a client reads back is the server's queue up to the
  first message that cannot be encoded or written, never a message that was not sent and
  never out of order, and all of it when nothing fails.\<close>

theorem connection_round_trip:
  assumes "serde_ok wq dr" "serde_ok wm dm" "list_all (encodable wq) reqs"
  shows "read_messages dr (concat (map (\<lambda>r. fst (encode_frame wq r [])) reqs), e) = reqs
    \<and> (\<exists>k. read_messages dm (writer_task wm wr 0 q, e') = take k q
          \<and> (list_all (encodable wm) q \<and> (\<forall>j. wr j = None) \<longrightarrow> k = length q))"
  using read_messages_sent [OF assms(1,3)] read_messages_written [OF assms(2)] by simp

theorem connection_round_trip_witness:
  "read_messages sample_dr (concat (map (\<lambda>r. fst (encode_frame sample_wq r [])) [sample_message, sample_message]), AtEof)
     = [sample_message, sample_message]
   \<and> read_messages sample_dm (writer_task sample_wm (\<lambda>_. None) 0 [sample_out, sample_out], AtEof)
     = [sample_out, sample_out]"
proof -
  have "list_all (encodable sample_wq) [sample_message, sample_message]"
      "list_all (encodable sample_wm) [sample_out, sample_out]"
    by (simp_all add: encodable_def sample_wq_def sample_wm_def MAX_FRAME_SIZE_def)
  with connection_round_trip [OF sample_serde sample_serde_out this(1), of AtEof "\<lambda>_. None"
      "[sample_out, sample_out]" AtEof] show ?thesis
    by (auto simp del: writer_task.simps)
qed



text \<open>Scoped topics do not leak. A subscriber to \<open>logs:n\<close> alone is sent log lines of
  session \<open>n\<close> and nothing else, a subscriber to \<open>damage:n\<close> alone the damage reports
  of \<open>n\<close> and nothing else.\<close>

theorem scoped_topics:
  "(topic_matches ev [''logs:'' @ n] \<longleftrightarrow> (\<exists>stream line. event_body ev = Log n stream line))
   \<and> (topic_matches ev [''damage:'' @ n] \<longleftrightarrow> (\<exists>w r. event_body ev = Damage n w r))"
  by (cases "event_body ev") (auto simp: topic_matches_def strip_prefix_Some)



end
