(* ===== verification/Events.thy ===== *)
theory Events
  imports Server "HOL-Library.Sublist"
begin

text \<open>
  Events on their way from a session to the daemon's subscribers: the bounded queue and
  the writer of \<open>waymux-session/src/events.rs\<close>, and the accept loop of the daemon's
  \<open>accept_and_forward_events\<close>. The compositor thread emits, the writer task drains; both
  are actions on one state, in any order. The writer \<open>we\<close> and the reader \<open>de\<close> are the
  serialisation library's. The broadcast channel keeps bodies, as every event the
  session sends has the id 0.
\<close>

section \<open>The session side\<close>

definition QUEUE_CAPACITY :: nat where "QUEUE_CAPACITY = 256"

record sink =
  sink_queue :: "event_body list"
  sink_open :: bool
  sink_wire :: bytes

definition sink_new :: sink where
  "sink_new = \<lparr>sink_queue = [], sink_open = True, sink_wire = []\<rparr>"

text \<open>\<open>emit\<close> drops the event when the queue is full or the writer is gone.\<close>

definition emit :: "event_body \<Rightarrow> sink \<Rightarrow> sink" where
  "emit b s = (if sink_open s \<and> length (sink_queue s) < QUEUE_CAPACITY
               then s\<lparr>sink_queue := sink_queue s @ [b]\<rparr> else s)"

text \<open>One turn of the writer's loop; \<open>failed\<close> is \<open>Some k\<close> when the write fails after \<open>k\<close> bytes,
  which ends the loop and closes the queue.\<close>

definition drain_event :: "(event \<Rightarrow> bytes \<times> string option) \<Rightarrow> nat option \<Rightarrow> sink \<Rightarrow> sink" where
  "drain_event we failed s =
     (case sink_queue s of
        [] \<Rightarrow> s
      | b # q \<Rightarrow>
          (case encode_frame we (event_new b) [] of
             (_, Err _) \<Rightarrow> s\<lparr>sink_queue := q\<rparr>
           | (buf, Ok _) \<Rightarrow>
               (case failed of
                  None \<Rightarrow> s\<lparr>sink_queue := q, sink_wire := sink_wire s @ buf\<rparr>
                | Some k \<Rightarrow> s\<lparr>sink_queue := [], sink_open := False, sink_wire := sink_wire s @ take k buf\<rparr>)))"

datatype sink_action = Emit event_body | Drain "nat option"

fun sink_act :: "(event \<Rightarrow> bytes \<times> string option) \<Rightarrow> sink_action \<Rightarrow> sink \<Rightarrow> sink" where
  "sink_act we (Emit b) s = emit b s"
| "sink_act we (Drain f) s = drain_event we f s"

definition emitted :: "sink_action list \<Rightarrow> event_body list" where
  "emitted acts = concat (map (\<lambda>a. case a of Emit b \<Rightarrow> [b] | Drain _ \<Rightarrow> []) acts)"

section \<open>The daemon side\<close>

datatype accepted = AcceptFailed | Accepted instream

text \<open>The accept loop over the connections that arrive, each with whether the session is still
  in the table afterwards; the result says whether the task still runs. One connection's
  loop delivers the frames up to the first that fails to read or decode.\<close>

primrec accept_and_forward_events ::
    "(bytes \<Rightarrow> (event, string) result) \<Rightarrow> (accepted \<times> bool) list \<Rightarrow> registry \<Rightarrow> registry \<times> bool" where
  "accept_and_forward_events de [] st = (st, True)"
| "accept_and_forward_events de (c # cs) st =
     (let st = (case fst c of
                  AcceptFailed \<Rightarrow> st
                | Accepted s \<Rightarrow> fold (\<lambda>ev. broadcast (event_body ev)) (read_messages de s) st)
      in if snd c then accept_and_forward_events de cs st else (st, False))"

section \<open>Lemmas\<close>

lemma emitted_simps [simp]:
  "emitted [] = []" "emitted (xs @ ys) = emitted xs @ emitted ys"
  "emitted [Emit b] = [b]" "emitted [Drain f] = []"
  by (simp_all add: emitted_def)

definition sent_frames :: "(event \<Rightarrow> bytes \<times> string option) \<Rightarrow> event_body list \<Rightarrow> bytes" where
  "sent_frames we bs = concat (map (\<lambda>v. fst (encode_frame we v [])) (map event_new bs))"

lemma sent_frames_append [simp]: "sent_frames we (xs @ ys) = sent_frames we xs @ sent_frames we ys"
  by (simp add: sent_frames_def)

text \<open>What the wire holds: whole frames of a subsequence of the emitted events and, once the
  writer has failed, at most a strict prefix of one more.\<close>

definition sink_inv :: "(event \<Rightarrow> bytes \<times> string option) \<Rightarrow> event_body list \<Rightarrow> event_body list \<Rightarrow> sink \<Rightarrow> bool" where
  "sink_inv we em sent s \<longleftrightarrow>
     list_all (\<lambda>b. encodable we (event_new b)) sent
     \<and> subseq (sent @ sink_queue s) em
     \<and> length (sink_queue s) \<le> QUEUE_CAPACITY
     \<and> (sink_open s \<or> sink_queue s = [])
     \<and> (if sink_open s then sink_wire s = sent_frames we sent
        else \<exists>k p. length p \<le> MAX_FRAME_SIZE \<and> k < length (frame_bytes p)
               \<and> sink_wire s = sent_frames we sent @ take k (frame_bytes p))"

lemma sink_inv_emit:
  assumes "sink_inv we em sent s"
  shows "sink_inv we (em @ [b]) sent (emit b s)"
proof -
  from assms have "subseq (sent @ sink_queue s) em" by (simp add: sink_inv_def)
  then have "subseq (sent @ sink_queue s) (em @ [b])" "subseq (sent @ sink_queue s @ [b]) (em @ [b])"
    by (simp_all add: list_emb_prefix flip: append_assoc)
  with assms show ?thesis by (auto simp: sink_inv_def emit_def)
qed

lemma subseq_drop_mid: "subseq (xs @ b # ys) zs \<Longrightarrow> subseq (xs @ ys) zs"
  by (rule subseq_order.trans [of _ "xs @ b # ys"]) (auto intro: list_emb_append_mono)

lemma subseq_append_left: "subseq (xs @ ys) zs \<Longrightarrow> subseq xs zs"
  by (rule subseq_order.trans [of _ "xs @ ys"]) auto

lemma sink_inv_drain:
  assumes "sink_inv we em sent s"
  shows "\<exists>sent'. sink_inv we em sent' (drain_event we failed s)
    \<and> (failed = None \<and> list_all (\<lambda>b. encodable we (event_new b)) (sink_queue s) \<longrightarrow>
         sent' @ sink_queue (drain_event we failed s) = sent @ sink_queue s
         \<and> sink_open (drain_event we failed s) = sink_open s)"
proof (cases "sink_queue s")
  case Nil
  with assms show ?thesis by (auto simp: drain_event_def)
next
  case (Cons b q)
  then show ?thesis
  proof (cases "encodable we (event_new b)")
    case False
    from not_encodable [OF this] obtain x where "encode_frame we (event_new b) [] = ([], Err x)" ..
    with Cons assms \<open>\<not> encodable we (event_new b)\<close> show ?thesis
      by (intro exI [of _ sent]) (auto simp: sink_inv_def drain_event_def dest: subseq_drop_mid)
  next
    case True
    let ?p = "fst (we (event_new b))"
    note enc = encodable_frame [OF True]
    from True have len: "length ?p \<le> MAX_FRAME_SIZE" by (simp add: encodable_def)
    have frame: "sent_frames we [b] = frame_bytes ?p" by (simp add: sent_frames_def enc)
    from Cons assms have sub: "subseq (sent @ b # q) em" by (simp add: sink_inv_def)
    from Cons assms have op: "sink_open s" "sink_wire s = sent_frames we sent" "length q \<le> QUEUE_CAPACITY"
      "list_all (\<lambda>b. encodable we (event_new b)) sent" by (auto simp: sink_inv_def)
    show ?thesis
    proof (cases "\<exists>k. failed = Some k \<and> k < length (frame_bytes ?p)")
      case True
      then obtain k where "failed = Some k" "k < length (frame_bytes ?p)" by blast
      with Cons op sub len enc show ?thesis
        by (intro exI [of _ sent]) (auto simp: sink_inv_def drain_event_def dest: subseq_append_left)
    next
      case False
      have "encodable we (event_new b)" using \<open>encodable we (event_new b)\<close> .
      moreover have "subseq (sent @ [b]) em" using sub subseq_append_left [of "sent @ [b]" q em] by simp
      moreover have "0 < length (frame_bytes ?p)" by (simp add: frame_bytes_def)
      ultimately show ?thesis
        using Cons op sub len enc frame False
        by (intro exI [of _ "sent @ [b]"])
          (fastforce simp: sink_inv_def drain_event_def not_less split: option.splits)
    qed
  qed
qed

text \<open>Nothing to lose an event over: no write fails, every event can be encoded, and no more
  are emitted than the queue holds.\<close>

definition undisturbed :: "(event \<Rightarrow> bytes \<times> string option) \<Rightarrow> sink_action list \<Rightarrow> bool" where
  "undisturbed we acts \<longleftrightarrow> length (emitted acts) \<le> QUEUE_CAPACITY
     \<and> list_all (\<lambda>a. case a of Emit b \<Rightarrow> encodable we (event_new b) | Drain f \<Rightarrow> f = None) acts"

lemma undisturbed_emitted:
  "undisturbed we acts \<Longrightarrow> list_all (\<lambda>b. encodable we (event_new b)) (emitted acts)"
  by (auto simp: undisturbed_def emitted_def list_all_iff split: sink_action.splits)

lemma undisturbed_snoc:
  "undisturbed we (acts @ [a]) \<Longrightarrow> undisturbed we acts \<and> (\<forall>f. a = Drain f \<longrightarrow> f = None)
     \<and> (\<forall>b. a = Emit b \<longrightarrow> length (emitted acts) < QUEUE_CAPACITY)"
  by (cases a) (auto simp: undisturbed_def)

lemma sink_inv_acts:
  "\<exists>sent. sink_inv we (emitted acts) sent (fold (sink_act we) acts sink_new)
    \<and> (undisturbed we acts \<longrightarrow> sent @ sink_queue (fold (sink_act we) acts sink_new) = emitted acts
         \<and> sink_open (fold (sink_act we) acts sink_new))"
proof (induction acts rule: rev_induct)
  case Nil
  show ?case by (intro exI [of _ "[]"]) (simp add: sink_inv_def sink_new_def sent_frames_def)
next
  case (snoc a acts)
  let ?s = "fold (sink_act we) acts sink_new"
  from snoc obtain sent where inv: "sink_inv we (emitted acts) sent ?s"
    and ex: "undisturbed we acts \<Longrightarrow> sent @ sink_queue ?s = emitted acts \<and> sink_open ?s" by blast
  show ?case
  proof (cases a)
    case (Emit b)
    have "sent @ sink_queue (emit b ?s) = emitted acts @ [b] \<and> sink_open (emit b ?s)"
      if "undisturbed we (acts @ [a])"
    proof -
      from undisturbed_snoc [OF that] Emit have "length (emitted acts) < QUEUE_CAPACITY" "undisturbed we acts"
        by auto
      moreover from ex [OF this(2)] have "length (sink_queue ?s) \<le> length (emitted acts)"
        by (metis length_append le_add2)
      ultimately show ?thesis using ex by (simp add: emit_def flip: append_assoc)
    qed
    with Emit sink_inv_emit [OF inv, of b] show ?thesis by (intro exI [of _ sent]) simp
  next
    case (Drain f)
    from sink_inv_drain [OF inv, of f] obtain sent' where
      d: "sink_inv we (emitted acts) sent' (drain_event we f ?s)"
         "f = None \<and> list_all (\<lambda>b. encodable we (event_new b)) (sink_queue ?s) \<longrightarrow>
            sent' @ sink_queue (drain_event we f ?s) = sent @ sink_queue ?s
            \<and> sink_open (drain_event we f ?s) = sink_open ?s" by blast
    have "sent' @ sink_queue (drain_event we f ?s) = emitted acts \<and> sink_open (drain_event we f ?s)"
      if "undisturbed we (acts @ [a])"
    proof -
      from undisturbed_snoc [OF that] Drain have u: "f = None" "undisturbed we acts" by auto
      from undisturbed_emitted [OF u(2)] ex [OF u(2)]
      have "list_all (\<lambda>b. encodable we (event_new b)) (sink_queue ?s)"
        by (metis list_all_append)
      with d(2) u ex [OF u(2)] show ?thesis by simp
    qed
    with Drain d(1) show ?thesis by (intro exI [of _ sent']) simp
  qed
qed

lemma sink_inv_read:
  assumes "serde_ok we de" "sink_inv we em sent s"
  shows "read_messages de (sink_wire s, e) = map event_new sent"
proof -
  have enc: "list_all (encodable we) (map event_new sent)"
    using assms(2) by (simp add: sink_inv_def list_all_length)
  show ?thesis
  proof (cases "sink_open s")
    case True
    with assms(2) read_messages_sent [OF assms(1) enc, of e] show ?thesis
      by (simp add: sink_inv_def sent_frames_def)
  next
    case False
    with assms(2) obtain k p where "length p \<le> MAX_FRAME_SIZE" "k < length (frame_bytes p)"
        "sink_wire s = sent_frames we sent @ take k (frame_bytes p)" by (auto simp: sink_inv_def)
    with read_messages_sent_append [OF assms(1) enc, of "take k (frame_bytes p)" e]
      read_messages_partial [of k p de e] show ?thesis by (simp add: sent_frames_def)
  qed
qed

lemma accept_forward_one:
  "events (fst (accept_and_forward_events de [(Accepted s, alive)] st))
     = events st @ map event_body (read_messages de s)"
proof -
  have "events (fold (\<lambda>ev. broadcast (event_body ev)) evs st) = events st @ map event_body evs" for evs
    by (induction evs arbitrary: st) simp_all
  then show ?thesis by (simp add: Let_def)
qed

lemma map_event_body_new [simp]: "map (\<lambda>b. event_body (event_new b)) bs = bs"
  by (simp add: event_new_def)

section \<open>Properties\<close>

text \<open>C18: Events from a session to the daemon. Whatever the compositor emits and however the
  writer and the socket fare, the daemon broadcasts a subsequence of the emitted events:
  none invented, none twice, none out of order. If no write fails, every event can be
  encoded and no more are emitted than the queue holds, the daemon broadcasts all of them
  but those still queued.\<close>

theorem events_forwarded_in_order:
  assumes "serde_ok we de" and "s = fold (sink_act we) acts sink_new"
  shows "\<exists>bs. events (fst (accept_and_forward_events de [(Accepted (sink_wire s, e), alive)] st)) = events st @ bs
    \<and> subseq bs (emitted acts)
    \<and> (undisturbed we acts \<longrightarrow> bs @ sink_queue s = emitted acts)"
proof -
  obtain sent where inv: "sink_inv we (emitted acts) sent s"
    and ex: "undisturbed we acts \<longrightarrow> sent @ sink_queue s = emitted acts"
    using sink_inv_acts [of we acts] assms(2) by blast
  from inv have "subseq sent (emitted acts)" by (auto simp: sink_inv_def dest: subseq_append_left)
  with ex sink_inv_read [OF assms(1) inv, of e] show ?thesis
    by (intro exI [of _ sent]) (simp add: accept_forward_one comp_def del: accept_and_forward_events.simps)
qed

definition sample_we :: "event \<Rightarrow> bytes \<times> string option" where
  "sample_we ev = (if ev = event_new (SessionCreated ''a'') then ([7], None) else ([], Some []))"

definition sample_de :: "bytes \<Rightarrow> (event, string) result" where
  "sample_de p = (if p = [7] then Ok (event_new (SessionCreated ''a'')) else Err [])"

theorem events_forwarded_in_order_witness:
  "\<exists>bs. events (fst (accept_and_forward_events sample_de
       [(Accepted (sink_wire (fold (sink_act sample_we) [Emit (SessionCreated ''a''), Drain None] sink_new), AtEof), True)]
       sample_registry)) = events sample_registry @ bs \<and> bs = [SessionCreated ''a'']"
proof -
  let ?acts = "[Emit (SessionCreated ''a''), Drain None]"
  have serde: "serde_ok sample_we sample_de"
    by (auto simp: serde_ok_def sample_we_def sample_de_def split: if_splits)
  have u: "undisturbed sample_we ?acts"
    by (simp add: undisturbed_def emitted_def QUEUE_CAPACITY_def encodable_def sample_we_def MAX_FRAME_SIZE_def)
  have "sink_queue (fold (sink_act sample_we) ?acts sink_new) = []"
    using encodable_frame [of sample_we "event_new (SessionCreated ''a'')"]
    by (simp add: sink_new_def emit_def QUEUE_CAPACITY_def drain_event_def encodable_def sample_we_def MAX_FRAME_SIZE_def)
  with u events_forwarded_in_order [OF serde refl, of ?acts AtEof True sample_registry] show ?thesis
    by (simp add: emitted_def del: accept_and_forward_events.simps fold_simps)
qed

end
