(* ===== verification/Bridge.thy ===== *)
theory Bridge
  imports Viewer_Protocol Session_State "HOL-Library.Signed_Division"
begin

text \<open>
  The viewer bridge, the Go process \<open>waymux-neko-bridge\<close> between a session and its browsers:
  \<open>internal/socket/protocol.go\<close>, \<open>internal/input/translator.go\<close>, \<open>internal/server/server.go\<close> and
  \<open>turn.go\<close>, and the session's end of the socket, \<open>spawn_control_reader\<close> of
  \<open>waymux-session/src/viewer/encoder.rs\<close>. Each HTTP request has a goroutine, so \<open>br_step\<close>
  interleaves the sections the goroutines run under the server's locks. A viewer object and a
  connection are numbers. The WebRTC, WebSocket, JWT, UUID and JSON libraries are outside the
  repository: what they answer is an argument, what they are told is a log in the state.
\<close>

section \<open>Frames\<close>

definition MaxPayloadBytes :: nat where "MaxPayloadBytes = 2 ^ 20"

record go_frame =
  gf_tag :: u8
  gf_payload :: bytes

datatype go_error =
    IoEof
  | IoUnexpectedEof
  | GoUnknownTag u8
  | GoPayloadExceeds nat
  | ReadingPayload go_error

text \<open>\<open>io.ReadFull\<close>: the end of the stream is \<open>EOF\<close> only when nothing was read.\<close>

definition read_full :: "nat \<Rightarrow> bytes \<Rightarrow> (bytes \<times> bytes, go_error) result" where
  "read_full n s =
     (if n \<le> length s then Ok (take n s, drop n s)
      else if s = [] then Err IoEof
      else Err IoUnexpectedEof)"

text \<open>\<open>errors.Is(err, io.EOF)\<close>, which looks through wrapped errors.\<close>

fun is_eof :: "go_error \<Rightarrow> bool" where
  "is_eof IoEof = True"
| "is_eof (ReadingPayload e) = is_eof e"
| "is_eof _ = False"

definition WriteFrame :: "go_frame \<Rightarrow> (bytes, go_error) result" where
  "WriteFrame f =
     (if length (gf_payload f) > MaxPayloadBytes then Err (GoPayloadExceeds (length (gf_payload f)))
      else Ok ([gf_tag f] @ le_bytes 4 (length (gf_payload f)) @ gf_payload f))"

definition known_tags :: "u8 list" where
  "known_tags = [TAG_NALU, TAG_PTS, TAG_CURSOR_IMAGE, TAG_CURSOR_POS, TAG_FORCE_KEYFRAME, TAG_INJECT_OP,
     TAG_SET_BITRATE, TAG_SHUTDOWN]"

definition ReadFrame :: "bytes \<Rightarrow> (go_frame \<times> bytes, go_error) result" where
  "ReadFrame s =
     bind_result (read_full 5 s) (\<lambda>(hdr, r).
       let tag = hd hdr; len = of_le_bytes (tl hdr)
       in if tag \<notin> set known_tags then Err (GoUnknownTag tag)
          else if len > MaxPayloadBytes then Err (GoPayloadExceeds len)
          else bind_result (map_err ReadingPayload (read_full len r)) (\<lambda>(payload, r).
                 Ok (\<lparr>gf_tag = tag, gf_payload = payload\<rparr>, r)))"

section \<open>Input events\<close>

record neko_event =
  ne_event :: string
  ne_key_code :: int
  ne_x :: f64
  ne_y :: f64
  ne_button :: int
  ne_delta_x :: f64
  ne_delta_y :: f64
  ne_modifiers :: u32
  ne_seq :: u32

datatype json = JInt int | JFloat f64 | JStr string

record go_inject_op =
  gi_kind :: string
  gi_params :: "(string \<times> json) list"

definition nekoButtonToEvdev :: "int \<Rightarrow> int option" where
  "nekoButtonToEvdev b =
     (if b = 0 then Some 0x110 else if b = 1 then Some 0x112 else if b = 2 then Some 0x111
      else if b = 3 then Some 0x113 else if b = 4 then Some 0x114 else None)"

definition key_op :: "neko_event \<Rightarrow> string \<Rightarrow> go_inject_op" where
  "key_op ev st = \<lparr>gi_kind = ''key'', gi_params =
     [(''keycode'', JInt (ne_key_code ev)), (''state'', JStr st), (''modifiers'', JInt (uint (ne_modifiers ev)))]\<rparr>"

definition pointer_op :: "neko_event \<Rightarrow> string \<Rightarrow> int \<Rightarrow> (string \<times> json) list \<Rightarrow> go_inject_op" where
  "pointer_op ev st button extra = \<lparr>gi_kind = ''pointer'', gi_params =
     [(''x'', JFloat (ne_x ev)), (''y'', JFloat (ne_y ev)), (''state'', JStr st), (''button'', JInt button)] @ extra\<rparr>"

definition neko_op :: "neko_event \<Rightarrow> (go_inject_op, string) result" where
  "neko_op ev =
     (if ne_event ev = ''keydown'' then Ok (key_op ev ''pressed'')
      else if ne_event ev = ''keyup'' then Ok (key_op ev ''released'')
      else if ne_event ev = ''mousemove'' then
        Ok (pointer_op ev ''released'' 0 [(''seq'', JInt (uint (ne_seq ev)))])
      else if ne_event ev = ''mousedown'' then
        (case nekoButtonToEvdev (ne_button ev) of
           None \<Rightarrow> Err (''mousedown: unknown browser button '' @ int_str (ne_button ev))
         | Some evdev \<Rightarrow> Ok (pointer_op ev ''pressed'' evdev []))
      else if ne_event ev = ''mouseup'' then
        (case nekoButtonToEvdev (ne_button ev) of
           None \<Rightarrow> Err (''mouseup: unknown browser button '' @ int_str (ne_button ev))
         | Some evdev \<Rightarrow> Ok (pointer_op ev ''released'' evdev []))
      else if ne_event ev = ''wheel'' then
        Ok (pointer_op ev ''released'' 0
          [(''axis_x'', JFloat (ne_delta_x ev)), (''axis_y'', JFloat (ne_delta_y ev))])
      else Err (''unknown neko event: '' @ ne_event ev))"

text \<open>\<open>Translate\<close>; \<open>un\<close> and \<open>ma\<close> are \<open>json.Unmarshal\<close> into the event and \<open>json.Marshal\<close> of the
  operation.\<close>

definition Translate ::
    "(bytes \<Rightarrow> (neko_event, string) result) \<Rightarrow> (go_inject_op \<Rightarrow> (bytes, string) result) \<Rightarrow> bytes
      \<Rightarrow> (bytes, string) result" where
  "Translate un ma raw =
     (case un raw of
        Err e \<Rightarrow> Err (''parsing neko event: '' @ e)
      | Ok ev \<Rightarrow> bind_result (neko_op ev) ma)"

text \<open>What the session's deserialiser makes of such an object: the field types, the renaming and the
  defaults of \<open>InjectOp\<close> in \<open>messages.rs\<close>.\<close>

fun json_u32 :: "json option \<Rightarrow> u32 option \<Rightarrow> u32 option" where
  "json_u32 (Some (JInt i)) d = (if 0 \<le> i \<and> i < 2 ^ 32 then Some (word_of_int i) else None)"
| "json_u32 None d = d"
| "json_u32 _ d = None"

fun json_f64 :: "json option \<Rightarrow> f64 option \<Rightarrow> f64 option" where
  "json_f64 (Some (JFloat x)) d = Some x"
| "json_f64 (Some (JInt i)) d = Some (of_int i)"
| "json_f64 None d = d"
| "json_f64 _ d = None"

fun json_key_state :: "json option \<Rightarrow> key_state option \<Rightarrow> key_state option" where
  "json_key_state (Some (JStr s)) d =
     (if s = ''pressed'' then Some Pressed else if s = ''released'' then Some Released else None)"
| "json_key_state None d = d"
| "json_key_state _ d = None"

definition inject_op_of_json :: "go_inject_op \<Rightarrow> inject_op option" where
  "inject_op_of_json op =
     (let p = map_of (gi_params op)
      in if gi_kind op = ''key''
         then Option.bind (json_u32 (p ''keycode'') None) (\<lambda>keycode.
              Option.bind (json_key_state (p ''state'') None) (\<lambda>st.
              Option.bind (json_u32 (p ''modifiers'') (Some 0)) (\<lambda>modifiers.
                Some (OpKey keycode st modifiers))))
         else if gi_kind op = ''pointer''
         then Option.bind (json_f64 (p ''x'') None) (\<lambda>x.
              Option.bind (json_f64 (p ''y'') None) (\<lambda>y.
              Option.bind (json_u32 (p ''button'') (Some 0)) (\<lambda>button.
              Option.bind (json_key_state (p ''state'') (Some Released)) (\<lambda>st.
              Option.bind (json_f64 (p ''axis_x'') (Some 0)) (\<lambda>axis_x.
              Option.bind (json_f64 (p ''axis_y'') (Some 0)) (\<lambda>axis_y.
              Option.bind (json_u32 (p ''seq'') (Some 0)) (\<lambda>sq.
                Some (OpPointer x y button st axis_x axis_y None False sq))))))))
         else None)"

section \<open>Connections\<close>

text \<open>A JSON message to a browser. A cursor bitmap travels as the base64 text of its bytes, which is
  kept as the bytes.\<close>

record ice_server =
  ice_url :: string
  ice_username :: string
  ice_credential :: string

datatype ws_msg =
    WsConfig "ice_server list"
  | WsAnswer string
  | WsIce string
  | WsStats u64
  | WsCursorImage u16 u16 "(u16 \<times> u16 \<times> bytes) option"
  | WsCursorPos u32 u32 u32
  | WsPing

datatype ws_policy = DropOnFull | CloseOnFull

definition wsSendBuffer :: nat where "wsSendBuffer = 64"

record ws_conn =
  wc_send :: "ws_msg list"
  wc_stopped :: bool
  wc_closed :: bool
  wc_wire :: "ws_msg list"

definition newWSConn :: ws_conn where
  "newWSConn = \<lparr>wc_send = [], wc_stopped = False, wc_closed = False, wc_wire = []\<rparr>"

definition ws_stop :: "ws_conn \<Rightarrow> ws_conn" where
  "ws_stop c = c\<lparr>wc_stopped := True\<rparr>"

definition enqueue :: "ws_msg \<Rightarrow> ws_policy \<Rightarrow> ws_conn \<Rightarrow> ws_conn \<times> bool" where
  "enqueue msg policy c =
     (if wc_stopped c then (c, False)
      else if length (wc_send c) < wsSendBuffer then (c\<lparr>wc_send := wc_send c @ [msg]\<rparr>, True)
      else (if policy = CloseOnFull then ws_stop c else c, False))"

text \<open>One turn of \<open>writeLoop\<close>. When both channels are ready the choice is the runtime's; \<open>take\<close> says
  whether it takes the message, \<open>ok\<close> whether the socket accepts it.\<close>

definition write_turn :: "bool \<Rightarrow> bool \<Rightarrow> ws_conn \<Rightarrow> ws_conn" where
  "write_turn takes ok c =
     (if wc_closed c then c
      else case wc_send c of
             [] \<Rightarrow> if wc_stopped c then c\<lparr>wc_closed := True\<rparr> else c
           | msg # rest \<Rightarrow>
               if wc_stopped c \<and> \<not> takes then c\<lparr>wc_closed := True\<rparr>
               else if ok then c\<lparr>wc_send := rest, wc_wire := wc_wire c @ [msg]\<rparr>
               else c\<lparr>wc_send := rest, wc_closed := True\<rparr>)"

section \<open>Configuration and tokens\<close>

record bridge_cfg =
  cfg_max_viewers :: int
  cfg_max_handshakes :: int
  cfg_pub_key :: bytes
  cfg_vm_session_id :: string
  cfg_bound_non_loopback :: bool
  cfg_stun :: "string list"
  cfg_turn :: "string list"
  cfg_turn_username :: string
  cfg_turn_credential :: string

definition maxViewers :: "bridge_cfg \<Rightarrow> nat" where
  "maxViewers cfg = (if cfg_max_viewers cfg > 0 then nat (cfg_max_viewers cfg) else 8)"

definition maxHandshakesPerIP :: "bridge_cfg \<Rightarrow> nat" where
  "maxHandshakesPerIP cfg = (if cfg_max_handshakes cfg > 0 then nat (cfg_max_handshakes cfg) else 4)"

definition ice_entry :: "string \<Rightarrow> string \<Rightarrow> string \<Rightarrow> ice_server" where
  "ice_entry u n c = \<lparr>ice_url = u, ice_username = n, ice_credential = c\<rparr>"

text \<open>\<open>buildICEServers\<close>; the list for the browser and the one for the peer have the same entries.\<close>

definition buildICEServers :: "bridge_cfg \<Rightarrow> ice_server list" where
  "buildICEServers cfg =
     (if cfg_stun cfg = [] \<and> cfg_turn cfg = [] then []
      else map (\<lambda>u. ice_entry u [] []) (filter (\<lambda>u. u \<noteq> []) (cfg_stun cfg))
        @ (if cfg_turn cfg \<noteq> [] \<and> cfg_turn_username cfg \<noteq> [] \<and> cfg_turn_credential cfg \<noteq> []
           then map (\<lambda>u. ice_entry u (cfg_turn_username cfg) (cfg_turn_credential cfg))
                  (filter (\<lambda>u. u \<noteq> []) (cfg_turn cfg))
           else []))"

text \<open>What \<open>jwt.Parse\<close> gives back for a token it accepts under the public key, with \<open>EdDSA\<close> as the
  only method, an expiry required and the audience \<open>viewer\<close>.\<close>

record jwt_token =
  jt_valid :: bool
  jt_aud :: "(string list, string) result"
  jt_sub :: "string option"
  jt_vm_session_id :: "string option"

record token_lib =
  jwt_parse :: "bytes \<Rightarrow> string \<Rightarrow> (jwt_token, string) result"
  uuid_parse :: "string \<Rightarrow> (unit, string) result"

definition as_string :: "string option \<Rightarrow> string" where
  "as_string x = (case x of Some s \<Rightarrow> s | None \<Rightarrow> [])"

definition validateViewerToken :: "token_lib \<Rightarrow> bridge_cfg \<Rightarrow> string \<Rightarrow> (unit, string) result" where
  "validateViewerToken lib cfg tokenStr =
     (if cfg_pub_key cfg = []
      then (if cfg_bound_non_loopback cfg
            then Err ''no viewer-token public key configured and bridge is bound to a non-loopback address (fail-closed)''
            else Ok ())
      else if tokenStr = [] then Err ''missing ?token= query param''
      else bind_result (map_err (\<lambda>e. ''jwt parse/validate: '' @ e) (jwt_parse lib (cfg_pub_key cfg) tokenStr)) (\<lambda>tok.
           if \<not> jt_valid tok then Err ''jwt invalid (post-parse)''
           else bind_result (map_err (\<lambda>e. ''jwt aud: '' @ e) (jt_aud tok)) (\<lambda>aud.
           if ''viewer'' \<notin> set aud then Err ''jwt aud does not contain viewer''
           else bind_result (map_err (\<lambda>e. ''jwt sub not a UUID: '' @ e) (uuid_parse lib (as_string (jt_sub tok)))) (\<lambda>_.
           if cfg_vm_session_id cfg = [] then Err ''bridge has no VMSessionID configured (cannot match token)''
           else if as_string (jt_vm_session_id tok) \<noteq> cfg_vm_session_id cfg then Err ''vm_session_id claim mismatch''
           else Ok ()))))"

section \<open>Viewers\<close>

text \<open>The phases of a \<open>handleWS\<close> goroutine: it holds a reservation, it serves a registered viewer, it
  has removed its viewer and still holds its handshake slot (its bitrate goroutine may still tick).\<close>

datatype ws_phase = Setup | Serving nat | Closing nat

record bridge =
  br_cfg :: bridge_cfg
  br_viewers :: "nat list"
  br_primary :: "nat \<Rightarrow> bool"
  br_reserved :: nat
  br_next :: nat
  br_handshakes :: "(string \<times> nat) list"
  br_handlers :: "(nat \<times> string \<times> ws_phase) list"
  br_conns :: "(nat \<times> ws_conn) list"
  br_frames :: u64
  br_in :: bytes
  br_out :: bytes
  br_samples :: "(nat \<times> bytes) list"

definition bridge_new :: "bridge_cfg \<Rightarrow> bridge" where
  "bridge_new cfg = \<lparr>br_cfg = cfg, br_viewers = [], br_primary = (\<lambda>_. False), br_reserved = 0, br_next = 0,
     br_handshakes = [], br_handlers = [], br_conns = [], br_frames = 0, br_in = [], br_out = [], br_samples = []\<rparr>"

definition tryReserveViewerSlot :: "bridge \<Rightarrow> bridge option" where
  "tryReserveViewerSlot s =
     (if length (br_viewers s) + br_reserved s \<ge> maxViewers (br_cfg s) then None
      else Some (s\<lparr>br_reserved := br_reserved s + 1\<rparr>))"

definition release_reservation :: "bridge \<Rightarrow> bridge" where
  "release_reservation s = s\<lparr>br_reserved := br_reserved s - 1\<rparr>"

definition addViewer :: "bridge \<Rightarrow> bridge \<times> nat option" where
  "addViewer s =
     (let s = s\<lparr>br_reserved := br_reserved s - 1\<rparr>
      in if length (br_viewers s) \<ge> maxViewers (br_cfg s) then (s, None)
         else let v = br_next s
              in (s\<lparr>br_next := Suc v, br_viewers := br_viewers s @ [v],
                    br_primary := (\<lambda>x. if x \<in> set (br_viewers s) then False else br_primary s x)(v := True)\<rparr>,
                  Some v))"

definition removeViewer :: "nat \<Rightarrow> bridge \<Rightarrow> bridge" where
  "removeViewer v s =
     (let vs = remove1 v (br_viewers s); s = s\<lparr>br_viewers := vs\<rparr>
      in if br_primary s v \<and> vs \<noteq> [] then s\<lparr>br_primary := (br_primary s)(last vs := True)\<rparr> else s)"

definition handshakes_of :: "string \<Rightarrow> bridge \<Rightarrow> nat" where
  "handshakes_of ip s = (case map_of (br_handshakes s) ip of Some n \<Rightarrow> n | None \<Rightarrow> 0)"

definition acquireHandshakeSlot :: "string \<Rightarrow> bridge \<Rightarrow> bridge option" where
  "acquireHandshakeSlot ip s =
     (if handshakes_of ip s \<ge> maxHandshakesPerIP (br_cfg s) then None
      else Some (s\<lparr>br_handshakes := alist_insert ip (handshakes_of ip s + 1) (br_handshakes s)\<rparr>))"

definition release_handshake :: "string \<Rightarrow> bridge \<Rightarrow> bridge" where
  "release_handshake ip s =
     (let n = handshakes_of ip s
      in if n \<le> 1 then s\<lparr>br_handshakes := alist_remove ip (br_handshakes s)\<rparr>
         else s\<lparr>br_handshakes := alist_insert ip (n - 1) (br_handshakes s)\<rparr>)"

section \<open>The handler\<close>

text \<open>\<open>handleWS\<close> up to the upgrade: the token, the handshake slot, the viewer slot, in this order. A
  request that is turned away leaves the status it is answered with. A request that is let in is
  handler \<open>c\<close> from here on.\<close>

definition ws_admit :: "token_lib \<Rightarrow> nat \<Rightarrow> string \<Rightarrow> string \<Rightarrow> bridge \<Rightarrow> bridge \<times> nat option" where
  "ws_admit lib c ip tokenStr s =
     (case validateViewerToken lib (br_cfg s) tokenStr of
        Err _ \<Rightarrow> (s, Some 401)
      | Ok _ \<Rightarrow>
          (case acquireHandshakeSlot ip s of
             None \<Rightarrow> (s, Some 429)
           | Some s1 \<Rightarrow>
               (case tryReserveViewerSlot s1 of
                  None \<Rightarrow> (release_handshake ip s1, Some 503)
                | Some s2 \<Rightarrow> (s2\<lparr>br_handlers := alist_insert c (ip, Setup) (br_handlers s2)\<rparr>, None))))"

text \<open>The upgrade succeeded: the connection is registered for broadcasts and sent the configuration.\<close>

definition ws_registered :: "nat \<Rightarrow> bridge \<Rightarrow> bridge" where
  "ws_registered c s =
     (let ice = buildICEServers (br_cfg s);
          w = (if ice = [] then newWSConn else fst (enqueue (WsConfig ice) CloseOnFull newWSConn))
      in s\<lparr>br_conns := alist_insert c w (br_conns s)\<rparr>)"

definition end_conn :: "nat \<Rightarrow> bridge \<Rightarrow> bridge" where
  "end_conn c s = s\<lparr>br_conns := alist_remove c (br_conns s)\<rparr>"

text \<open>Any of the set-up steps fails: the deferred calls run.\<close>

definition ws_setup_failed :: "nat \<Rightarrow> string \<Rightarrow> bridge \<Rightarrow> bridge" where
  "ws_setup_failed c ip s =
     (let s = release_handshake ip (release_reservation (end_conn c s))
      in s\<lparr>br_handlers := alist_remove c (br_handlers s)\<rparr>)"

definition ws_commit :: "nat \<Rightarrow> string \<Rightarrow> bridge \<Rightarrow> bridge" where
  "ws_commit c ip s =
     (case addViewer s of
        (s, Some v) \<Rightarrow> s\<lparr>br_handlers := alist_insert c (ip, Serving v) (br_handlers s)\<rparr>
      | (s, None) \<Rightarrow>
          let s = release_handshake ip (end_conn c s)
          in s\<lparr>br_handlers := alist_remove c (br_handlers s)\<rparr>)"

text \<open>\<open>forwardInput\<close>; the socket takes the whole frame or the event is lost.\<close>

definition forwardInput ::
    "(bytes \<Rightarrow> (neko_event, string) result) \<Rightarrow> (go_inject_op \<Rightarrow> (bytes, string) result) \<Rightarrow> bytes \<Rightarrow> bridge \<Rightarrow> bridge" where
  "forwardInput un ma raw s =
     (case Translate un ma raw of
        Err _ \<Rightarrow> s
      | Ok op \<Rightarrow>
          (case WriteFrame \<lparr>gf_tag = TAG_INJECT_OP, gf_payload = op\<rparr> of
             Ok b \<Rightarrow> s\<lparr>br_out := br_out s @ b\<rparr>
           | Err _ \<Rightarrow> s))"

definition ws_event ::
    "(bytes \<Rightarrow> (neko_event, string) result) \<Rightarrow> (go_inject_op \<Rightarrow> (bytes, string) result) \<Rightarrow> nat \<Rightarrow> bytes \<Rightarrow> bridge \<Rightarrow> bridge" where
  "ws_event un ma v raw s = (if br_primary s v then forwardInput un ma raw s else s)"

text \<open>A picture-loss report of any viewer asks the session for a key frame.\<close>

definition ws_picture_loss :: "bridge \<Rightarrow> bridge" where
  "ws_picture_loss s =
     (case WriteFrame \<lparr>gf_tag = TAG_FORCE_KEYFRAME, gf_payload = []\<rparr> of
        Ok b \<Rightarrow> s\<lparr>br_out := br_out s @ b\<rparr>
      | Err _ \<Rightarrow> s)"

text \<open>One tick of the bitrate goroutine, with the estimate and what was sent last; the division is
  that of Go, which truncates.\<close>

definition bitrate_target :: "int \<Rightarrow> int \<Rightarrow> int \<Rightarrow> int" where
  "bitrate_target lo hi est =
     (let target = wrap_signed 64 (est * 85) sdiv 100;
          target = (if target < lo then lo else target)
      in if target > hi then hi else target)"

definition bitrate_tick :: "int \<Rightarrow> int \<Rightarrow> int option \<Rightarrow> nat \<Rightarrow> int \<Rightarrow> bridge \<Rightarrow> bridge \<times> int" where
  "bitrate_tick lo hi est v lastSent s =
     (if \<not> br_primary s v then (s, lastSent)
      else case est of
             None \<Rightarrow> (s, lastSent)
           | Some e \<Rightarrow>
               let target = bitrate_target lo hi e;
                   delta = \<bar>target - lastSent\<bar>;
                   threshold = max (lastSent sdiv 10) 150000
               in if lastSent \<noteq> 0 \<and> delta < threshold then (s, lastSent)
                  else case WriteFrame \<lparr>gf_tag = TAG_SET_BITRATE, gf_payload = le_bytes 4 (nat (target mod 2 ^ 32))\<rparr> of
                         Ok b \<Rightarrow> (s\<lparr>br_out := br_out s @ b\<rparr>, target)
                       | Err _ \<Rightarrow> (s, lastSent))"

text \<open>A message of the server to one connection: a candidate, the statistics, a ping. \<open>handleOffer\<close>
  is told the peer's answer to the offer or which of its calls failed; the flag says whether the
  connection goes on.\<close>

definition ws_send :: "nat \<Rightarrow> ws_msg \<Rightarrow> bridge \<Rightarrow> bridge \<times> bool" where
  "ws_send c msg s =
     (case map_of (br_conns s) c of
        None \<Rightarrow> (s, False)
      | Some w \<Rightarrow>
          (case enqueue msg CloseOnFull w of (w, sent) \<Rightarrow> (s\<lparr>br_conns := alist_insert c w (br_conns s)\<rparr>, sent)))"

definition handleOffer :: "nat \<Rightarrow> (string, string) result \<Rightarrow> bridge \<Rightarrow> bridge \<times> bool" where
  "handleOffer c answer s =
     (case answer of
        Err _ \<Rightarrow> (s, False)
      | Ok sdp \<Rightarrow> ws_send c (WsAnswer sdp) s)"

definition ws_stats :: "nat \<Rightarrow> u64 \<Rightarrow> bridge \<Rightarrow> bridge \<times> u64" where
  "ws_stats c lastCount s = (fst (ws_send c (WsStats (br_frames s - lastCount)) s), br_frames s)"

definition ws_disconnect :: "nat \<Rightarrow> string \<Rightarrow> nat \<Rightarrow> bridge \<Rightarrow> bridge" where
  "ws_disconnect c ip v s =
     (let s = removeViewer v s
      in s\<lparr>br_handlers := alist_insert c (ip, Closing v) (br_handlers s)\<rparr>)"

definition ws_finish :: "nat \<Rightarrow> string \<Rightarrow> bridge \<Rightarrow> bridge" where
  "ws_finish c ip s =
     (let s = release_handshake ip (end_conn c s)
      in s\<lparr>br_handlers := alist_remove c (br_handlers s)\<rparr>)"

text \<open>\<open>/status\<close>: occupied, viewers, primary.\<close>

definition status_reply :: "bridge \<Rightarrow> bool \<times> nat \<times> bool" where
  "status_reply s =
     (let n = length (br_viewers s) in (n > 0, n, n > 0 \<and> br_primary s (hd (br_viewers s))))"

section \<open>The frame pump\<close>

definition cursorImageToWS :: "bytes \<Rightarrow> ws_msg" where
  "cursorImageToWS p =
     (if length p < 8 then WsCursorImage 0 0 None
      else WsCursorImage (le_field 0 2 p) (le_field 2 2 p) (Some (le_field 4 2 p, le_field 6 2 p, drop 8 p)))"

definition cursorPosToWS :: "bytes \<Rightarrow> ws_msg" where
  "cursorPosToWS p =
     (if length p < 12 then WsCursorPos 0 0 0
      else WsCursorPos (le_field 0 4 p) (le_field 4 4 p) (le_field 8 4 p))"

definition broadcastJSON :: "ws_msg \<Rightarrow> bridge \<Rightarrow> bridge" where
  "broadcastJSON msg s = s\<lparr>br_conns := map (\<lambda>(c, w). (c, fst (enqueue msg DropOnFull w))) (br_conns s)\<rparr>"

datatype pump_result = PumpMore | PumpEof | PumpShutdown | PumpFailed go_error

text \<open>\<open>ok v\<close> says whether the track of viewer \<open>v\<close> takes the sample.\<close>

definition pump_frame :: "(nat \<Rightarrow> bool) \<Rightarrow> go_frame \<Rightarrow> bridge \<Rightarrow> bridge \<times> pump_result" where
  "pump_frame ok f s =
     (if gf_tag f = TAG_NALU then
        (if br_viewers s = [] then (s, PumpMore)
         else let took = filter ok (br_viewers s)
              in (s\<lparr>br_samples := br_samples s @ map (\<lambda>v. (v, gf_payload f)) took,
                    br_frames := (if took \<noteq> [] then br_frames s + 1 else br_frames s)\<rparr>, PumpMore))
      else if gf_tag f = TAG_CURSOR_IMAGE then (broadcastJSON (cursorImageToWS (gf_payload f)) s, PumpMore)
      else if gf_tag f = TAG_CURSOR_POS then (broadcastJSON (cursorPosToWS (gf_payload f)) s, PumpMore)
      else if gf_tag f = TAG_PTS then (s, PumpMore)
      else if gf_tag f = TAG_SHUTDOWN then (s, PumpShutdown)
      else (s, PumpMore))"

definition pump_turn :: "(nat \<Rightarrow> bool) \<Rightarrow> bridge \<Rightarrow> bridge \<times> pump_result" where
  "pump_turn ok s =
     (case ReadFrame (br_in s) of
        Err e \<Rightarrow> (s, if is_eof e then PumpEof else PumpFailed e)
      | Ok (f, r) \<Rightarrow> pump_frame ok f (s\<lparr>br_in := r\<rparr>))"

text \<open>\<open>naluPumpLoop\<close> until it returns, or for the given number of frames.\<close>

primrec naluPumpLoop :: "nat \<Rightarrow> (nat \<Rightarrow> bool) \<Rightarrow> bridge \<Rightarrow> bridge \<times> pump_result" where
  "naluPumpLoop 0 ok s = (s, PumpMore)"
| "naluPumpLoop (Suc k) ok s =
     (case pump_turn ok s of
        (s, PumpMore) \<Rightarrow> naluPumpLoop k ok s
      | r \<Rightarrow> r)"

section \<open>The session's end of the socket\<close>

record reader_state =
  cr_stop :: bool
  cr_force_idr :: bool
  cr_target_bitrate :: u32
  cr_session :: session_state

text \<open>What one frame does; \<open>js\<close> is \<open>serde_json::from_slice\<close>.\<close>

fun control_frame ::
    "u64 \<Rightarrow> (bytes \<Rightarrow> (inject_op, string) result) \<Rightarrow> viewer_frame \<Rightarrow> reader_state \<Rightarrow> reader_state" where
  "control_frame now js ForceKeyframe r = r\<lparr>cr_force_idr := True\<rparr>"
| "control_frame now js (SetBitrate bps) r = r\<lparr>cr_target_bitrate := bps\<rparr>"
| "control_frame now js (InjectOpJson j) r =
     (case js j of
        Err _ \<Rightarrow> r
      | Ok (OpKey keycode st modifiers) \<Rightarrow>
          r\<lparr>cr_session := fst (inject_key_state now keycode (st = Pressed) modifiers 0 0 0 (cr_session r))\<rparr>
      | Ok (OpPointer x y button st axis_x axis_y window_id content sq) \<Rightarrow>
          r\<lparr>cr_session := fst (inject_pointer_state now window_id content x y button (st = Pressed) axis_x axis_y sq
             (cr_session r))\<rparr>
      | Ok (OpTouch _ _ _ _ _ _) \<Rightarrow> r)"
| "control_frame now js (Shutdown reason) r = r\<lparr>cr_stop := True\<rparr>"
| "control_frame now js _ r = r"

lemma read_viewer_frame_shorter: "read_viewer_frame s = Ok (f, r) \<Longrightarrow> length r < length s"
  by (auto simp: read_viewer_frame_def Let_def read_exact_Some split: option.splits if_splits)

text \<open>The reader thread, on all the bytes the bridge sends before it closes.\<close>

function control_reader ::
    "u64 \<Rightarrow> (bytes \<Rightarrow> (inject_op, string) result) \<Rightarrow> bytes \<Rightarrow> reader_state \<Rightarrow> reader_state" where
  "control_reader now js s r =
     (if cr_stop r then r
      else case read_viewer_frame s of
             Ok (f, rest) \<Rightarrow> control_reader now js rest (control_frame now js f r)
           | Err _ \<Rightarrow> r\<lparr>cr_stop := True\<rparr>)"
  by pat_completeness auto
termination by (relation "measure (\<lambda>(_, _, s, _). length s)") (auto dest: read_viewer_frame_shorter)

declare control_reader.simps [simp del]

section \<open>Interleaving\<close>

inductive br_step ::
    "token_lib \<Rightarrow> (bytes \<Rightarrow> (neko_event, string) result) \<Rightarrow> (go_inject_op \<Rightarrow> (bytes, string) result)
      \<Rightarrow> bridge \<Rightarrow> bridge \<Rightarrow> bool" for lib un ma where
  st_admit: "map_of (br_handlers s) c = None \<Longrightarrow> br_step lib un ma s (fst (ws_admit lib c ip tok s))"
| st_registered: "map_of (br_handlers s) c = Some (ip, Setup) \<Longrightarrow> br_step lib un ma s (ws_registered c s)"
| st_setup_failed: "map_of (br_handlers s) c = Some (ip, Setup) \<Longrightarrow> br_step lib un ma s (ws_setup_failed c ip s)"
| st_commit: "map_of (br_handlers s) c = Some (ip, Setup) \<Longrightarrow> br_step lib un ma s (ws_commit c ip s)"
| st_event: "map_of (br_handlers s) c = Some (ip, Serving v) \<Longrightarrow> br_step lib un ma s (ws_event un ma v raw s)"
| st_loss: "map_of (br_handlers s) c = Some (ip, Serving v) \<Longrightarrow> br_step lib un ma s (ws_picture_loss s)"
| st_bitrate: "map_of (br_handlers s) c \<in> {Some (ip, Serving v), Some (ip, Closing v)}
    \<Longrightarrow> br_step lib un ma s (fst (bitrate_tick lo hi est v lastSent s))"
| st_send: "br_step lib un ma s (fst (ws_send c msg s))"
| st_offer: "map_of (br_handlers s) c = Some (ip, Serving v) \<Longrightarrow> br_step lib un ma s (fst (handleOffer c answer s))"
| st_stats: "br_step lib un ma s (fst (ws_stats c lastCount s))"
| st_writer: "map_of (br_conns s) c = Some w
    \<Longrightarrow> br_step lib un ma s (s\<lparr>br_conns := alist_insert c (write_turn takes ok w) (br_conns s)\<rparr>)"
| st_disconnect: "map_of (br_handlers s) c = Some (ip, Serving v) \<Longrightarrow> br_step lib un ma s (ws_disconnect c ip v s)"
| st_finish: "map_of (br_handlers s) c = Some (ip, Closing v) \<Longrightarrow> br_step lib un ma s (ws_finish c ip s)"
| st_session: "br_step lib un ma s (s\<lparr>br_in := br_in s @ bs\<rparr>)"
| st_pump: "br_step lib un ma s (fst (pump_turn okv s))"

inductive br_reach ::
    "token_lib \<Rightarrow> (bytes \<Rightarrow> (neko_event, string) result) \<Rightarrow> (go_inject_op \<Rightarrow> (bytes, string) result)
      \<Rightarrow> bridge_cfg \<Rightarrow> bridge \<Rightarrow> bool" for lib un ma cfg where
  reach_new: "br_reach lib un ma cfg (bridge_new cfg)"
| reach_step: "br_reach lib un ma cfg s \<Longrightarrow> br_step lib un ma s s' \<Longrightarrow> br_reach lib un ma cfg s'"

section \<open>Invariant\<close>

text \<open>How many handlers satisfy \<open>P\<close>.\<close>

definition handlers_with :: "('v \<Rightarrow> bool) \<Rightarrow> ('k \<times> 'v) list \<Rightarrow> nat" where
  "handlers_with P hs = length (filter (\<lambda>h. P (snd h)) hs)"

definition slots_inv :: "bridge \<Rightarrow> bool" where
  "slots_inv s \<longleftrightarrow> length (br_viewers s) + br_reserved s \<le> maxViewers (br_cfg s)
     \<and> br_reserved s = handlers_with (\<lambda>h. snd h = Setup) (br_handlers s)"

definition handshake_inv :: "bridge \<Rightarrow> bool" where
  "handshake_inv s \<longleftrightarrow> (\<forall>ip. handshakes_of ip s = handlers_with (\<lambda>h. fst h = ip) (br_handlers s))
     \<and> (\<forall>ip. handlers_with (\<lambda>h. fst h = ip) (br_handlers s) \<le> maxHandshakesPerIP (br_cfg s))"

text \<open>The viewer a handler serves.\<close>

definition serving :: "bridge \<Rightarrow> nat \<Rightarrow> nat option" where
  "serving s c = (case map_of (br_handlers s) c of Some (ip, Serving v) \<Rightarrow> Some v | _ \<Rightarrow> None)"

definition primary_inv :: "bridge \<Rightarrow> bool" where
  "primary_inv s \<longleftrightarrow> distinct (br_viewers s)
     \<and> (\<forall>v \<in> set (br_viewers s). v < br_next s \<and> (br_primary s v \<longleftrightarrow> v = last (br_viewers s)))
     \<and> set (br_viewers s) = ran (serving s)
     \<and> inj_on (serving s) (dom (serving s))"

definition br_inv :: "bridge \<Rightarrow> bool" where
  "br_inv s \<longleftrightarrow> distinct (map fst (br_handlers s)) \<and> distinct (map fst (br_handshakes s))
     \<and> slots_inv s \<and> handshake_inv s \<and> primary_inv s"

section \<open>Lemmas\<close>

lemma handlers_with_insert:
  assumes "distinct (map fst hs)"
  shows "handlers_with P (alist_insert k v hs) + (case map_of hs k of Some w \<Rightarrow> of_bool (P w) | None \<Rightarrow> 0)
    = handlers_with P hs + of_bool (P v)"
  using assms by (induction k v hs rule: alist_insert.induct) (auto simp: handlers_with_def split: option.splits)

lemma handlers_with_remove:
  assumes "distinct (map fst hs)"
  shows "handlers_with P (alist_remove k hs) + (case map_of hs k of Some w \<Rightarrow> of_bool (P w) | None \<Rightarrow> 0)
    = handlers_with P hs"
proof (use assms in \<open>induction hs\<close>)
  case (Cons h hs)
  have "alist_remove k hs = hs" if "k \<notin> set (map fst hs)"
    using that by (auto simp: alist_remove_def intro!: filter_True)
  with Cons show ?case by (cases h) (force simp: handlers_with_def alist_remove_def split: option.splits)
qed (simp add: handlers_with_def alist_remove_def)

text \<open>The part of the state the invariant reads.\<close>

definition same_slots :: "bridge \<Rightarrow> bridge \<Rightarrow> bool" where
  "same_slots s s' \<longleftrightarrow> br_cfg s' = br_cfg s \<and> br_viewers s' = br_viewers s \<and> br_primary s' = br_primary s
     \<and> br_reserved s' = br_reserved s \<and> br_next s' = br_next s \<and> br_handshakes s' = br_handshakes s
     \<and> br_handlers s' = br_handlers s"

lemma serving_same: "br_handlers s' = br_handlers s \<Longrightarrow> serving s' = serving s"
  by (rule ext) (simp add: serving_def)

lemma same_slots_inv: "same_slots s s' \<Longrightarrow> br_inv s' = br_inv s"
  using serving_same [of s' s]
  by (simp add: same_slots_def br_inv_def slots_inv_def handshake_inv_def primary_inv_def handshakes_of_def)

lemma same_slots_intros [intro]:
  "same_slots s (ws_registered c s)" "same_slots s (forwardInput un ma raw s)" "same_slots s (ws_event un ma v raw s)"
  "same_slots s (ws_picture_loss s)" "same_slots s (fst (bitrate_tick lo hi est v l s))" "same_slots s (fst (ws_send c msg s))"
  "same_slots s (fst (handleOffer c answer s))" "same_slots s (fst (ws_stats c n s))" "same_slots s (fst (pump_turn ok s))"
  by (auto simp: same_slots_def ws_registered_def forwardInput_def ws_event_def ws_picture_loss_def bitrate_tick_def
      ws_send_def handleOffer_def ws_stats_def pump_turn_def pump_frame_def broadcastJSON_def Let_def
      split: result.splits option.splits prod.splits)

lemma handshakes_of_simps [simp]:
  "handshakes_of ip (s\<lparr>br_handlers := hs\<rparr>) = handshakes_of ip s" "handshakes_of ip (s\<lparr>br_conns := cs\<rparr>) = handshakes_of ip s"
  "handshakes_of ip (s\<lparr>br_reserved := n\<rparr>) = handshakes_of ip s" "handshakes_of ip (s\<lparr>br_viewers := vs\<rparr>) = handshakes_of ip s"
  "handshakes_of ip (s\<lparr>br_primary := p\<rparr>) = handshakes_of ip s" "handshakes_of ip (s\<lparr>br_next := n\<rparr>) = handshakes_of ip s"
  by (simp_all add: handshakes_of_def)

lemma acquire_effect:
  assumes "acquireHandshakeSlot ip s = Some s'"
  shows "handshakes_of q s' = handshakes_of q s + of_bool (ip = q)" "handshakes_of ip s < maxHandshakesPerIP (br_cfg s)"
    "s' = s\<lparr>br_handshakes := br_handshakes s'\<rparr>"
    "distinct (map fst (br_handshakes s)) \<Longrightarrow> distinct (map fst (br_handshakes s'))"
  using assms by (auto simp: acquireHandshakeSlot_def handshakes_of_def split: if_splits)

lemma release_effect:
  "handshakes_of q (release_handshake ip s) = handshakes_of q s - of_bool (ip = q)"
  "distinct (map fst (br_handshakes s)) \<Longrightarrow> distinct (map fst (br_handshakes (release_handshake ip s)))"
  by (auto simp: release_handshake_def handshakes_of_def Let_def split: option.splits)

lemma release_handshake_simps [simp]:
  "br_cfg (release_handshake ip s) = br_cfg s" "br_viewers (release_handshake ip s) = br_viewers s"
  "br_primary (release_handshake ip s) = br_primary s" "br_reserved (release_handshake ip s) = br_reserved s"
  "br_next (release_handshake ip s) = br_next s" "br_handlers (release_handshake ip s) = br_handlers s"
  by (simp_all add: release_handshake_def Let_def)

lemma release_acquired:
  assumes "acquireHandshakeSlot ip s = Some s'" "br_inv s"
  shows "br_inv (release_handshake ip s')"
proof -
  note a = acquire_effect [OF assms(1)]
  have "handshakes_of q (release_handshake ip s') = handshakes_of q s" for q
    by (simp add: release_effect(1) a(1))
  moreover have "distinct (map fst (br_handshakes (release_handshake ip s')))"
    using assms(2) by (simp add: release_effect(2) a(4) br_inv_def)
  moreover have "br_cfg s' = br_cfg s" "br_viewers s' = br_viewers s" "br_primary s' = br_primary s"
    "br_reserved s' = br_reserved s" "br_next s' = br_next s" "br_handlers s' = br_handlers s"
    by (simp_all add: a(3) [THEN arg_cong, of br_cfg] a(3) [THEN arg_cong, of br_viewers] a(3) [THEN arg_cong, of br_primary]
        a(3) [THEN arg_cong, of br_reserved] a(3) [THEN arg_cong, of br_next] a(3) [THEN arg_cong, of br_handlers])
  moreover have "serving (release_handshake ip s') = serving s"
    by (rule serving_same) (simp add: calculation)
  ultimately show ?thesis
    using assms(2) by (simp add: br_inv_def slots_inv_def handshake_inv_def primary_inv_def)
qed

lemma serving_insert:
  "serving (s\<lparr>br_handlers := alist_insert c (ip, p) hs\<rparr>)
     = (serving (s\<lparr>br_handlers := hs\<rparr>))(c := (case p of Serving v \<Rightarrow> Some v | _ \<Rightarrow> None))"
  by (rule ext) (simp add: serving_def)

lemma serving_remove: "serving (s\<lparr>br_handlers := alist_remove c hs\<rparr>) = (serving (s\<lparr>br_handlers := hs\<rparr>))(c := None)"
  by (rule ext) (simp add: serving_def)

lemma primary_inv_same:
  assumes "primary_inv s" "br_viewers s' = br_viewers s" "br_primary s' = br_primary s" "br_next s' = br_next s"
    and "serving s' = serving s"
  shows "primary_inv s'"
  using assms by (simp add: primary_inv_def)

lemma admit_inv:
  assumes "br_inv s" "map_of (br_handlers s) c = None"
  shows "br_inv (fst (ws_admit lib c ip tok s))"
proof (cases "validateViewerToken lib (br_cfg s) tok")
  case (Ok u)
  show ?thesis
  proof (cases "acquireHandshakeSlot ip s")
    case (Some s1)
    note a = acquire_effect [OF Some]
    have same: "br_cfg s1 = br_cfg s" "br_viewers s1 = br_viewers s" "br_primary s1 = br_primary s"
      "br_reserved s1 = br_reserved s" "br_next s1 = br_next s" "br_handlers s1 = br_handlers s"
      using Some by (auto simp: acquireHandshakeSlot_def split: if_splits)
    note count = handlers_with_insert [of "br_handlers s" _ c "(ip, Setup)", unfolded assms(2)]
    show ?thesis
    proof (cases "tryReserveViewerSlot s1")
      case None
      with Ok Some release_acquired [OF Some assms(1)] show ?thesis by (simp add: ws_admit_def)
    next
      case (Some s2)
      then have s2: "s2 = s1\<lparr>br_reserved := br_reserved s + 1\<rparr>"
        "length (br_viewers s) + br_reserved s < maxViewers (br_cfg s)"
        by (auto simp: tryReserveViewerSlot_def same split: if_splits)
      have d: "distinct (map fst (br_handlers s))" using assms(1) by (simp add: br_inv_def)
      have sv: "serving (s2\<lparr>br_handlers := alist_insert c (ip, Setup) (br_handlers s)\<rparr>) = serving s"
        using assms(2) by (intro ext) (simp add: serving_def)
      have pr: "primary_inv s" using assms(1) by (simp add: br_inv_def)
      have "primary_inv (s2\<lparr>br_handlers := alist_insert c (ip, Setup) (br_handlers s)\<rparr>)"
        by (rule primary_inv_same [OF pr _ _ _ sv]) (simp_all add: s2(1) same)
      then have "br_inv (s2\<lparr>br_handlers := alist_insert c (ip, Setup) (br_handlers s)\<rparr>)"
        using assms s2 a(1,2,4) count [OF d, of "\<lambda>h. snd h = Setup"] count [OF d, of "\<lambda>h. fst h = q" for q]
        by (auto simp: br_inv_def slots_inv_def handshake_inv_def same)
      then show ?thesis using Ok \<open>acquireHandshakeSlot ip s = Some s1\<close> Some
        by (simp add: ws_admit_def s2(1) same)
    qed
  qed (use Ok assms(1) in \<open>simp add: ws_admit_def\<close>)
qed (use assms(1) in \<open>simp add: ws_admit_def\<close>)

text \<open>What the table counts after a handler leaves or changes its phase.\<close>

lemma count_leave:
  assumes "distinct (map fst hs)" "map_of hs c = Some (ip, p)"
  shows "handlers_with (\<lambda>h. fst h = q) (alist_remove c hs) = handlers_with (\<lambda>h. fst h = q) hs - of_bool (ip = q)"
    "handlers_with (\<lambda>h. snd h = Setup) (alist_remove c hs) = handlers_with (\<lambda>h. snd h = Setup) hs - of_bool (p = Setup)"
    "p = Setup \<Longrightarrow> 0 < handlers_with (\<lambda>h. snd h = Setup) hs"
  using handlers_with_remove [OF assms(1), of "\<lambda>h. fst h = q" c] handlers_with_remove [OF assms(1), of "\<lambda>h. snd h = Setup" c]
    assms(2) by auto

lemma count_phase:
  assumes "distinct (map fst hs)" "map_of hs c = Some (ip, p)" "p' \<noteq> Setup"
  shows "handlers_with (\<lambda>h. fst h = q) (alist_insert c (ip, p') hs) = handlers_with (\<lambda>h. fst h = q) hs"
    "handlers_with (\<lambda>h. snd h = Setup) (alist_insert c (ip, p') hs) = handlers_with (\<lambda>h. snd h = Setup) hs - of_bool (p = Setup)"
  using handlers_with_insert [OF assms(1), of "\<lambda>h. fst h = q" c "(ip, p')"]
    handlers_with_insert [OF assms(1), of "\<lambda>h. snd h = Setup" c "(ip, p')"] assms(2,3) by auto

lemma le_diff_bool: "a \<le> b \<Longrightarrow> a - of_bool P \<le> (b :: nat)"
  by simp

lemma setup_failed_inv:
  assumes "br_inv s" "map_of (br_handlers s) c = Some (ip, Setup)"
  shows "br_inv (ws_setup_failed c ip s)"
proof -
  have d: "distinct (map fst (br_handlers s))" and pr: "primary_inv s" using assms(1) by (simp_all add: br_inv_def)
  have sv: "serving (ws_setup_failed c ip s) = serving s"
    using assms(2) by (intro ext) (simp add: serving_def ws_setup_failed_def Let_def release_reservation_def end_conn_def)
  have "primary_inv (ws_setup_failed c ip s)"
    by (rule primary_inv_same [OF pr _ _ _ sv]) (simp_all add: ws_setup_failed_def Let_def release_reservation_def end_conn_def)
  then show ?thesis
    using assms(1) count_leave [OF d assms(2)]
    by (auto simp: br_inv_def slots_inv_def handshake_inv_def ws_setup_failed_def Let_def release_effect
        release_reservation_def end_conn_def le_diff_bool)
qed

lemma finish_inv:
  assumes "br_inv s" "map_of (br_handlers s) c = Some (ip, Closing v)"
  shows "br_inv (ws_finish c ip s)"
proof -
  have d: "distinct (map fst (br_handlers s))" and pr: "primary_inv s" using assms(1) by (simp_all add: br_inv_def)
  have sv: "serving (ws_finish c ip s) = serving s"
    using assms(2) by (intro ext) (simp add: serving_def ws_finish_def Let_def end_conn_def)
  have "primary_inv (ws_finish c ip s)"
    by (rule primary_inv_same [OF pr _ _ _ sv]) (simp_all add: ws_finish_def Let_def end_conn_def)
  then show ?thesis
    using assms(1) count_leave [OF d assms(2)]
    by (simp add: br_inv_def slots_inv_def handshake_inv_def ws_finish_def Let_def release_effect end_conn_def le_diff_bool)
qed

lemma commit_slot:
  assumes "br_inv s" "map_of (br_handlers s) c = Some (ip, Setup)"
  shows "length (br_viewers s) < maxViewers (br_cfg s)"
  using assms count_leave(3) [of "br_handlers s" c ip Setup] by (simp add: br_inv_def slots_inv_def)

lemma commit_inv:
  assumes "br_inv s" "map_of (br_handlers s) c = Some (ip, Setup)"
  shows "br_inv (ws_commit c ip s)"
proof -
  have d: "distinct (map fst (br_handlers s))" and pr: "primary_inv s" using assms(1) by (simp_all add: br_inv_def)
  let ?v = "br_next s"
  have c: "ws_commit c ip s = s\<lparr>br_reserved := br_reserved s - 1, br_next := Suc ?v, br_viewers := br_viewers s @ [?v],
      br_primary := (\<lambda>x. if x \<in> set (br_viewers s) then False else br_primary s x)(?v := True),
      br_handlers := alist_insert c (ip, Serving ?v) (br_handlers s)\<rparr>"
    using commit_slot [OF assms] by (simp add: ws_commit_def addViewer_def Let_def)
  have fresh: "?v \<notin> set (br_viewers s)" "?v \<notin> ran (serving s)" using pr by (auto simp: primary_inv_def)
  have sv: "serving (ws_commit c ip s) = (serving s)(c := Some ?v)" "serving s c = None"
    using assms(2) by (auto simp: serving_def c)
  have "inj_on (serving (ws_commit c ip s)) (dom (serving (ws_commit c ip s)))"
    using pr fresh(2) sv(2) unfolding sv(1) primary_inv_def inj_on_def by (auto simp: ran_def dom_def)
  then have "primary_inv (ws_commit c ip s)"
    using pr fresh sv by (auto simp: primary_inv_def c less_Suc_eq)
  then show ?thesis
    using assms(1) count_phase [OF d assms(2), of "Serving ?v"] count_leave(3) [OF d assms(2)]
    by (simp add: br_inv_def slots_inv_def handshake_inv_def c)
qed

lemma last_remove1: "x \<noteq> last xs \<Longrightarrow> last (remove1 x xs) = last xs"
  by (cases xs rule: rev_cases) (auto simp: remove1_append)

lemma disconnect_inv:
  assumes "br_inv s" "map_of (br_handlers s) c = Some (ip, Serving v)"
  shows "br_inv (ws_disconnect c ip v s)"
proof -
  have d: "distinct (map fst (br_handlers s))" and pr: "primary_inv s" using assms(1) by (simp_all add: br_inv_def)
  let ?vs = "remove1 v (br_viewers s)"
  have sv: "serving (ws_disconnect c ip v s) = (serving s)(c := None)" "serving s c = Some v"
    using assms(2) by (auto simp: serving_def ws_disconnect_def removeViewer_def Let_def)
  have ran: "ran ((serving s)(c := None)) = ran (serving s) - {v}"
  proof -
    have "a = c" if "serving s a = Some v" for a
      using pr sv(2) that by (auto simp: primary_inv_def inj_on_def dom_def)
    then have "(\<exists>a. ((serving s)(c := None)) a = Some x) \<longleftrightarrow> (\<exists>a. serving s a = Some x) \<and> x \<noteq> v" for x
      using sv(2) by (metis fun_upd_apply option.distinct(1) option.inject)
    then show ?thesis by (simp add: ran_def set_eq_iff)
  qed
  have inj: "inj_on ((serving s)(c := None)) (dom ((serving s)(c := None)))"
    using pr by (auto simp: primary_inv_def inj_on_def)
  have f: "br_viewers (ws_disconnect c ip v s) = ?vs" "br_next (ws_disconnect c ip v s) = br_next s"
    "br_primary (ws_disconnect c ip v s)
       = (if br_primary s v \<and> ?vs \<noteq> [] then (br_primary s)(last ?vs := True) else br_primary s)"
    by (simp_all add: ws_disconnect_def removeViewer_def Let_def)
  have mem: "v \<in> set (br_viewers s)" using pr sv(2) by (auto simp: primary_inv_def ran_def)
  have "br_primary (ws_disconnect c ip v s) w \<longleftrightarrow> w = last ?vs" if "w \<in> set ?vs" for w
  proof -
    have w: "w \<noteq> v" "br_primary s w \<longleftrightarrow> w = last (br_viewers s)" "br_primary s v \<longleftrightarrow> v = last (br_viewers s)"
      using that pr mem by (auto simp: primary_inv_def)
    have ne: "?vs \<noteq> []" using that by (metis empty_iff empty_set)
    show ?thesis
    proof (cases "v = last (br_viewers s)")
      case True
      with w ne show ?thesis unfolding f(3) by simp
    next
      case False
      with w ne show ?thesis unfolding f(3) by (simp add: last_remove1)
    qed
  qed
  moreover have "distinct (br_viewers s)" "set (br_viewers s) = ran (serving s)" "\<forall>v \<in> set (br_viewers s). v < br_next s"
    using pr by (simp_all add: primary_inv_def)
  ultimately have "primary_inv (ws_disconnect c ip v s)"
    unfolding primary_inv_def f(1,2) sv(1) ran using inj by simp
  then show ?thesis
    using assms(1) count_phase [OF d assms(2), of "Closing v"]
    by (auto simp: br_inv_def slots_inv_def handshake_inv_def ws_disconnect_def removeViewer_def Let_def length_remove1)
qed

lemma br_step_inv: "br_step lib un ma s s' \<Longrightarrow> br_inv s \<Longrightarrow> br_inv s'"
proof (induction rule: br_step.induct)
  case (st_bitrate s c ip v lo hi est lastSent)
  then show ?case using same_slots_inv [OF same_slots_intros(5)] by blast
next
  case (st_writer s c w takes ok)
  then show ?case by (subst same_slots_inv [of s]) (simp_all add: same_slots_def)
next
  case (st_session s bs)
  then show ?case by (subst same_slots_inv [of s]) (simp_all add: same_slots_def)
qed (simp_all add: admit_inv setup_failed_inv finish_inv commit_inv disconnect_inv same_slots_intros [THEN same_slots_inv])

lemma br_step_cfg: "br_step lib un ma s s' \<Longrightarrow> br_cfg s' = br_cfg s"
proof (induction rule: br_step.induct)
  case (st_admit s c ip tok)
  then show ?case
    by (auto simp: ws_admit_def acquireHandshakeSlot_def tryReserveViewerSlot_def split: result.split option.split)
next
  case (st_bitrate s c ip v lo hi est lastSent)
  show ?case using same_slots_intros(5) by (simp add: same_slots_def)
qed (use same_slots_intros in \<open>simp_all add: same_slots_def ws_setup_failed_def ws_finish_def ws_disconnect_def ws_commit_def
    removeViewer_def addViewer_def end_conn_def release_reservation_def Let_def\<close>)

lemma br_reach_inv: "br_reach lib un ma cfg s \<Longrightarrow> br_inv s \<and> br_cfg s = cfg"
proof (induction rule: br_reach.induct)
  case reach_new
  show ?case
    by (simp add: bridge_new_def br_inv_def slots_inv_def handshake_inv_def primary_inv_def handlers_with_def
        handshakes_of_def serving_def [abs_def])
next
  case (reach_step s s')
  then show ?case using br_step_inv br_step_cfg by fastforce
qed

lemma enqueue_bounded:
  "length (wc_send c) \<le> wsSendBuffer \<Longrightarrow> length (wc_send (fst (enqueue m p c))) \<le> wsSendBuffer"
  by (auto simp: enqueue_def ws_stop_def)

text \<open>A slow viewer misses a broadcast and nothing else: it is not stopped, and what the others are sent
  does not depend on it.\<close>

lemma broadcast_isolated:
  "map_of (br_conns (broadcastJSON m s)) c
    = map_option (\<lambda>w. if wc_stopped w \<or> length (wc_send w) \<ge> wsSendBuffer then w else w\<lparr>wc_send := wc_send w @ [m]\<rparr>)
        (map_of (br_conns s) c)"
proof -
  have "map_of (map (\<lambda>(c, w). (c, f w)) xs) c = map_option f (map_of xs c)" for f and xs :: "(nat \<times> ws_conn) list"
    by (induction xs) auto
  then have "map_of (br_conns (broadcastJSON m s)) c = map_option (\<lambda>w. fst (enqueue m DropOnFull w)) (map_of (br_conns s) c)"
    by (simp add: broadcastJSON_def)
  then show ?thesis by (cases "map_of (br_conns s) c") (auto simp: enqueue_def)
qed

text \<open>The writer sends what was accepted, in order; a message is lost only with the connection.\<close>

lemma write_turn_order:
  "wc_wire (write_turn takes ok c) @ wc_send (write_turn takes ok c) = wc_wire c @ wc_send c
    \<or> wc_closed (write_turn takes ok c)"
  by (auto simp: write_turn_def split: list.splits)

lemma turn_needs_credentials:
  "e \<in> set (buildICEServers cfg) \<Longrightarrow> ice_url e \<noteq> [] \<and> (ice_url e \<in> set (cfg_stun cfg) \<or>
     ice_url e \<in> set (cfg_turn cfg) \<and> ice_username e \<noteq> [] \<and> ice_credential e \<noteq> [])"
  by (auto simp: buildICEServers_def ice_entry_def split: if_splits)

section \<open>Frames between the two processes\<close>

lemma maxes: "MaxPayloadBytes = MAX_PAYLOAD_BYTES"
  by (simp add: MaxPayloadBytes_def MAX_PAYLOAD_BYTES_def)

definition go_frame_ok :: "go_frame \<Rightarrow> bool" where
  "go_frame_ok f \<longleftrightarrow> gf_tag f \<in> set known_tags \<and> length (gf_payload f) \<le> MaxPayloadBytes"

definition go_enc :: "go_frame \<Rightarrow> bytes" where
  "go_enc f = unwrap_ok [] (WriteFrame f)"

definition go_rd :: "bytes \<Rightarrow> (go_frame \<times> bytes) option" where
  "go_rd s = (case ReadFrame s of Ok x \<Rightarrow> Some x | Err _ \<Rightarrow> None)"

lemma read_full_append: "length xs = n \<Longrightarrow> read_full n (xs @ ys) = Ok (xs, ys)"
  by (simp add: read_full_def)

lemma ReadFrame_bytes:
  assumes "tag \<in> set known_tags" "length p \<le> MaxPayloadBytes"
  shows "ReadFrame ([tag] @ le_bytes 4 (length p) @ p @ rest) = Ok (\<lparr>gf_tag = tag, gf_payload = p\<rparr>, rest)"
proof -
  have "read_full 5 ((tag # le_bytes 4 (length p)) @ p @ rest) = Ok (tag # le_bytes 4 (length p), p @ rest)"
    by (rule read_full_append) simp
  moreover have "of_le_bytes (le_bytes 4 (length p)) = length p"
    using assms(2) by (simp add: of_le_bytes_le_bytes MaxPayloadBytes_def)
  ultimately show ?thesis
    using assms by (simp add: ReadFrame_def read_full_append Let_def)
qed

lemma WriteFrame_ok:
  "length (gf_payload f) \<le> MaxPayloadBytes
    \<Longrightarrow> WriteFrame f = Ok ([gf_tag f] @ le_bytes 4 (length (gf_payload f)) @ gf_payload f)"
  by (simp add: WriteFrame_def)

interpretation go_frames: self_delimiting go_enc go_rd go_frame_ok
proof
  fix f rest
  assume "go_frame_ok f"
  then show "go_rd (go_enc f @ rest) = Some (f, rest)"
    using ReadFrame_bytes [of "gf_tag f" "gf_payload f" rest]
    by (simp add: go_frame_ok_def go_rd_def go_enc_def WriteFrame_ok)
qed

text \<open>What the session writes is the same bytes.\<close>

definition go_of_viewer :: "viewer_frame \<Rightarrow> go_frame" where
  "go_of_viewer f = (case viewer_parts f of (tag, p) \<Rightarrow> \<lparr>gf_tag = tag, gf_payload = p\<rparr>)"

lemma go_of_viewer_ok: "viewer_frame_ok f \<Longrightarrow> go_frame_ok (go_of_viewer f)"
  by (cases f) (simp_all add: go_of_viewer_def go_frame_ok_def known_tags_def maxes MAX_PAYLOAD_BYTES_def)

lemma viewer_enc_go:
  assumes "viewer_frame_ok f"
  shows "viewer_enc f = go_enc (go_of_viewer f)"
proof -
  obtain tag p where tp: "viewer_parts f = (tag, p)" by fastforce
  have "length p \<le> MAX_PAYLOAD_BYTES" using parse_viewer_parts [OF assms tp] by simp
  then show ?thesis
    by (simp add: viewer_enc_def go_enc_def go_of_viewer_def write_viewer_parts tp write_payload_def WriteFrame_ok maxes)
      (simp add: MAX_PAYLOAD_BYTES_def)
qed

text \<open>The bridge reads back what the session writes.\<close>

lemma ReadFrame_viewer:
  assumes "viewer_frame_ok f"
  shows "ReadFrame (viewer_enc f @ rest) = Ok (go_of_viewer f, rest)"
  using go_frames.rd_enc [OF go_of_viewer_ok [OF assms], of rest]
  by (auto simp: viewer_enc_go assms go_rd_def split: result.splits)

text \<open>The session reads what the bridge writes.\<close>

lemma session_reads_go:
  assumes "WriteFrame \<lparr>gf_tag = tag, gf_payload = p\<rparr> = Ok b" "parse_payload tag (length p) p = Ok f"
  shows "read_viewer_frame (b @ rest) = Ok (f, rest)"
proof -
  have "length p \<le> MAX_PAYLOAD_BYTES" "write_payload tag p = Ok b"
    using assms(1) by (auto simp: WriteFrame_def maxes write_payload_def MAX_PAYLOAD_BYTES_def split: if_splits)
  with read_written_payload [OF _ assms(2), of rest] show ?thesis by auto
qed

section \<open>The pump\<close>

lemma pump_turn_viewer:
  assumes "viewer_frame_ok f" "br_in s = viewer_enc f @ rest"
  shows "pump_turn ok s = pump_frame ok (go_of_viewer f) (s\<lparr>br_in := rest\<rparr>)"
  using assms by (simp add: pump_turn_def ReadFrame_viewer)

definition samples_of :: "nat \<Rightarrow> bridge \<Rightarrow> bytes list" where
  "samples_of v s = map snd (filter (\<lambda>x. fst x = v) (br_samples s))"

fun nalu_of :: "viewer_frame \<Rightarrow> bytes list" where
  "nalu_of (Nalu b) = [b]"
| "nalu_of _ = []"

fun is_shutdown :: "viewer_frame \<Rightarrow> bool" where
  "is_shutdown (Shutdown _) = True"
| "is_shutdown _ = False"

lemma filter_distinct_one: "distinct vs \<Longrightarrow> filter (\<lambda>x. x = v) vs = (if v \<in> set vs then [v] else [])"
  by (induction vs) auto

lemma pump_frame_viewer:
  assumes "viewer_frame_ok f" "\<not> is_shutdown f" "distinct (br_viewers s)" "v \<in> set (br_viewers s)"
  obtains s' where "pump_frame (\<lambda>_. True) (go_of_viewer f) s = (s', PumpMore)" "br_in s' = br_in s"
    "br_viewers s' = br_viewers s" "samples_of v s' = samples_of v s @ nalu_of f"
proof -
  have one: "filter (\<lambda>x. fst x = v) (map (\<lambda>w. (w, b)) (br_viewers s)) = [(v, b)]" for b :: bytes
    using filter_distinct_one [OF assms(3), of v] assms(4) by (simp add: filter_map comp_def)
  show thesis
    by (rule that [of "fst (pump_frame (\<lambda>_. True) (go_of_viewer f) s)"])
      (use assms(2,4) one in \<open>cases f; auto simp: pump_frame_def go_of_viewer_def tag_defs broadcastJSON_def samples_of_def Let_def\<close>)+
qed

lemma pump_stream:
  assumes "list_all viewer_frame_ok fs" "\<not> list_ex is_shutdown fs" "distinct (br_viewers s)" "v \<in> set (br_viewers s)"
    and "br_in s = concat (map viewer_enc fs)"
  shows "\<exists>s'. naluPumpLoop (Suc (length fs)) (\<lambda>_. True) s = (s', PumpEof)
    \<and> samples_of v s' = samples_of v s @ concat (map nalu_of fs)"
  using assms
proof (induction fs arbitrary: s)
  case Nil
  then show ?case by (simp add: pump_turn_def ReadFrame_def read_full_def)
next
  case (Cons f fs)
  let ?s = "s\<lparr>br_in := concat (map viewer_enc fs)\<rparr>"
  have turn: "pump_turn (\<lambda>_. True) s = pump_frame (\<lambda>_. True) (go_of_viewer f) ?s"
    using Cons.prems by (intro pump_turn_viewer) simp_all
  obtain s1 where s1: "pump_frame (\<lambda>_. True) (go_of_viewer f) ?s = (s1, PumpMore)" "br_in s1 = br_in ?s"
      "br_viewers s1 = br_viewers ?s" "samples_of v s1 = samples_of v ?s @ nalu_of f"
    using Cons.prems by (elim pump_frame_viewer [of f ?s v, rotated 4]) simp_all
  have "\<exists>s'. naluPumpLoop (Suc (length fs)) (\<lambda>_. True) s1 = (s', PumpEof)
      \<and> samples_of v s' = samples_of v s1 @ concat (map nalu_of fs)"
    using Cons.prems s1(2,3) by (intro Cons.IH) simp_all
  then show ?case using turn s1(1,4) by (auto simp: samples_of_def)
qed

section \<open>Browser input\<close>

text \<open>What a browser event asks of the session: keys with their modifiers, pointer events at the
  focused window in buffer coordinates. Unknown events, unknown buttons and key codes that are no
  \<open>u32\<close> do nothing.\<close>

definition browser_pointer :: "u64 \<Rightarrow> neko_event \<Rightarrow> u32 \<Rightarrow> bool \<Rightarrow> f64 \<Rightarrow> f64 \<Rightarrow> u32 \<Rightarrow> session_state \<Rightarrow> session_state" where
  "browser_pointer now ev button pressed dx dy sq s =
     fst (inject_pointer_state now None False (ne_x ev) (ne_y ev) button pressed dx dy sq s)"

definition browser_effect :: "u64 \<Rightarrow> neko_event \<Rightarrow> session_state \<Rightarrow> session_state" where
  "browser_effect now ev s =
     (if ne_event ev \<in> {''keydown'', ''keyup''} then
        (if 0 \<le> ne_key_code ev \<and> ne_key_code ev < 2 ^ 32
         then fst (inject_key_state now (word_of_int (ne_key_code ev)) (ne_event ev = ''keydown'') (ne_modifiers ev) 0 0 0 s)
         else s)
      else if ne_event ev = ''mousemove'' then browser_pointer now ev 0 False 0 0 (ne_seq ev) s
      else if ne_event ev \<in> {''mousedown'', ''mouseup''} then
        (case nekoButtonToEvdev (ne_button ev) of
           Some b \<Rightarrow> browser_pointer now ev (word_of_int b) (ne_event ev = ''mousedown'') 0 0 0 s
         | None \<Rightarrow> s)
      else if ne_event ev = ''wheel'' then browser_pointer now ev 0 False (ne_delta_x ev) (ne_delta_y ev) 0 s
      else s)"

text \<open>The two JSON libraries agree: what one marshals the other decodes by field names, types and
  defaults.\<close>

definition json_agree :: "(go_inject_op \<Rightarrow> (bytes, string) result) \<Rightarrow> (bytes \<Rightarrow> (inject_op, string) result) \<Rightarrow> bool" where
  "json_agree ma js \<longleftrightarrow> (\<forall>op b. ma op = Ok b \<longrightarrow>
     (case inject_op_of_json op of Some i \<Rightarrow> js b = Ok i | None \<Rightarrow> (\<exists>e. js b = Err e)))"

lemma uint_u32_bound: "uint (w :: u32) < 4294967296"
  using uint_lt2p [of w] by simp

lemma control_frame_browser:
  assumes "neko_op ev = Ok op" "json_agree ma js" "ma op = Ok b"
  shows "control_frame now js (InjectOpJson b) r = r\<lparr>cr_session := browser_effect now ev (cr_session r)\<rparr>"
proof -
  have js: "case inject_op_of_json op of Some i \<Rightarrow> js b = Ok i | None \<Rightarrow> (\<exists>e. js b = Err e)"
    using assms(2,3) by (simp add: json_agree_def)
  consider "ne_event ev = ''keydown''" | "ne_event ev = ''keyup''" | "ne_event ev = ''mousemove''"
    | "ne_event ev = ''mousedown''" | "ne_event ev = ''mouseup''" | "ne_event ev = ''wheel''"
    using assms(1) by (auto simp: neko_op_def split: if_splits)
  then show ?thesis
    using assms(1) js
    by cases (auto simp: neko_op_def inject_op_of_json_def key_op_def pointer_op_def browser_effect_def browser_pointer_def
        uint_u32_bound nekoButtonToEvdev_def split: option.splits if_splits result.splits)
qed

lemma forward_bytes:
  assumes "un raw = Ok ev" "neko_op ev = Ok op" "ma op = Ok b" "length b \<le> MaxPayloadBytes"
  shows "\<exists>bs. br_out (forwardInput un ma raw s) = br_out s @ bs
    \<and> (\<forall>rest. read_viewer_frame (bs @ rest) = Ok (InjectOpJson b, rest))"
proof -
  obtain bs where bs: "WriteFrame \<lparr>gf_tag = TAG_INJECT_OP, gf_payload = b\<rparr> = Ok bs"
    using assms(4) by (simp add: WriteFrame_ok)
  have "read_viewer_frame (bs @ rest) = Ok (InjectOpJson b, rest)" for rest
    by (rule session_reads_go [OF bs]) (simp add: parse_payload_def tag_defs)
  then show ?thesis using assms(1-3) bs by (simp add: forwardInput_def Translate_def)
qed

section \<open>Properties\<close>

text \<open>C34: Whatever the order of connections, messages and disconnections, the viewers and the
  connections still being set up never exceed the cap, no address holds more connections than its
  limit, every viewer belongs to exactly one live connection, and of the connected viewers exactly the
  newest holds the input.\<close>

theorem bridge_admission:
  assumes "br_reach lib un ma cfg s"
  shows "length (br_viewers s) + handlers_with (\<lambda>h. snd h = Setup) (br_handlers s) \<le> maxViewers cfg
    \<and> (\<forall>ip. handlers_with (\<lambda>h. fst h = ip) (br_handlers s) \<le> maxHandshakesPerIP cfg)
    \<and> distinct (br_viewers s) \<and> set (br_viewers s) = ran (serving s) \<and> inj_on (serving s) (dom (serving s))
    \<and> (\<forall>v \<in> set (br_viewers s). br_primary s v \<longleftrightarrow> v = last (br_viewers s))"
  using br_reach_inv [OF assms]
  by (auto simp: br_inv_def slots_inv_def handshake_inv_def primary_inv_def)

definition sample_lib :: token_lib where
  "sample_lib = \<lparr>jwt_parse = (\<lambda>k t. if t = ''good'' then Ok \<lparr>jt_valid = True, jt_aud = Ok [''viewer''], jt_sub = Some ''u'',
     jt_vm_session_id = Some ''vm1''\<rparr> else Err ''bad''), uuid_parse = (\<lambda>_. Ok ())\<rparr>"

definition sample_cfg :: bridge_cfg where
  "sample_cfg = \<lparr>cfg_max_viewers = 2, cfg_max_handshakes = 0, cfg_pub_key = [7], cfg_vm_session_id = ''vm1'',
     cfg_bound_non_loopback = True, cfg_stun = [], cfg_turn = [], cfg_turn_username = [], cfg_turn_credential = []\<rparr>"

definition sample_un :: "bytes \<Rightarrow> (neko_event, string) result" where
  "sample_un raw = Ok \<lparr>ne_event = ''keydown'', ne_key_code = 30, ne_x = 0, ne_y = 0, ne_button = 0, ne_delta_x = 0,
     ne_delta_y = 0, ne_modifiers = 4, ne_seq = 0\<rparr>"

definition sample_ma :: "go_inject_op \<Rightarrow> (bytes, string) result" where
  "sample_ma op = (if gi_kind op = ''key'' \<and> op = key_op (unwrap_ok undefined (sample_un [])) ''pressed'' then Ok [1] else Err ''x'')"

definition sample_js :: "bytes \<Rightarrow> (inject_op, string) result" where
  "sample_js b = (if b = [1] then Ok (OpKey 30 Pressed 4) else Err ''x'')"

definition sample_bridge :: bridge where
  "sample_bridge = ws_commit 1 ''b'' (fst (ws_admit sample_lib 1 ''b'' ''good''
     (ws_commit 0 ''a'' (fst (ws_admit sample_lib 0 ''a'' ''good'' (bridge_new sample_cfg))))))"

lemmas sample_bridge_defs = sample_bridge_def sample_lib_def sample_cfg_def ws_commit_def ws_admit_def addViewer_def
  validateViewerToken_def acquireHandshakeSlot_def tryReserveViewerSlot_def handshakes_of_def maxViewers_def
  maxHandshakesPerIP_def bridge_new_def as_string_def

lemma sample_bridge_state:
  "br_viewers sample_bridge = [0, 1]" "br_primary sample_bridge 1" "\<not> br_primary sample_bridge 0"
  "map_of (br_handlers sample_bridge) 0 = Some (''a'', Serving 0)"
  "map_of (br_handlers sample_bridge) 1 = Some (''b'', Serving 1)"
  by (simp_all add: sample_bridge_defs)

lemma sample_bridge_reach: "br_reach sample_lib un ma sample_cfg sample_bridge"
proof -
  let ?reach = "br_reach sample_lib un ma sample_cfg"
  define s1 where "s1 = fst (ws_admit sample_lib 0 ''a'' ''good'' (bridge_new sample_cfg))"
  define s2 where "s2 = ws_commit 0 ''a'' s1"
  define s3 where "s3 = fst (ws_admit sample_lib 1 ''b'' ''good'' s2)"
  have "?reach s1" unfolding s1_def by (rule reach_step [OF reach_new], rule st_admit) (simp add: bridge_new_def)
  then have "?reach s2" unfolding s2_def
    by (rule reach_step, intro st_commit) (simp add: s1_def sample_bridge_defs)
  then have "?reach s3" unfolding s3_def
    by (rule reach_step, intro st_admit) (simp add: s2_def s1_def sample_bridge_defs)
  then have "?reach (ws_commit 1 ''b'' s3)"
    by (rule reach_step, intro st_commit) (simp add: s3_def s2_def s1_def sample_bridge_defs)
  then show ?thesis by (simp add: sample_bridge_def s3_def s2_def s1_def)
qed

theorem bridge_admission_witness:
  "br_viewers sample_bridge = [0, 1] \<and> length (br_viewers sample_bridge) \<le> 2
    \<and> (br_primary sample_bridge 0 \<longleftrightarrow> 0 = last (br_viewers sample_bridge))"
  using bridge_admission [OF sample_bridge_reach [of sample_un sample_ma]]
  by (simp add: sample_bridge_state(1) maxViewers_def sample_cfg_def)




lemma sample_json_agree: "json_agree sample_ma sample_js"
  by (auto simp: json_agree_def sample_ma_def sample_js_def sample_un_def key_op_def inject_op_of_json_def)



definition sample_fed :: bridge where
  "sample_fed = sample_bridge\<lparr>br_in := concat (map viewer_enc [Nalu [0, 0, 1], PtsHint 3, Nalu [2]])\<rparr>"

lemma sample_fed_reach: "br_reach sample_lib un ma sample_cfg sample_fed"
proof -
  have "br_in sample_bridge = []" by (simp add: sample_bridge_defs release_handshake_def end_conn_def)
  then have "sample_fed = sample_bridge\<lparr>br_in := br_in sample_bridge @ concat (map viewer_enc [Nalu [0, 0, 1], PtsHint 3, Nalu [2]])\<rparr>"
    by (simp only: sample_fed_def append_Nil)
  then show ?thesis using reach_step [OF sample_bridge_reach st_session] by metis
qed


text \<open>C38: The session writes NAL units of any size below four gigabytes, and one above one mebibyte ends
  the bridge: the frame is sent without error and the pump stops on it.\<close>

theorem oversized_nalu_ends_bridge:
  assumes "MaxPayloadBytes < length b" "length b < 2 ^ 32"
  shows "\<exists>bs. write_viewer_frame (Nalu b) = Ok bs
    \<and> (\<forall>s rest. br_in s = bs @ rest \<longrightarrow> naluPumpLoop (Suc k) ok s = (s, PumpFailed (GoPayloadExceeds (length b))))"
proof -
  have "read_full 5 ((TAG_NALU # le_bytes 4 (length b)) @ b @ rest) = Ok (TAG_NALU # le_bytes 4 (length b), b @ rest)" for rest
    by (rule read_full_append) simp
  moreover have "of_le_bytes (le_bytes 4 (length b)) = length b"
    using assms(2) by (simp add: of_le_bytes_le_bytes)
  ultimately have "ReadFrame ([TAG_NALU] @ le_bytes 4 (length b) @ b @ rest) = Err (GoPayloadExceeds (length b))" for rest
    using assms(1) by (simp add: ReadFrame_def Let_def known_tags_def)
  then show ?thesis using assms(2) by (simp add: write_payload_def pump_turn_def)
qed

theorem oversized_nalu_ends_bridge_witness:
  "\<exists>bs. write_viewer_frame (Nalu (replicate 1048577 0)) = Ok bs
    \<and> (\<forall>s rest. br_in s = bs @ rest \<longrightarrow> naluPumpLoop 1 (\<lambda>_. True) s = (s, PumpFailed (GoPayloadExceeds 1048577)))"
  using oversized_nalu_ends_bridge [of "replicate 1048577 0" 0 "\<lambda>_. True"] by (simp add: MaxPayloadBytes_def)

text \<open>On an address other machines can reach, nobody is let in without a token: a request that is
  admitted carries one that verifies under the configured key, is for viewers, and names this session.\<close>

theorem viewer_token_required:
  assumes "snd (ws_admit lib c ip tokenStr s) = None" "cfg_bound_non_loopback (br_cfg s)"
  shows "\<exists>tok aud. cfg_pub_key (br_cfg s) \<noteq> [] \<and> jwt_parse lib (cfg_pub_key (br_cfg s)) tokenStr = Ok tok \<and> jt_valid tok
    \<and> jt_aud tok = Ok aud \<and> ''viewer'' \<in> set aud
    \<and> jt_vm_session_id tok = Some (cfg_vm_session_id (br_cfg s)) \<and> cfg_vm_session_id (br_cfg s) \<noteq> []"
proof -
  have "is_ok (validateViewerToken lib (br_cfg s) tokenStr)"
    using assms(1) by (auto simp: ws_admit_def split: result.splits option.splits)
  then show ?thesis
    using assms(2) by (auto simp: is_ok_iff validateViewerToken_def as_string_def split: if_splits option.splits)
qed

theorem viewer_token_required_witness:
  "snd (ws_admit sample_lib 0 ''a'' ''good'' (bridge_new sample_cfg)) = None
    \<and> (\<exists>tok. jwt_parse sample_lib [7] ''good'' = Ok tok \<and> jt_vm_session_id tok = Some ''vm1'')"
  using viewer_token_required [of sample_lib 0 "''a''" "''good''" "bridge_new sample_cfg"]
  by (auto simp: sample_bridge_defs)

text \<open>C39: With two viewers or more the status page denies that anybody holds the input, although the
  newest viewer does.\<close>

theorem status_denies_primary:
  assumes "br_reach lib un ma cfg s" "2 \<le> length (br_viewers s)"
  shows "status_reply s = (True, length (br_viewers s), False) \<and> br_primary s (last (br_viewers s))"
proof -
  have inv: "primary_inv s" using br_reach_inv [OF assms(1)] by (simp add: br_inv_def)
  obtain v w vs where vs: "br_viewers s = v # w # vs" using assms(2) by (cases "br_viewers s" rule: list.exhaust; cases "tl (br_viewers s)") auto
  then have "v \<noteq> last (br_viewers s)" using inv by (auto simp: primary_inv_def)
  then show ?thesis using inv vs by (auto simp: status_reply_def primary_inv_def)
qed

theorem status_denies_primary_witness:
  "status_reply sample_bridge = (True, 2, False) \<and> br_primary sample_bridge 1"
  using status_denies_primary [OF sample_bridge_reach] by (simp add: sample_bridge_state)

text \<open>Every bitrate the bridge asks for lies within its limits, and the session reads that number.\<close>

theorem bitrate_within_limits:
  assumes "0 \<le> lo" "lo \<le> hi" "hi < 2 ^ 32" "bitrate_tick lo hi est v lastSent s = (s', sent)" "br_out s' \<noteq> br_out s"
  shows "lo \<le> sent \<and> sent \<le> hi \<and> (\<exists>bs. br_out s' = br_out s @ bs
    \<and> (\<forall>rest. read_viewer_frame (bs @ rest) = Ok (SetBitrate (word_of_int sent), rest)))"
proof -
  from assms(4,5) obtain e bs where e: "est = Some e" "sent = bitrate_target lo hi e" "br_out s' = br_out s @ bs"
      "WriteFrame \<lparr>gf_tag = TAG_SET_BITRATE, gf_payload = le_bytes 4 (nat (sent mod 2 ^ 32))\<rparr> = Ok bs"
    by (auto simp: bitrate_tick_def Let_def split: if_splits option.splits result.splits)
  have bounds: "lo \<le> sent" "sent \<le> hi" using assms(2) e(2) by (auto simp: bitrate_target_def Let_def)
  have "nat (sent mod 2 ^ 32) = unat (word_of_int sent :: u32)"
    by (simp add: unat_eq_nat_uint uint_word_of_int)
  then have "parse_payload TAG_SET_BITRATE 4 (le_bytes 4 (nat (sent mod 2 ^ 32))) = Ok (SetBitrate (word_of_int sent))"
    by (simp add: parse_payload_def tag_defs le_field_here_all)
  with session_reads_go [OF e(4)] show ?thesis using bounds e(3) by auto
qed

theorem bitrate_within_limits_witness:
  "\<exists>s' sent bs. bitrate_tick 400000 8000000 (Some 90000000) 1 0 sample_bridge = (s', sent) \<and> sent = 8000000
    \<and> br_out s' = br_out sample_bridge @ bs \<and> read_viewer_frame bs = Ok (SetBitrate 8000000, [])"
proof -
  obtain s' sent where t: "bitrate_tick 400000 8000000 (Some 90000000) 1 0 sample_bridge = (s', sent)" by fastforce
  then have r: "sent = 8000000" "br_out s' \<noteq> br_out sample_bridge"
    by (auto simp: bitrate_tick_def bitrate_target_def sample_bridge_state wrap_signed_def signed_divide_int_def Let_def
        WriteFrame_def MaxPayloadBytes_def simp del: One_nat_def)
  from bitrate_within_limits [OF _ _ _ t r(2)] obtain bs where "br_out s' = br_out sample_bridge @ bs"
      "\<And>rest. read_viewer_frame (bs @ rest) = Ok (SetBitrate (word_of_int sent), rest)" by auto
  with t r(1) show ?thesis by (metis append_Nil2 word_of_int_numeral)
qed

end
