(* ===== verification/Pixels.thy ===== *)
theory Pixels
  imports Composite
begin

text \<open>
  The pixel conversions of the session: removing row padding and the conversion to NV12 for the
  encoders (\<open>waymux-session/src/recording.rs\<close>), the cursor formats (\<open>viewer/cursor.rs\<close>), the size
  guards of the encoders (\<open>cuda_nvenc_record.rs\<close>, \<open>vulkan_record.rs\<close>). A slice or an index out of
  bounds is the outcome \<open>Panicked\<close>; \<open>u32\<close> arithmetic wraps, \<open>usize\<close> arithmetic on products of two
  such numbers cannot.
\<close>

unbundle bit_operations_syntax

section \<open>Rows\<close>

definition slice :: "nat \<Rightarrow> nat \<Rightarrow> 'a list \<Rightarrow> 'a list outcome" where
  "slice i len xs = (if i + len \<le> length xs then Returned (take len (drop i xs)) else Panicked)"

definition destride_bgra :: "bytes \<Rightarrow> u32 \<Rightarrow> u32 \<Rightarrow> u32 \<Rightarrow> bytes outcome" where
  "destride_bgra src width height stride =
     (let row_bytes = unat (width * 4);
          st = unat stride;
          total = row_bytes * unat height
      in if st = row_bytes then slice 0 total src
         else ofold (\<lambda>row out. obind (slice (row * st) row_bytes src) (\<lambda>r. Returned (out @ r))) [0..<unat height] [])"

section \<open>NV12\<close>

definition clamp_u8 :: "int \<Rightarrow> u8" where
  "clamp_u8 x = word_of_int (max 0 (min 255 x))"

definition nv12_y :: "int \<Rightarrow> int \<Rightarrow> int \<Rightarrow> int" where
  "nv12_y b g r = (47 * r + 157 * g + 16 * b + 128) div 256 + 16"

definition nv12_cb :: "int \<Rightarrow> int \<Rightarrow> int \<Rightarrow> int" where
  "nv12_cb b g r = (- 26 * r - 87 * g + 112 * b + 128) div 256 + 128"

definition nv12_cr :: "int \<Rightarrow> int \<Rightarrow> int \<Rightarrow> int" where
  "nv12_cr b g r = (112 * r - 102 * g - 10 * b + 128) div 256 + 128"

text \<open>Channel \<open>off\<close> of pixel \<open>i\<close> of a packed frame, and its mean over the block whose first row
  starts at pixel \<open>r0\<close>, second at \<open>r1\<close>.\<close>

definition chan :: "bytes \<Rightarrow> nat \<Rightarrow> nat \<Rightarrow> int" where
  "chan src i off = uint (src ! (4 * i + off))"

definition block_avg :: "bytes \<Rightarrow> nat \<Rightarrow> nat \<Rightarrow> nat \<Rightarrow> nat \<Rightarrow> int" where
  "block_avg src r0 r1 x off =
     (chan src (r0 + x) off + chan src (r0 + x + 1) off + chan src (r1 + x) off + chan src (r1 + x + 1) off) div 4"

definition nv12_y_row :: "bytes \<Rightarrow> nat \<Rightarrow> nat \<Rightarrow> bytes" where
  "nv12_y_row src w row =
     map (\<lambda>x. clamp_u8 (nv12_y (chan src (row * w + x) 0) (chan src (row * w + x) 1) (chan src (row * w + x) 2))) [0..<w]"

definition nv12_uv_row :: "bytes \<Rightarrow> nat \<Rightarrow> nat \<Rightarrow> bytes" where
  "nv12_uv_row src w uv =
     (let r0 = uv * 2 * w; r1 = (uv * 2 + 1) * w
      in concat (map (\<lambda>bx. let b = block_avg src r0 r1 (bx * 2) 0;
                               g = block_avg src r0 r1 (bx * 2) 1;
                               r = block_avg src r0 r1 (bx * 2) 2
                           in [clamp_u8 (nv12_cb b g r), clamp_u8 (nv12_cr b g r)]) [0..<w div 2])
         @ replicate (w mod 2) 0)"

text \<open>A width of zero panics in the split into chunks; a frame that is too short in the first slice
  of a row past its end. Bytes of the chroma plane past the last whole row stay zero.\<close>

definition bgra_to_nv12 :: "bytes \<Rightarrow> u32 \<Rightarrow> u32 \<Rightarrow> bytes outcome" where
  "bgra_to_nv12 src width height =
     (let w = unat width; h = unat height
      in if w = 0 \<or> length src < w * h * 4 then Panicked
         else Returned (concat (map (nv12_y_row src w) [0..<h])
                @ concat (map (nv12_uv_row src w) [0..<h div 2])
                @ replicate (w * h div 2 - h div 2 * w) 0))"

definition bgra_to_nv12_destride :: "bytes \<Rightarrow> u32 \<Rightarrow> u32 \<Rightarrow> u32 \<Rightarrow> bytes outcome" where
  "bgra_to_nv12_destride src width height stride =
     (if unat stride = unat (width * 4) then bgra_to_nv12 src width height
      else obind (destride_bgra src width height stride) (\<lambda>packed. bgra_to_nv12 packed width height))"

section \<open>Cursors\<close>

definition MAX_CURSOR_DIM :: nat where
  "MAX_CURSOR_DIM = 256"

definition write_at :: "nat \<Rightarrow> 'a list \<Rightarrow> 'a list \<Rightarrow> 'a list outcome" where
  "write_at i ys xs = (if i + length ys \<le> length xs then Returned (take i xs @ ys @ drop (i + length ys) xs) else Panicked)"

definition argb8888_bytes_to_rgba :: "bytes \<Rightarrow> u32 \<Rightarrow> u32 \<Rightarrow> u32 \<Rightarrow> bytes outcome" where
  "argb8888_bytes_to_rgba src w h stride =
     ofold (\<lambda>y. ofold (\<lambda>x out.
         let si = unat (of_nat y * stride + of_nat x * 4 :: u32);
             di = unat ((of_nat y * w + of_nat x) * 4 :: u32)
         in if si + 3 \<ge> length src then Returned out
            else write_at di [src ! (si + 2), src ! (si + 1), src ! si, src ! (si + 3)] out) [0..<unat w])
       [0..<unat h] (replicate (unat (w * h * 4)) 0)"

fun force_opaque :: "bytes \<Rightarrow> bytes" where
  "force_opaque (r # g # b # a # rest) = r # g # b # 255 # force_opaque rest"
| "force_opaque rest = rest"

definition flip_rows_rgba :: "bytes \<Rightarrow> u32 \<Rightarrow> u32 \<Rightarrow> bytes outcome" where
  "flip_rows_rgba src w h =
     (let row = unat (w * 4); hh = unat h
      in ofold (\<lambda>y out. let sy = (hh - 1 - y) * row; dy = y * row
            in if sy + row \<le> length src \<and> dy + row \<le> length out
               then write_at dy (take row (drop sy src)) out else Returned out) [0..<hh] (replicate (length src) 0))"

section \<open>Sizes\<close>

definition align_to_ctu :: "u32 \<Rightarrow> u32" where
  "align_to_ctu n = (n + 63) AND NOT 63"

definition safe_encode_dims :: "u32 \<Rightarrow> u32 \<Rightarrow> u32 \<Rightarrow> u32 \<Rightarrow> u32 \<Rightarrow> u32 \<Rightarrow> (u32 \<times> u32 \<times> u32) option" where
  "safe_encode_dims req_w req_h req_stride max_w max_h max_pitch =
     (if req_w > max_w \<or> req_h > max_h then None
      else if req_stride \<noteq> 0 \<and> req_stride > max_pitch then None
      else Some (req_w, req_h, req_stride))"


section \<open>Lemmas\<close>

lemma concat_map_const_length:
  "(\<And>x. x \<in> set xs \<Longrightarrow> length (f x) = n) \<Longrightarrow> length (concat (map f xs)) = length xs * n"
  by (induction xs) auto

text \<open>Pieces of equal length laid one after the other: what a loop writes that fills a zeroed buffer
  from the front.\<close>

lemma fill_step:
  assumes "length P = i" "length ys = n" "n \<le> m"
  shows "write_at i ys (P @ replicate m 0) = Returned ((P @ ys) @ replicate (m - n) (0 :: u8))"
proof -
  have "drop (i + n) (P @ replicate m 0) = replicate (m - n) (0 :: u8)"
    using assms by (simp add: drop_append)
  then show ?thesis using assms by (simp add: write_at_def)
qed

lemma fill_loop:
  assumes "\<And>k. k < n \<Longrightarrow> length (piece k) = m"
    and step: "\<And>k P. k < n \<Longrightarrow> length P = k * m \<Longrightarrow>
      f k (P @ replicate ((n - k) * m) 0) = Returned ((P @ piece k) @ replicate ((n - Suc k) * m) (0 :: u8))"
  shows "ofold f [0..<n] (replicate (n * m) 0) = Returned (concat (map piece [0..<n]))"
proof -
  have "k \<le> n \<Longrightarrow> ofold f [0..<k] (replicate (n * m) 0)
      = Returned (concat (map piece [0..<k]) @ replicate ((n - k) * m) 0)" for k
  proof (induction k)
    case (Suc k)
    have "length (concat (map piece [0..<k])) = k * m"
      using assms(1) Suc.prems by (subst concat_map_const_length [where n = m]) auto
    from step [OF _ this] Suc show ?case by (simp add: ofold_append)
  qed simp
  from this [of n] show ?thesis by simp
qed

lemma and_not_63: "(x :: u32) AND NOT 63 = x - x mod 64"
proof -
  have m: "(63 :: u32) = mask 6" by (simp add: mask_eq_exp_minus_1)
  have "x AND 63 = x mod 64" unfolding m by (simp flip: take_bit_eq_mask add: take_bit_eq_mod)
  moreover have "(x AND 63) + (x AND NOT 63) = (x AND 63) OR (x AND NOT 63)"
    by (rule disjunctive_add_eq_or) (simp add: bit_eq_iff bit_simps)
  moreover have "(x AND 63) OR (x AND NOT 63) = x" by (auto simp add: bit_eq_iff bit_simps)
  ultimately show ?thesis by (metis add_diff_cancel_left')
qed

lemma ofold_snoc: "ofold f (xs @ [x]) s = obind (ofold f xs s) (f x)"
proof -
  have "obind (f x t) (ofold f []) = f x t" for t by (cases "f x t") simp_all
  then show ?thesis by (cases "ofold f xs s") (simp_all add: ofold_append)
qed

lemma ofold_no_overflow:
  "(\<And>x s. x \<in> set xs \<Longrightarrow> f x s \<noteq> StackOverflow) \<Longrightarrow> ofold f xs s \<noteq> StackOverflow"
proof (induction xs arbitrary: s)
  case (Cons x xs)
  have "f x s \<noteq> StackOverflow" by (rule Cons.prems) simp
  moreover have "ofold f xs t \<noteq> StackOverflow" for t using Cons by simp
  ultimately show ?case by (cases "f x s") simp_all
qed simp

lemma concat_rows:
  "concat (map (\<lambda>r. map (\<lambda>x. g (r * w + x)) [0..<w]) [0..<h]) = map g [0..<h * w]"
proof (induction h)
  case (Suc h)
  have "map (\<lambda>x. g (h * w + x)) [0..<w] = map g [h * w..<h * w + w]"
    by (rule nth_equalityI) auto
  moreover have "[0..<h * w + w] = [0..<h * w] @ [h * w..<h * w + w]" by (rule upt_add_eq_append) simp
  ultimately show ?case using Suc by (simp add: add.commute [of w])
qed simp

section \<open>Rows, proved\<close>

lemma width_bytes: "unat width < 2 ^ 30 \<Longrightarrow> unat (width * 4 :: u32) = unat width * 4"
  by (simp add: unat_word_ariths)

lemma rows_take: "concat (map (\<lambda>y. take m (drop (y * m) src)) [0..<n]) = take (n * m) src"
  by (induction n) (simp_all add: take_add [symmetric] add.commute)

lemma destride_rows:
  assumes "unat width < 2 ^ 30" "unat width * 4 \<le> unat stride" "unat height * unat stride \<le> length src"
  shows "destride_bgra src width height stride
    = Returned (concat (map (\<lambda>y. take (unat width * 4) (drop (y * unat stride) src)) [0..<unat height]))"
proof (cases "unat stride = unat width * 4")
  case True
  have "destride_bgra src width height stride = Returned (take (unat height * (unat width * 4)) src)"
    using True assms by (simp add: destride_bgra_def width_bytes slice_def Let_def mult.commute [of _ "unat height"])
  then show ?thesis unfolding True rows_take .
next
  case False
  let ?st = "unat stride" and ?rb = "unat width * 4"
  have in_bounds: "y * ?st + ?rb \<le> length src" if "y < unat height" for y
  proof -
    have "y * ?st + ?rb \<le> Suc y * ?st" using assms(2) by simp
    also have "\<dots> \<le> unat height * ?st" using that by (intro mult_le_mono1) simp
    finally show ?thesis using assms(3) by simp
  qed
  have "n \<le> unat height \<Longrightarrow>
      ofold (\<lambda>row out. obind (slice (row * ?st) ?rb src) (\<lambda>r. Returned (out @ r))) [0..<n] []
      = Returned (concat (map (\<lambda>y. take ?rb (drop (y * ?st) src)) [0..<n]))" for n
    by (induction n) (simp_all add: ofold_append slice_def in_bounds)
  from this [of "unat height"] False assms(1) show ?thesis
    by (simp add: destride_bgra_def width_bytes Let_def)
qed

lemma destride_narrow:
  assumes "unat stride < unat width * 4" "unat width < 2 ^ 30" "0 < unat height" "length src = unat height * unat stride"
  shows "destride_bgra src width height stride = Panicked"
proof -
  let ?f = "\<lambda>row out. obind (slice (row * unat stride) (unat width * 4) src) (\<lambda>r. Returned (out @ r))"
  obtain n where n: "unat height = Suc n" using assms(3) by (cases "unat height") auto
  have "ofold ?f [0..<n] [] \<noteq> StackOverflow" by (rule ofold_no_overflow) (simp add: slice_def)
  then have "ofold ?f [0..<Suc n] [] = Panicked"
    using assms(1,4) n by (cases "ofold ?f [0..<n] []") (simp_all add: ofold_append slice_def)
  with assms n show ?thesis by (simp add: destride_bgra_def width_bytes Let_def)
qed

section \<open>NV12, proved\<close>

lemma nv12_ranges:
  assumes "0 \<le> b" "b \<le> 255" "0 \<le> g" "g \<le> 255" "0 \<le> r" "r \<le> (255 :: int)"
  shows "16 \<le> nv12_y b g r \<and> nv12_y b g r \<le> 235" "15 \<le> nv12_cb b g r \<and> nv12_cb b g r \<le> 240"
    "16 \<le> nv12_cr b g r \<and> nv12_cr b g r \<le> 240"
proof -
  have d: "lo \<le> x div 256 \<and> x div 256 \<le> hi" if "lo * 256 \<le> x" "x < (hi + 1) * 256" for x lo hi :: int
  proof -
    have "lo \<le> q \<and> q \<le> hi" if "256 * q + m = x" "0 \<le> m" "m < 256" for q m
      using \<open>lo * 256 \<le> x\<close> \<open>x < (hi + 1) * 256\<close> that by auto
    from this [of "x div 256" "x mod 256"] show ?thesis by simp
  qed
  show "16 \<le> nv12_y b g r \<and> nv12_y b g r \<le> 235"
    using d [of 0 "47 * r + 157 * g + 16 * b + 128" 219] assms by (simp add: nv12_y_def)
  show "15 \<le> nv12_cb b g r \<and> nv12_cb b g r \<le> 240"
    using d [of "- 113" "- 26 * r - 87 * g + 112 * b + 128" 112] assms by (simp add: nv12_cb_def)
  show "16 \<le> nv12_cr b g r \<and> nv12_cr b g r \<le> 240"
    using d [of "- 112" "112 * r - 102 * g - 10 * b + 128" 112] assms by (simp add: nv12_cr_def)
qed

lemma chan_range: "0 \<le> chan src i off" "chan src i off \<le> 255"
  using uint_lt2p [of "src ! (4 * i + off)"] by (simp_all add: chan_def)

lemma block_avg_range: "0 \<le> block_avg src r0 r1 x off" "block_avg src r0 r1 x off \<le> 255"
proof -
  let ?s = "chan src (r0 + x) off + chan src (r0 + x + 1) off + chan src (r1 + x) off + chan src (r1 + x + 1) off"
  have "0 \<le> ?s" "?s \<le> 255 * 4"
    using chan_range [of src "r0 + x" off] chan_range [of src "r0 + x + 1" off]
      chan_range [of src "r1 + x" off] chan_range [of src "r1 + x + 1" off] by linarith+
  then show "0 \<le> block_avg src r0 r1 x off" "block_avg src r0 r1 x off \<le> 255"
    by (simp_all add: block_avg_def)
qed

lemma clamp_id: "0 \<le> x \<Longrightarrow> x \<le> 255 \<Longrightarrow> uint (clamp_u8 x) = x"
  by (simp add: clamp_u8_def uint_word_of_int)

lemma uv_row_length [simp]: "length (nv12_uv_row src w uv) = w"
proof -
  have "length (concat (map (\<lambda>bx. [f bx, g bx]) [0..<w div 2])) = w div 2 * 2" for f g :: "nat \<Rightarrow> u8"
    by (subst concat_map_const_length [where n = 2]) auto
  then show ?thesis by (simp add: nv12_uv_row_def Let_def)
qed

lemma nv12_parts:
  assumes "0 < unat width" "unat width * unat height * 4 \<le> length src" "even (unat width)" "even (unat height)"
  defines "lum \<equiv> map (\<lambda>i. clamp_u8 (nv12_y (chan src i 0) (chan src i 1) (chan src i 2))) [0..<unat width * unat height]"
    and "chr \<equiv> concat (map (nv12_uv_row src (unat width)) [0..<unat height div 2])"
  shows "bgra_to_nv12 src width height = Returned (lum @ chr)" "length chr = unat width * unat height div 2"
proof -
  have "concat (map (nv12_y_row src (unat width)) [0..<unat height]) = lum"
    using concat_rows [where w = "unat width" and h = "unat height"
        and g = "\<lambda>i. clamp_u8 (nv12_y (chan src i 0) (chan src i 1) (chan src i 2))"]
    by (simp add: nv12_y_row_def [abs_def] lum_def mult.commute)
  moreover have l: "unat width * unat height div 2 = unat height div 2 * unat width"
    using assms(4) by (auto elim!: evenE)
  ultimately show "bgra_to_nv12 src width height = Returned (lum @ chr)"
    using assms(1,2) by (simp add: bgra_to_nv12_def Let_def chr_def not_less)
  show "length chr = unat width * unat height div 2"
    unfolding chr_def by (subst concat_map_const_length [where n = "unat width"]) (simp_all add: l)
qed

lemma uv_row_range:
  assumes "even w" "c \<in> set (nv12_uv_row src w uv)"
  shows "15 \<le> uint c \<and> uint c \<le> 240"
proof -
  obtain r0 r1 x where "c = clamp_u8 (nv12_cb (block_avg src r0 r1 x 0) (block_avg src r0 r1 x 1) (block_avg src r0 r1 x 2))
      \<or> c = clamp_u8 (nv12_cr (block_avg src r0 r1 x 0) (block_avg src r0 r1 x 1) (block_avg src r0 r1 x 2))"
    using assms by (auto simp: nv12_uv_row_def Let_def)
  then show ?thesis
    using nv12_ranges(2,3) [OF block_avg_range block_avg_range block_avg_range, of src r0 r1 x 0 src r0 r1 x 1 src r0 r1 x 2]
    by (auto simp: clamp_id)
qed

lemma nv12_prefix: "unat width * unat height * 4 \<le> n \<Longrightarrow> bgra_to_nv12 (take n src) width height = bgra_to_nv12 src width height"
proof -
  assume n: "unat width * unat height * 4 \<le> n"
  let ?w = "unat width" and ?h = "unat height"
  have c: "chan (take n src) i off = chan src i off" if "i < ?w * ?h" "off < 4" for i off
  proof -
    have "4 * i + off < 4 * (?w * ?h)" using that by linarith
    with n show ?thesis by (simp add: chan_def)
  qed
  have row: "y * ?w + x < ?w * ?h" if "y < ?h" "x < ?w" for x y
  proof -
    have "y * ?w + x < Suc y * ?w" using that by simp
    also have "\<dots> \<le> ?h * ?w" using that by (intro mult_le_mono1) simp
    finally show ?thesis by (simp add: mult.commute)
  qed
  have "nv12_y_row (take n src) ?w y = nv12_y_row src ?w y" if "y < ?h" for y
    by (simp add: nv12_y_row_def c row that)
  moreover have "nv12_uv_row (take n src) ?w uv = nv12_uv_row src ?w uv" if uv: "uv < ?h div 2" for uv
  proof -
    have "uv * 2 < ?h" "uv * 2 + 1 < ?h" using uv by linarith+
    then have "block_avg (take n src) (uv * 2 * ?w) ((uv * 2 + 1) * ?w) (bx * 2) off
        = block_avg src (uv * 2 * ?w) ((uv * 2 + 1) * ?w) (bx * 2) off" if "bx < ?w div 2" "off < 4" for bx off
    proof -
      have x: "bx * 2 < ?w" "bx * 2 + 1 < ?w" using that(1) by linarith+
      show ?thesis
        using row [OF \<open>uv * 2 < ?h\<close> x(1)] row [OF \<open>uv * 2 < ?h\<close> x(2)]
          row [OF \<open>uv * 2 + 1 < ?h\<close> x(1)] row [OF \<open>uv * 2 + 1 < ?h\<close> x(2)] that(2)
        by (simp add: block_avg_def c add.assoc)
    qed
    then show ?thesis by (auto simp: nv12_uv_row_def Let_def simp del: mult_Suc intro!: arg_cong [where f = concat])
  qed
  ultimately have "map (nv12_y_row (take n src) ?w) [0..<?h] = map (nv12_y_row src ?w) [0..<?h]"
    "map (nv12_uv_row (take n src) ?w) [0..<?h div 2] = map (nv12_uv_row src ?w) [0..<?h div 2]" by simp_all
  moreover have "length (take n src) < ?w * ?h * 4 \<longleftrightarrow> length src < ?w * ?h * 4" using n by auto
  ultimately show ?thesis by (simp only: bgra_to_nv12_def Let_def)
qed

section \<open>Cursors, proved\<close>

definition rgba_at :: "bytes \<Rightarrow> nat \<Rightarrow> bytes" where
  "rgba_at src si = (if si + 3 \<ge> length src then [0, 0, 0, 0] else [src ! (si + 2), src ! (si + 1), src ! si, src ! (si + 3)])"

lemma flip_rows:
  assumes "unat w < 2 ^ 30" "length src = unat h * (unat w * 4)"
  shows "flip_rows_rgba src w h
    = Returned (concat (map (\<lambda>y. take (unat w * 4) (drop ((unat h - 1 - y) * (unat w * 4)) src)) [0..<unat h]))"
proof -
  let ?m = "unat w * 4" and ?n = "unat h"
  have sy: "(?n - 1 - k) * ?m + ?m \<le> ?n * ?m" if "k < ?n" for k
  proof -
    have "(?n - 1 - k) * ?m + ?m = Suc (?n - 1 - k) * ?m" by simp
    also have "\<dots> \<le> ?n * ?m" using that by (intro mult_le_mono1) simp
    finally show ?thesis .
  qed
  have "ofold (\<lambda>y out. let sy = (?n - 1 - y) * ?m; dy = y * ?m
            in if sy + ?m \<le> length src \<and> dy + ?m \<le> length out
               then write_at dy (take ?m (drop sy src)) out else Returned out) [0..<?n] (replicate (?n * ?m) 0)
      = Returned (concat (map (\<lambda>y. take ?m (drop ((?n - 1 - y) * ?m) src)) [0..<?n]))"
  proof (rule fill_loop)
    show "length (take ?m (drop ((?n - 1 - k) * ?m) src)) = ?m" if "k < ?n" for k
      using sy [OF that] assms(2) by simp
  next
    fix k and P :: bytes assume k: "k < ?n" "length P = k * ?m"
    have m: "(?n - k) * ?m = ?m + (?n - Suc k) * ?m"
      using k(1) by (metis Suc_diff_Suc mult_Suc)
    have "write_at (k * ?m) (take ?m (drop ((?n - 1 - k) * ?m) src)) (P @ replicate ((?n - k) * ?m) 0)
        = Returned ((P @ take ?m (drop ((?n - 1 - k) * ?m) src)) @ replicate ((?n - Suc k) * ?m) 0)"
      using sy [OF k(1)] assms(2) k m by (subst fill_step [where n = ?m]) simp_all
    with sy [OF k(1)] assms(2) k m
    show "(let sy = (?n - 1 - k) * ?m; dy = k * ?m
        in if sy + ?m \<le> length src \<and> dy + ?m \<le> length (P @ replicate ((?n - k) * ?m) 0)
           then write_at dy (take ?m (drop sy src)) (P @ replicate ((?n - k) * ?m) 0) else Returned (P @ replicate ((?n - k) * ?m) 0))
      = Returned ((P @ take ?m (drop ((?n - 1 - k) * ?m) src)) @ replicate ((?n - Suc k) * ?m) 0)"
      by (simp add: Let_def)
  qed
  then show ?thesis using assms by (simp add: flip_rows_rgba_def width_bytes Let_def)
qed

lemma concat_nth_block:
  assumes "\<And>k. k < n \<Longrightarrow> length (piece k) = m" "i < n"
  shows "take m (drop (i * m) (concat (map piece [0..<n]))) = piece i"
  using assms
proof (induction n)
  case (Suc n)
  have len: "length (concat (map piece [0..<n])) = n * m"
    using Suc.prems(1) by (subst concat_map_const_length [where n = m]) auto
  show ?case
  proof (cases "i = n")
    case True
    then show ?thesis using len Suc.prems(1) [of n] by simp
  next
    case False
    then have "i < n" using Suc.prems(2) by simp
    then have "Suc i * m \<le> n * m" by (intro mult_le_mono1) simp
    then have "take m (drop (i * m) (concat (map piece [0..<n]) @ piece n)) = take m (drop (i * m) (concat (map piece [0..<n])))"
      using len by simp
    with Suc.IH [OF _ \<open>i < n\<close>] Suc.prems(1) show ?thesis by simp
  qed
qed simp

lemma small_word: "unat w \<le> 256 \<Longrightarrow> unat h \<le> 256 \<Longrightarrow> y < unat h \<Longrightarrow> x \<le> unat w \<Longrightarrow>
    unat ((of_nat y * w + of_nat x) * 4 :: u32) = (y * unat w + x) * 4"
proof -
  assume a: "unat w \<le> 256" "unat h \<le> 256" "y < unat h" "x \<le> unat w"
  have "y * unat w \<le> 256 * 256" using a by (intro mult_le_mono) auto
  then have "(y * unat w + x) * 4 < 2 ^ 32" using a by simp
  moreover have "(of_nat y * w + of_nat x) * 4 = (of_nat ((y * unat w + x) * 4) :: u32)" by simp
  ultimately show ?thesis by (simp only: unat_of_nat) simp
qed

lemma argb_to_rgba:
  assumes "unat w \<le> MAX_CURSOR_DIM" "unat h \<le> MAX_CURSOR_DIM"
  shows "argb8888_bytes_to_rgba src w h stride = Returned (concat (map (\<lambda>y.
      concat (map (\<lambda>x. rgba_at src (unat (of_nat y * stride + of_nat x * 4 :: u32))) [0..<unat w])) [0..<unat h]))"
proof -
  let ?px = "\<lambda>y x. rgba_at src (unat (of_nat y * stride + of_nat x * 4 :: u32))"
  let ?f = "\<lambda>y x out. let si = unat (of_nat y * stride + of_nat x * 4 :: u32);
             di = unat ((of_nat y * w + of_nat x) * 4 :: u32)
         in if si + 3 \<ge> length src then Returned out
            else write_at di [src ! (si + 2), src ! (si + 1), src ! si, src ! (si + 3)] out"
  have b: "unat w \<le> 256" "unat h \<le> 256" using assms by (simp_all add: MAX_CURSOR_DIM_def)
  have row: "length (concat (map (?px y) [0..<n])) = n * 4" for y n
    by (subst concat_map_const_length [where n = 4]) (simp_all add: rgba_at_def)
  have inner: "n \<le> unat w \<Longrightarrow> ofold (?f y) [0..<n] (P @ replicate (unat w * 4 + R) 0)
      = Returned ((P @ concat (map (?px y) [0..<n])) @ replicate ((unat w - n) * 4 + R) 0)"
    if y: "y < unat h" and P: "length P = y * (unat w * 4)" for y n P R
  proof (induction n)
    case (Suc n)
    have m: "(unat w - n) * 4 + R = 4 + ((unat w - Suc n) * 4 + R)" using Suc.prems by simp
    have len: "length (P @ concat (map (?px y) [0..<n])) = unat ((of_nat y * w + of_nat n) * 4 :: u32)"
    proof -
      have eq: "unat ((of_nat y * w + of_nat n) * 4 :: u32) = (y * unat w + n) * 4"
        by (rule small_word [OF b y]) (use Suc.prems in simp)
      show ?thesis unfolding eq by (simp add: P row)
    qed
    have step: "?f y n ((P @ concat (map (?px y) [0..<n])) @ replicate ((unat w - n) * 4 + R) 0)
      = Returned ((P @ concat (map (?px y) [0..<n]) @ ?px y n) @ replicate ((unat w - Suc n) * 4 + R) 0)"
    proof (cases "unat (of_nat y * stride + of_nat n * 4 :: u32) + 3 \<ge> length src")
      case True
      have "replicate ((unat w - n) * 4 + R) (0 :: u8) = [0, 0, 0, 0] @ replicate ((unat w - Suc n) * 4 + R) 0"
        unfolding m by (simp add: numeral_eq_Suc)
      with True show ?thesis by (simp add: rgba_at_def Let_def)
    next
      case False
      let ?si = "unat (of_nat y * stride + of_nat n * 4 :: u32)"
      have "write_at (unat ((of_nat y * w + of_nat n) * 4 :: u32)) [src ! (?si + 2), src ! (?si + 1), src ! ?si, src ! (?si + 3)]
          ((P @ concat (map (?px y) [0..<n])) @ replicate ((unat w - n) * 4 + R) 0)
        = Returned (((P @ concat (map (?px y) [0..<n])) @ [src ! (?si + 2), src ! (?si + 1), src ! ?si, src ! (?si + 3)])
            @ replicate ((unat w - n) * 4 + R - 4) 0)"
        by (rule fill_step [OF len]) (use m in simp_all)
      with False m show ?thesis by (simp add: rgba_at_def Let_def)
    qed
    have "ofold (?f y) ([0..<n] @ [n]) (P @ replicate (unat w * 4 + R) 0)
      = Returned ((P @ concat (map (?px y) [0..<n]) @ ?px y n) @ replicate ((unat w - Suc n) * 4 + R) 0)"
      unfolding ofold_snoc Suc.IH [OF Suc_leD [OF Suc.prems]] obind.simps by (rule step)
    then show ?case by (simp del: ofold.simps)
  qed simp
  have total: "unat (w * h * 4) = unat h * (unat w * 4)"
  proof -
    have "unat w * unat h \<le> 256 * 256" using b by (intro mult_le_mono)
    moreover have "w * h * 4 = (of_nat (unat w * unat h * 4) :: u32)" by simp
    ultimately show ?thesis by (simp only: unat_of_nat) (simp add: mult.commute mult.left_commute)
  qed
  have "ofold (\<lambda>y. ofold (?f y) [0..<unat w]) [0..<unat h] (replicate (unat h * (unat w * 4)) 0)
      = Returned (concat (map (\<lambda>y. concat (map (?px y) [0..<unat w])) [0..<unat h]))"
  proof (rule fill_loop)
    show "length (concat (map (?px k) [0..<unat w])) = unat w * 4" for k by (rule row)
  next
    fix k and P :: bytes assume k: "k < unat h" "length P = k * (unat w * 4)"
    have "(unat h - k) * (unat w * 4) = unat w * 4 + (unat h - Suc k) * (unat w * 4)"
      using k(1) by (metis Suc_diff_Suc mult_Suc)
    with inner [OF k, of "unat w" "(unat h - Suc k) * (unat w * 4)"]
    show "ofold (?f k) [0..<unat w] (P @ replicate ((unat h - k) * (unat w * 4)) 0)
      = Returned ((P @ concat (map (?px k) [0..<unat w])) @ replicate ((unat h - Suc k) * (unat w * 4)) 0)" by simp
  qed
  then show ?thesis unfolding argb8888_bytes_to_rgba_def total .
qed

section \<open>Properties\<close>

text \<open>C0: The conversion to NV12 of a whole frame with even sides never panics and gives one luma byte
  per pixel and half as many chroma bytes. The luma byte of a pixel is the BT.709 formula of that
  pixel and lies in the limited range 16 to 235; every chroma byte lies in 15 to 240, so the final
  clamp never acts.\<close>

theorem nv12_frame:
  assumes "0 < unat width" "even (unat width)" "even (unat height)" "length src = unat width * unat height * 4"
  shows "\<exists>out. bgra_to_nv12 src width height = Returned out
    \<and> length out = unat width * unat height + unat width * unat height div 2
    \<and> (\<forall>i < unat width * unat height. uint (out ! i) = nv12_y (chan src i 0) (chan src i 1) (chan src i 2)
          \<and> 16 \<le> uint (out ! i) \<and> uint (out ! i) \<le> 235)
    \<and> (\<forall>i. unat width * unat height \<le> i \<and> i < length out \<longrightarrow> 15 \<le> uint (out ! i) \<and> uint (out ! i) \<le> 240)"
proof -
  let ?n = "unat width * unat height"
  let ?lum = "map (\<lambda>i. clamp_u8 (nv12_y (chan src i 0) (chan src i 1) (chan src i 2))) [0..<?n]"
  let ?chr = "concat (map (nv12_uv_row src (unat width)) [0..<unat height div 2])"
  have out: "bgra_to_nv12 src width height = Returned (?lum @ ?chr)" "length ?chr = ?n div 2"
    using nv12_parts [of width height src] assms by simp_all
  have y: "uint ((?lum @ ?chr) ! i) = nv12_y (chan src i 0) (chan src i 1) (chan src i 2)"
    "16 \<le> uint ((?lum @ ?chr) ! i)" "uint ((?lum @ ?chr) ! i) \<le> 235" if "i < ?n" for i
    using that nv12_ranges(1) [OF chan_range chan_range chan_range, of src i 0 src i 1 src i 2]
    by (simp_all add: nth_append clamp_id)
  have "15 \<le> uint ((?lum @ ?chr) ! i) \<and> uint ((?lum @ ?chr) ! i) \<le> 240" if "?n \<le> i" "i < ?n + ?n div 2" for i
  proof -
    have "?chr ! (i - ?n) \<in> set ?chr" using that out(2) by (intro nth_mem) simp
    then obtain uv where "?chr ! (i - ?n) \<in> set (nv12_uv_row src (unat width) uv)" by auto
    from uv_row_range [OF assms(2) this] that show ?thesis by (simp add: nth_append)
  qed
  with y out show ?thesis by auto
qed

theorem nv12_frame_witness:
  "\<exists>out. bgra_to_nv12 (replicate 16 255) 2 2 = Returned out \<and> length out = 6 \<and> uint (out ! 0) = 235"
proof -
  have "length (replicate 16 (255 :: u8)) = unat (2 :: u32) * unat (2 :: u32) * 4" by simp
  from nv12_frame [OF _ _ _ this] obtain out where
    o: "bgra_to_nv12 (replicate 16 255) 2 2 = Returned out" "length out = 6"
      "\<forall>i < 4. uint (out ! i) = nv12_y (chan (replicate 16 255) i 0) (chan (replicate 16 255) i 1) (chan (replicate 16 255) i 2)"
    by auto
  have "nv12_y (chan (replicate 16 255) 0 0) (chan (replicate 16 255) 0 1) (chan (replicate 16 255) 0 2) = 235"
    by (simp add: chan_def nv12_y_def)
  with o show ?thesis by auto
qed

text \<open>Saturated yellow is one below the range, and a light grey is not neutral.\<close>

lemma nv12_yellow_grey: "nv12_cb 0 255 255 = 15" "129 \<le> v \<Longrightarrow> v \<le> 255 \<Longrightarrow> nv12_cb v v v = 127"
proof -
  show "nv12_cb 0 255 255 = 15" by (simp add: nv12_cb_def)
  assume v: "129 \<le> v" "v \<le> 255"
  have "(- 26 * v - 87 * v + 112 * v + 128) = (- 1) * 256 + (384 - v)" by simp
  moreover have "0 \<le> 384 - v" "384 - v < 256" using v by auto
  ultimately have "(- 26 * v - 87 * v + 112 * v + 128) div 256 = - 1" by (simp only: div_mult_self3)
  then show "nv12_cb v v v = 127" by (simp add: nv12_cb_def)
qed

text \<open>C0: The single-pass converter is the composition of the two it replaces, on every input with a
  width below \<open>2 ^ 30\<close>, panics included.\<close>

theorem nv12_destride_equivalence:
  assumes "unat width < 2 ^ 30"
  shows "bgra_to_nv12_destride src width height stride
    = obind (destride_bgra src width height stride) (\<lambda>packed. bgra_to_nv12 packed width height)"
proof (cases "unat stride = unat (width * 4)")
  case True
  let ?n = "unat width * 4 * unat height"
  have "bgra_to_nv12 src width height = obind (slice 0 ?n src) (\<lambda>packed. bgra_to_nv12 packed width height)"
    if "0 < unat width"
  proof (cases "?n \<le> length src")
    case True
    have "bgra_to_nv12 (take ?n src) width height = bgra_to_nv12 src width height"
      by (rule nv12_prefix) (simp add: mult.commute mult.left_commute)
    with True show ?thesis by (simp add: slice_def)
  next
    case False
    then show ?thesis by (simp add: slice_def bgra_to_nv12_def Let_def mult.commute mult.left_commute)
  qed
  moreover have "bgra_to_nv12 p width height = Panicked" if "unat width = 0" for p
    using that by (simp add: bgra_to_nv12_def)
  ultimately show ?thesis
    using True assms by (cases "unat width = 0")
      (simp_all add: bgra_to_nv12_destride_def destride_bgra_def width_bytes Let_def slice_def)
qed (simp add: bgra_to_nv12_destride_def)

theorem nv12_destride_equivalence_witness:
  "bgra_to_nv12_destride (replicate 24 9) 2 2 12
    = obind (destride_bgra (replicate 24 9) 2 2 12) (\<lambda>packed. bgra_to_nv12 packed 2 2)"
  by (rule nv12_destride_equivalence) simp

text \<open>C0: Flipping a picture twice gives it back.\<close>

theorem flip_involution:
  assumes "unat w < 2 ^ 30" "length src = unat h * (unat w * 4)"
  shows "obind (flip_rows_rgba src w h) (\<lambda>p. flip_rows_rgba p w h) = Returned src"
proof -
  let ?m = "unat w * 4" and ?n = "unat h"
  let ?piece = "\<lambda>y. take ?m (drop ((?n - 1 - y) * ?m) src)"
  let ?p = "concat (map ?piece [0..<?n])"
  have len: "length (?piece k) = ?m" if "k < ?n" for k
  proof -
    have "Suc (?n - 1 - k) * ?m \<le> ?n * ?m" using that by (intro mult_le_mono1) simp
    then show ?thesis using assms(2) by simp
  qed
  have lp: "length ?p = ?n * ?m" using len by (subst concat_map_const_length [where n = ?m]) auto
  have "take ?m (drop ((?n - 1 - y) * ?m) ?p) = take ?m (drop (y * ?m) src)" if "y < ?n" for y
    using concat_nth_block [where piece = ?piece and n = ?n and m = ?m and i = "?n - 1 - y", OF len] that by simp
  then have "map (\<lambda>y. take ?m (drop ((?n - 1 - y) * ?m) ?p)) [0..<?n] = map (\<lambda>y. take ?m (drop (y * ?m) src)) [0..<?n]"
    by simp
  then have "concat (map (\<lambda>y. take ?m (drop ((?n - 1 - y) * ?m) ?p)) [0..<?n]) = concat (map (\<lambda>y. take ?m (drop (y * ?m) src)) [0..<?n])"
    by (rule arg_cong)
  also have "\<dots> = src" using assms(2) by (simp add: rows_take)
  finally have "concat (map (\<lambda>y. take ?m (drop ((?n - 1 - y) * ?m) ?p)) [0..<?n]) = src" .
  with flip_rows [OF assms] flip_rows [OF assms(1) lp] show ?thesis by simp
qed

theorem flip_involution_witness:
  "obind (flip_rows_rgba [1, 2, 3, 4, 5, 6, 7, 8] 1 2) (\<lambda>p. flip_rows_rgba p 1 2) = Returned [1, 2, 3, 4, 5, 6, 7, 8]"
  by (rule flip_involution) simp_all

text \<open>C0: A cursor of at most 256 by 256 pixels is converted without a panic whatever the client's
  buffer and stride: the result has four bytes per pixel, each pixel in the order red, green, blue,
  alpha, and zero where the buffer is too short.\<close>

theorem cursor_conversion_total:
  assumes "unat w \<le> MAX_CURSOR_DIM" "unat h \<le> MAX_CURSOR_DIM"
  shows "\<exists>out. argb8888_bytes_to_rgba src w h stride = Returned out \<and> length out = unat h * (unat w * 4)
    \<and> (\<forall>x y. x < unat w \<and> y < unat h \<longrightarrow>
          take 4 (drop ((y * unat w + x) * 4) out) = rgba_at src (unat (of_nat y * stride + of_nat x * 4 :: u32)))"
proof -
  let ?px = "\<lambda>y x. rgba_at src (unat (of_nat y * stride + of_nat x * 4 :: u32))"
  let ?row = "\<lambda>y. concat (map (?px y) [0..<unat w])"
  let ?out = "concat (map ?row [0..<unat h])"
  have px: "length (?px y x) = 4" for x y by (simp add: rgba_at_def)
  have row: "length (?row y) = unat w * 4" for y by (subst concat_map_const_length [where n = 4]) (simp_all add: px)
  have "length ?out = unat h * (unat w * 4)" by (subst concat_map_const_length [where n = "unat w * 4"]) (simp_all add: row)
  moreover have "take 4 (drop ((y * unat w + x) * 4) ?out) = ?px y x" if xy: "x < unat w" "y < unat h" for x y
  proof -
    have "Suc x * 4 \<le> unat w * 4" using xy(1) by (intro mult_le_mono1) simp
    then have "take 4 (drop ((y * unat w + x) * 4) ?out) = take 4 (drop (x * 4) (take (unat w * 4) (drop (y * (unat w * 4)) ?out)))"
      by (simp add: drop_take min_def add_mult_distrib add.commute mult.assoc)
    also have "\<dots> = take 4 (drop (x * 4) (?row y))"
      by (subst concat_nth_block [where piece = ?row and n = "unat h", OF row xy(2)]) simp
    also have "\<dots> = ?px y x" by (rule concat_nth_block [OF px xy(1)])
    finally show ?thesis .
  qed
  ultimately show ?thesis using argb_to_rgba [OF assms] by auto
qed

theorem cursor_conversion_total_witness:
  "\<exists>out. argb8888_bytes_to_rgba [1, 2, 3, 4] 1 2 4 = Returned out \<and> length out = 8 \<and> take 4 (drop 0 out) = [3, 2, 1, 4]"
proof -
  have "unat (1 :: u32) \<le> MAX_CURSOR_DIM" "unat (2 :: u32) \<le> MAX_CURSOR_DIM" by (simp_all add: MAX_CURSOR_DIM_def)
  from cursor_conversion_total [OF this, of "[1, 2, 3, 4]" 4] obtain out where
    o: "argb8888_bytes_to_rgba [1, 2, 3, 4] 1 2 4 = Returned out" "length out = 8"
      "\<forall>x y. x < 1 \<and> y < 2 \<longrightarrow> take 4 (drop ((y * 1 + x) * 4) out) = rgba_at [1, 2, 3, 4] (unat (of_nat y * 4 + of_nat x * 4 :: u32))"
    by auto
  from o(3) [rule_format, of 0 0] have "take 4 (drop 0 out) = [3, 2, 1, 4]" by (simp add: rgba_at_def)
  with o show ?thesis by blast
qed

text \<open>C0: A size is rounded up to the next multiple of 64, unless it is within 63 of the top of the
  range.\<close>

theorem align_to_ctu_least:
  assumes "unat n \<le> 2 ^ 32 - 64"
  shows "64 dvd unat (align_to_ctu n) \<and> unat n \<le> unat (align_to_ctu n) \<and> unat (align_to_ctu n) < unat n + 64"
proof -
  let ?k = "unat n + 63"
  have u: "unat (n + 63) = ?k" using assms by (simp add: unat_word_ariths)
  have "unat (align_to_ctu n) = ?k - ?k mod 64"
  proof -
    have m: "unat ((n + 63) mod 64) = ?k mod 64" by (simp add: unat_mod u)
    have "(n + 63) mod 64 \<le> n + 63" by (simp add: word_le_nat_alt m u)
    then show ?thesis unfolding align_to_ctu_def and_not_63 by (simp add: unat_sub m u)
  qed
  moreover have "?k - ?k mod 64 = 64 * (?k div 64)" by (simp add: minus_mod_eq_mult_div)
  moreover have "?k mod 64 < 64" "?k = 64 * (?k div 64) + ?k mod 64" by simp_all
  ultimately show ?thesis by (simp del: mod_mult_div_eq mult_div_mod_eq div_mult_mod_eq) linarith
qed

theorem align_to_ctu_least_witness: "64 dvd unat (align_to_ctu 1080) \<and> unat (1080 :: u32) \<le> unat (align_to_ctu 1080)"
  using align_to_ctu_least [of 1080] by simp

end
