(* ===== verification/Frame_Tap.thy ===== *)
theory Frame_Tap
  imports Pixels "HOL-Library.Multiset"
begin

text \<open>
  How committed buffers reach the encoders: the state of the compositor thread, the latest-only
  slots (\<open>waymux-session/src/recording.rs\<close>), the tap that runs at every commit and the cursor
  channel (\<open>state.rs\<close>, \<open>viewer/cursor.rs\<close>). Surfaces, buffers, callbacks and the other Wayland
  objects are numbers, as in \<open>Session_State\<close>; \<open>co_kind\<close> is the data behind a buffer at the moment, so
  that a client that writes to its memory changes it. An \<open>InnerBufferHold\<close> is shared: \<open>co_holds\<close> gives
  for each the buffer and the number of references, and tasks refer to holds by number. \<open>co_taken\<close>
  are the tasks the encoder threads have taken and not dropped yet, \<open>co_forwarded\<close> the frames the
  outer view has attached and the host has not released. Reading of a GPU buffer and the state of its fence are answers of
  the record \<open>tap_io\<close>.
\<close>

section \<open>State\<close>

record encoder =
  en_slot :: nat
  en_codec :: recording_codec
  en_stop :: bool

record dual_handle =
  dh_primary :: encoder
  dh_mode :: capture_mode
  dh_secondary :: "encoder option"

datatype recording_task =
    PixelsTask bytes u32 u32
  | DmabufTask dmabuf_buffer "nat list"

text \<open>What happens to the inner buffers of a forwarded frame when the host releases it.\<close>

datatype inner_releases =
    Direct "buffer list"
  | Refcounted "nat list"

record task_slot =
  sl_task :: "recording_task option"
  sl_produced :: u64
  sl_dropped :: u64

record cursor_image =
  ci_w :: u16
  ci_h :: u16
  ci_hot_x :: u16
  ci_hot_y :: u16
  ci_rgba :: bytes

record surface_sync =
  sy_acquire :: "point option"
  sy_release :: "point option"

record surf_state =
  su_toplevel :: "u32 option"
  su_pending :: "buffer option"
  su_current :: "buffer option"
  su_children :: "subsurface_child list"
  su_viewport :: viewport_data
  su_inhibited :: bool
  su_feedbacks :: "resource list"
  su_layer :: bool
  su_layer_window :: "u32 option"
  su_frame_cbs :: "resource list"
  su_sync :: "surface_sync option"
  su_interactivity :: u32

definition surf_default :: surf_state where
  "surf_default = \<lparr>su_toplevel = None, su_pending = None, su_current = None, su_children = [],
     su_viewport = viewport_default, su_inhibited = False, su_feedbacks = [], su_layer = False,
     su_layer_window = None, su_frame_cbs = [], su_sync = None, su_interactivity = 0\<rparr>"

datatype plasma_event =
    PlasmaShowDesktop
  | PlasmaKnown u32
  | PlasmaKnownUuid u32 string
  | PlasmaStacking
  | PlasmaStackingUuid
  | PlasmaWinTitle string
  | PlasmaWinAppId string
  | PlasmaWinPid u32
  | PlasmaWinGeometry int int u32 u32
  | PlasmaWinState
  | PlasmaWinUnmapped
  | PlasmaWinInitial

datatype output_event =
    LogicalPosition int int
  | LogicalSize int int
  | OutputGeometry int int int int string string
  | OutputMode int int int
  | OutputScale int
  | OutputName string
  | OutputDescription string
  | OutputDone

datatype dmabuf_event =
    DmabufFormat u32
  | DmabufModifier u32 u32 u32
  | FormatTable bytes
  | MainDevice bytes
  | TrancheDevice bytes
  | TrancheFormats bytes
  | TrancheFlags
  | TrancheDone
  | FeedbackDone

datatype object_event =
    PointerConfined
  | BufferDone
  | InputDone u32
  | FractionalScale u32
  | DecorationClientSide
  | TokenDone string
  | ExportHandle string
  | ClockId nat
  | ShmFormat shm_format
  | SeatCapabilities
  | SeatName string
  | Keymap
  | RepeatInfo int int

datatype comp_event =
    CallbackDone resource u32
  | Presented resource u32 u32 u32 u32
  | PreferredScale surface int
  | LayerConfigure resource u32 int int
  | ToplevelConfigure resource int int
  | SurfaceConfigure resource u32
  | DataOffer resource "string list"
  | RelativeMotion resource u32 u32 f64 f64 f64 f64
  | PointerLocked resource
  | InhibitorActive resource
  | FrameBuffer resource int int int
  | FrameReady resource
  | FrameFailed resource
  | ProtocolError resource string
  | BufferCreated resource buffer
  | ParamsFailed resource
  | PlasmaEvent resource plasma_event
  | OutputEvent resource output_event
  | DmabufEvent resource dmabuf_event
  | ObjectEvent resource object_event

record compositor =
  co_session :: session_state
  co_surfs :: "surface \<Rightarrow> surf_state option"
  co_kind :: "buffer \<Rightarrow> buffer_kind option"
  co_recording :: "dual_handle option"
  co_viewer :: "encoder option"
  co_slots :: "task_slot list"
  co_taken :: "recording_task list"
  co_holds :: "(nat \<times> buffer \<times> nat) list"
  co_next_hold :: nat
  co_forwarded :: "(nat \<times> inner_releases) list"
  co_callbacks :: "resource list"
  co_cursor :: "(surface \<times> int \<times> int) option"
  co_cursor_last :: "buffer option"
  co_cursor_image :: "cursor_image option"
  co_last_capture :: "nat option"
  co_locks :: nat
  co_relative :: "resource list"
  co_inhibited :: bool
  co_share_clipboard :: bool
  co_data_devices :: "resource list"
  co_outer_clipboard :: "(string \<times> bytes) list option"
  co_outer_version :: nat
  co_clip_sent :: nat
  co_inner_selection :: "(string list \<times> resource) option"
  co_inner_version :: nat
  co_mimes :: "resource \<Rightarrow> string list"
  co_serial :: u32
  co_now :: u64
  co_last_drain :: u64
  co_last_poke :: u64
  co_sent :: "comp_event list"

record tap_io =
  tio_ready :: "buffer \<Rightarrow> bool"
  tio_acquired :: bool
  tio_depth :: nat
  tio_now :: nat
  tio_cursor :: "dmabuf_buffer \<Rightarrow> bytes option"

text \<open>What \<open>composite.rs\<close> sees of the surfaces.\<close>

definition surface_view :: "compositor \<Rightarrow> surfaces" where
  "surface_view s f = map_option (\<lambda>d. \<lparr>current_buffer = Option.bind (su_current d) (co_kind s),
     children = su_children d, viewport = su_viewport d, is_layer_surface = su_layer d\<rparr>) (co_surfs s f)"

definition on_session :: "(session_state \<Rightarrow> session_state) \<Rightarrow> compositor \<Rightarrow> compositor" where
  "on_session g s = s\<lparr>co_session := g (co_session s)\<rparr>"

definition on_bufs :: "(buffers \<Rightarrow> buffers) \<Rightarrow> compositor \<Rightarrow> compositor" where
  "on_bufs g = on_session (\<lambda>t. t\<lparr>ses_bufs := g (ses_bufs t)\<rparr>)"

definition on_surf :: "surface \<Rightarrow> (surf_state \<Rightarrow> surf_state) \<Rightarrow> compositor \<Rightarrow> compositor" where
  "on_surf f g s = (case co_surfs s f of Some d \<Rightarrow> s\<lparr>co_surfs := (co_surfs s)(f \<mapsto> g d)\<rparr> | None \<Rightarrow> s)"

definition send_co :: "comp_event list \<Rightarrow> compositor \<Rightarrow> compositor" where
  "send_co es s = s\<lparr>co_sent := co_sent s @ es\<rparr>"

definition res_alive :: "compositor \<Rightarrow> resource \<Rightarrow> bool" where
  "res_alive s r \<longleftrightarrow> r \<notin> set (dead_res (co_session s))"

definition woken :: "compositor \<Rightarrow> compositor" where
  "woken s = on_session (wake_compositor (co_now s)) s"

definition woken_if :: "bool \<Rightarrow> compositor \<Rightarrow> compositor" where
  "woken_if c s = (if c then woken s else s)"

section \<open>Holds\<close>

text \<open>\<open>InnerBufferHold::new\<close>, a further reference, and the drop of one: with the last reference goes
  the hold, and the compositor thread is woken. The clock is the field \<open>co_now\<close>.\<close>

definition hold_new :: "buffer \<Rightarrow> compositor \<Rightarrow> compositor \<times> nat" where
  "hold_new b s =
     (let i = co_next_hold s
      in (on_bufs (register_buffer_hold b) (s\<lparr>co_holds := (i, b, 1) # co_holds s, co_next_hold := i + 1\<rparr>), i))"

definition hold_clone :: "nat \<Rightarrow> compositor \<Rightarrow> compositor" where
  "hold_clone i s = s\<lparr>co_holds := map (\<lambda>(j, b, n). (j, b, if j = i then n + 1 else n)) (co_holds s)\<rparr>"

definition hold_drop :: "nat \<Rightarrow> compositor \<Rightarrow> compositor" where
  "hold_drop i s =
     (case map_of (co_holds s) i of
        None \<Rightarrow> s
      | Some (b, n) \<Rightarrow>
          if n \<le> 1 then woken (on_bufs (drop_buffer_hold b) (s\<lparr>co_holds := alist_remove i (co_holds s)\<rparr>))
          else s\<lparr>co_holds := map (\<lambda>(j, b, n). (j, b, if j = i then n - 1 else n)) (co_holds s)\<rparr>)"

fun holds_of :: "recording_task \<Rightarrow> nat list" where
  "holds_of (PixelsTask _ _ _) = []"
| "holds_of (DmabufTask _ hs) = hs"

definition drop_task :: "recording_task \<Rightarrow> compositor \<Rightarrow> compositor" where
  "drop_task t = fold hold_drop (holds_of t)"

section \<open>Slots\<close>

definition slot_new :: task_slot where
  "slot_new = \<lparr>sl_task = None, sl_produced = 0, sl_dropped = 0\<rparr>"

definition slot_put :: "nat \<Rightarrow> recording_task \<Rightarrow> compositor \<Rightarrow> compositor" where
  "slot_put i t s =
     (let sl = co_slots s ! i;
          s' = s\<lparr>co_slots := (co_slots s)[i :=
                 \<lparr>sl_task = Some t, sl_produced = sl_produced sl + 1,
                  sl_dropped = (if sl_task sl \<noteq> None then sl_dropped sl + 1 else sl_dropped sl)\<rparr>]\<rparr>
      in case sl_task sl of Some old \<Rightarrow> drop_task old s' | None \<Rightarrow> s')"

definition slot_take :: "nat \<Rightarrow> compositor \<Rightarrow> compositor \<times> recording_task option" where
  "slot_take i s =
     (case sl_task (co_slots s ! i) of
        None \<Rightarrow> (s, None)
      | Some t \<Rightarrow> (s\<lparr>co_slots := (co_slots s)[i := (co_slots s ! i)\<lparr>sl_task := None\<rparr>], co_taken := t # co_taken s\<rparr>, Some t))"

text \<open>An encoder thread is done with a task it took.\<close>

definition task_done :: "recording_task \<Rightarrow> compositor \<Rightarrow> compositor" where
  "task_done t s = drop_task t (s\<lparr>co_taken := remove1 t (co_taken s)\<rparr>)"

section \<open>Who consumes frames\<close>

definition dual_active :: "dual_handle \<Rightarrow> bool" where
  "dual_active d \<longleftrightarrow> \<not> en_stop (dh_primary d)"

definition is_recording :: "compositor \<Rightarrow> bool" where
  "is_recording s \<longleftrightarrow> (case co_recording s of Some d \<Rightarrow> dual_active d | None \<Rightarrow> False)"

definition has_active_frame_consumer :: "compositor \<Rightarrow> bool" where
  "has_active_frame_consumer s \<longleftrightarrow> is_attached (co_session s) \<or> is_recording s \<or> co_viewer s \<noteq> None"

definition encoder_count_for_tap :: "compositor \<Rightarrow> nat" where
  "encoder_count_for_tap s =
     (case co_recording s of Some d \<Rightarrow> 1 + (if dh_secondary d \<noteq> None then 1 else 0) | None \<Rightarrow> 0)
     + (if co_viewer s \<noteq> None then 1 else 0)"

definition tap_encoders :: "compositor \<Rightarrow> capture_mode \<times> encoder list" where
  "tap_encoders s =
     (let v = (case co_viewer s of Some v \<Rightarrow> (if en_stop v then [] else [v]) | None \<Rightarrow> [])
      in case co_recording s of
           Some d \<Rightarrow>
             if dual_active d
             then (dh_mode d, dh_primary d # (case dh_secondary d of Some e \<Rightarrow> (if en_stop e then [] else [e]) | None \<Rightarrow> []) @ v)
             else (WholeDesktop, v)
         | None \<Rightarrow> (WholeDesktop, v))"

definition gpu_path :: "recording_codec \<Rightarrow> bool" where
  "gpu_path c \<longleftrightarrow> c \<in> {H264Nvenc, H264Vaapi, H264Vulkan, H264VulkanLossless, HevcVulkanLossless}"

definition wants_dmabuf :: "recording_codec \<Rightarrow> bool" where
  "wants_dmabuf c \<longleftrightarrow> c \<in> {H264Vulkan, Ffv1Vulkan, H264VulkanLossless, CudaNvenc, H264Vaapi}"

definition needs_nv12 :: "recording_codec \<Rightarrow> bool" where
  "needs_nv12 c \<longleftrightarrow> c \<in> {H264Nvenc, H264Vaapi}"

definition needs_vulkan :: "recording_codec \<Rightarrow> bool" where
  "needs_vulkan c \<longleftrightarrow> c \<in> {H264Vulkan, Ffv1Vulkan, H264VulkanLossless}"

section \<open>The tap\<close>

definition current_kind :: "surface \<Rightarrow> compositor \<Rightarrow> (buffer \<times> buffer_kind) option" where
  "current_kind f s =
     (case co_surfs s f of
        None \<Rightarrow> None
      | Some d \<Rightarrow> (case su_current d of
                    None \<Rightarrow> None
                  | Some b \<Rightarrow> map_option (Pair b) (co_kind s b)))"

definition committed_buffer_is_desktop_output :: "surface \<Rightarrow> compositor \<Rightarrow> bool" where
  "committed_buffer_is_desktop_output f s =
     (case current_kind f s of
        Some (b, DmabufBuf d) \<Rightarrow>
          (db_format d = Argb8888 \<or> db_format d = Xrgb8888)
          \<and> word_of_int (db_width d) = ses_width (co_session s) \<and> word_of_int (db_height d) = ses_height (co_session s)
      | _ \<Rightarrow> False)"

definition dmabuf_implicit_fence_ready :: "tap_io \<Rightarrow> surface \<Rightarrow> compositor \<Rightarrow> bool" where
  "dmabuf_implicit_fence_ready io f s =
     (case current_kind f s of Some (b, DmabufBuf d) \<Rightarrow> tio_ready io b | _ \<Rightarrow> True)"

definition surface_in_focused_tree :: "surface \<Rightarrow> compositor \<Rightarrow> bool" where
  "surface_in_focused_tree f s =
     (case focused_window (co_session s) of
        None \<Rightarrow> False
      | Some i \<Rightarrow> (case map_of (windows_by_id (co_session s)) i of Some (p, _) \<Rightarrow> p = f | None \<Rightarrow> False))"

text \<open>Read a buffer into packed BGRA pixels.\<close>

definition read_pixels :: "buffer_kind \<Rightarrow> (bytes \<times> u32 \<times> u32) option outcome" where
  "read_pixels k =
     (case with_bytes k of
        None \<Rightarrow> Returned None
      | Some v \<Rightarrow>
          if vb_format v = Argb8888 \<or> vb_format v = Xrgb8888
          then let w = word_of_int (vb_width v); h = word_of_int (vb_height v)
               in obind (destride_bgra (vb_bytes v) w h (word_of_int (vb_stride v))) (\<lambda>p. Returned (Some (p, w, h)))
          else Returned None)"

definition read_surface_buffer_for_recording ::
    "tap_io \<Rightarrow> surface \<Rightarrow> compositor \<Rightarrow> (bytes \<times> u32 \<times> u32) option outcome" where
  "read_surface_buffer_for_recording io f s =
     (case current_kind f s of
        None \<Rightarrow> Returned None
      | Some (b, k) \<Rightarrow>
          (case k of
             DmabufBuf d \<Rightarrow> if db_modifier d \<noteq> 0 \<or> \<not> tio_ready io b then Returned None else read_pixels k
           | _ \<Rightarrow> read_pixels k))"

definition put_pinned :: "nat \<Rightarrow> dmabuf_buffer \<Rightarrow> buffer \<Rightarrow> compositor \<Rightarrow> compositor" where
  "put_pinned i d b s = (let (s, h) = hold_new b s in slot_put i (DmabufTask d [h]) s)"

text \<open>The copy on the compositor thread of a linear dmabuf for a CPU encoder; the buffer is pinned for
  the time of the copy.\<close>

definition eager_copy :: "tap_io \<Rightarrow> nat \<Rightarrow> recording_codec \<Rightarrow> dmabuf_buffer \<Rightarrow> buffer \<Rightarrow> compositor \<Rightarrow> compositor outcome" where
  "eager_copy io i codec d b s =
     (if \<not> needs_nv12 codec \<and> \<not> needs_vulkan codec \<and> \<not> tio_ready io b then Returned s
      else case db_bytes d of
             None \<Rightarrow> Returned s
           | Some raw \<Rightarrow>
               let w = word_of_int (db_width d); h = word_of_int (db_height d)
               in obind (destride_bgra raw w h (word_of_int (db_stride d)))
                    (\<lambda>p. Returned (slot_put i (PixelsTask p w h) s)))"

definition put_copied :: "tap_io \<Rightarrow> nat \<Rightarrow> recording_codec \<Rightarrow> dmabuf_buffer \<Rightarrow> buffer \<Rightarrow> compositor \<Rightarrow> compositor outcome" where
  "put_copied io i codec d b s =
     (let (s, h) = hold_new b s in obind (eager_copy io i codec d b s) (\<lambda>s. Returned (hold_drop h s)))"

definition push_focused_buffer_to_recording ::
    "tap_io \<Rightarrow> surface \<Rightarrow> encoder \<Rightarrow> compositor \<Rightarrow> compositor outcome" where
  "push_focused_buffer_to_recording io f e s =
     (case current_kind f s of
        None \<Rightarrow> Returned s
      | Some (b, k) \<Rightarrow>
          (case k of
             DmabufBuf d \<Rightarrow>
               if wants_dmabuf (en_codec e) \<or> db_modifier d \<noteq> 0 then Returned (put_pinned (en_slot e) d b s)
               else put_copied io (en_slot e) (en_codec e) d b s
           | InvalidBuf \<Rightarrow> Returned s
           | _ \<Rightarrow>
               obind (read_surface_buffer_for_recording io f s) (\<lambda>r.
                 Returned (case r of
                             Some (p, w, h) \<Rightarrow> slot_put (en_slot e) (PixelsTask p w h) s
                           | None \<Rightarrow> s))))"

definition CAPTURE_INTERVAL_NS :: nat where
  "CAPTURE_INTERVAL_NS = 100000000"

text \<open>The composite of the whole desktop for the CPU encoders, at most every 100 ms.\<close>

definition capture_for :: "tap_io \<Rightarrow> encoder list \<Rightarrow> compositor \<Rightarrow> compositor outcome" where
  "capture_for io es s =
     (if es = [] then Returned s
      else if (case co_last_capture s of Some prev \<Rightarrow> tio_now io - prev < CAPTURE_INTERVAL_NS | None \<Rightarrow> False)
      then Returned s
      else let s = s\<lparr>co_last_capture := Some (tio_now io)\<rparr>
           in obind (capture_desktop (tio_depth io) (surface_view s) (co_session s)) (\<lambda>r.
                Returned (case r of
                    None \<Rightarrow> s
                  | Some fr \<Rightarrow>
                      fold (\<lambda>e. slot_put (en_slot e)
                          (PixelsTask (fr_bytes fr) (word_of_int (fr_width fr)) (word_of_int (fr_height fr)))) es s)))"

definition maybe_tap_for_recording :: "tap_io \<Rightarrow> surface \<Rightarrow> bool \<Rightarrow> compositor \<Rightarrow> compositor outcome" where
  "maybe_tap_for_recording io f acquire_signaled s =
     (let (mode, encoders) = tap_encoders s
      in if encoders = [] then Returned s
         else case mode of
           FocusedWindow \<Rightarrow>
             if \<not> surface_in_focused_tree f s then Returned s
             else if \<not> (\<forall>e\<in>set encoders. gpu_path (en_codec e)) \<and> \<not> acquire_signaled \<and> \<not> dmabuf_implicit_fence_ready io f s
             then Returned s
             else ofold (push_focused_buffer_to_recording io f) encoders s
         | WholeDesktop \<Rightarrow>
             obind (ofold (push_focused_buffer_to_recording io f) (filter (wants_dmabuf \<circ> en_codec) encoders) s)
               (capture_for io (filter (\<lambda>e. \<not> wants_dmabuf (en_codec e)) encoders)))"

definition prime_recording_first_frame :: "tap_io \<Rightarrow> compositor \<Rightarrow> compositor outcome" where
  "prime_recording_first_frame io s =
     (let surfs = map (fst \<circ> snd) (windows_by_id (co_session s));
          seed = (case List.find (\<lambda>f. committed_buffer_is_desktop_output f s) surfs of
                    Some f \<Rightarrow> Some f
                  | None \<Rightarrow> (case List.find (\<lambda>f. surface_in_focused_tree f s) surfs of
                              Some f \<Rightarrow> Some f
                            | None \<Rightarrow> (case surfs of [] \<Rightarrow> None | f # _ \<Rightarrow> Some f)))
      in case seed of None \<Rightarrow> Returned s | Some f \<Rightarrow> maybe_tap_for_recording io f True s)"

section \<open>The outer view\<close>

definition try_push_recording_pixels :: "bytes \<Rightarrow> u32 \<Rightarrow> u32 \<Rightarrow> compositor \<Rightarrow> compositor" where
  "try_push_recording_pixels p w h s =
     (case co_recording s of
        None \<Rightarrow> s
      | Some d \<Rightarrow>
          if en_stop (dh_primary d) then s
          else let s = (case dh_secondary d of
                          Some e \<Rightarrow> if en_stop e then s else slot_put (en_slot e) (PixelsTask p w h) s
                        | None \<Rightarrow> s)
               in slot_put (en_slot (dh_primary d)) (PixelsTask p w h) s)"

text \<open>The references in \<open>hs\<close> belong to the call: they go into the task, or are dropped.\<close>

definition try_push_recording_dmabuf :: "dmabuf_buffer \<Rightarrow> nat list \<Rightarrow> compositor \<Rightarrow> compositor" where
  "try_push_recording_dmabuf dma hs s =
     (case co_recording s of
        None \<Rightarrow> fold hold_drop hs s
      | Some d \<Rightarrow>
          if en_stop (dh_primary d) then fold hold_drop hs s
          else let s = (case dh_secondary d of
                          Some e \<Rightarrow> if en_stop e then s
                                   else slot_put (en_slot e) (DmabufTask dma hs) (fold hold_clone hs s)
                        | None \<Rightarrow> s)
               in slot_put (en_slot (dh_primary d)) (DmabufTask dma hs) s)"

definition surface_dmabuf :: "surface \<Rightarrow> compositor \<Rightarrow> (buffer \<times> dmabuf_buffer) option" where
  "surface_dmabuf f s = (case current_kind f s of Some (b, DmabufBuf d) \<Rightarrow> Some (b, d) | _ \<Rightarrow> None)"

text \<open>\<open>clone_focused_dmabuf\<close>: the parent's dmabuf, or the largest among its direct children.\<close>

definition clone_focused_dmabuf :: "compositor \<Rightarrow> (buffer \<times> dmabuf_buffer) option" where
  "clone_focused_dmabuf s =
     (case focused_window (co_session s) of
        None \<Rightarrow> None
      | Some i \<Rightarrow>
          (case map_of (windows_by_id (co_session s)) i of
             None \<Rightarrow> None
           | Some (f, _) \<Rightarrow>
               (case surface_dmabuf f s of
                  Some d \<Rightarrow> Some d
                | None \<Rightarrow>
                    (case co_surfs s f of
                       None \<Rightarrow> None
                     | Some sd \<Rightarrow>
                         fold (\<lambda>c best. case surface_dmabuf (ch_surface c) s of
                                 None \<Rightarrow> best
                               | Some (b, d) \<Rightarrow>
                                   (case best of
                                      Some (b', d') \<Rightarrow>
                                        if wrap_i32 (db_width d * db_height d) > wrap_i32 (db_width d' * db_height d')
                                        then Some (b, d) else best
                                    | None \<Rightarrow> Some (b, d)))
                           (su_children sd) None))))"

text \<open>The zero-copy path of the outer view for one frame: the buffers waiting for release are split
  into those of the forwarded dmabuf and the skipped ones, the skipped ones are released, and the
  others wait for the host; while a recording runs they are wrapped in holds shared with it.
  \<open>buf_dma\<close> names the dmabuf behind a buffer and \<open>ob\<close> the outer buffer.\<close>

fun hold_all :: "buffer list \<Rightarrow> compositor \<Rightarrow> compositor \<times> nat list" where
  "hold_all [] s = (s, [])"
| "hold_all (b # bs) s = (let (s, h) = hold_new b s; (s, hs) = hold_all bs s in (s, h # hs))"

definition forward_frame :: "(buffer \<Rightarrow> nat option) \<Rightarrow> nat \<Rightarrow> nat \<Rightarrow> dmabuf_buffer \<Rightarrow> compositor \<Rightarrow> compositor" where
  "forward_frame buf_dma fwd ob dma s =
     (let ((inner, skipped), bs) = take_pending_releases_split buf_dma fwd (ses_bufs (co_session s));
          s = woken_if (skipped \<noteq> []) (on_bufs (fold release_inner_buffer skipped) (on_bufs (\<lambda>_. bs) s))
      in if is_recording s
         then let (s, hs) = hold_all inner s;
                  s = fold hold_clone hs s;
                  s = s\<lparr>co_forwarded := (ob, Refcounted hs) # co_forwarded s\<rparr>
              in try_push_recording_dmabuf dma hs s
         else s\<lparr>co_forwarded := (ob, Direct inner) # co_forwarded s\<rparr>)"

text \<open>The host releases an outer buffer.\<close>

definition outer_release :: "nat \<Rightarrow> compositor \<Rightarrow> compositor" where
  "outer_release ob s =
     (case map_of (co_forwarded s) ob of
        None \<Rightarrow> s
      | Some r \<Rightarrow>
          let s = s\<lparr>co_forwarded := remove1 (ob, r) (co_forwarded s)\<rparr>
          in case r of
               Direct bs \<Rightarrow> woken_if (bs \<noteq> []) (on_bufs (fold release_inner_buffer bs) s)
             | Refcounted hs \<Rightarrow> fold hold_drop hs s)"

section \<open>The cursor\<close>

definition cursor_changed :: "buffer \<Rightarrow> compositor \<Rightarrow> compositor \<times> bool" where
  "cursor_changed b s =
     (if co_cursor_last s = Some b then (s, False) else (s\<lparr>co_cursor_last := Some b\<rparr>, True))"

definition hidden_cursor :: cursor_image where
  "hidden_cursor = \<lparr>ci_w = 0, ci_h = 0, ci_hot_x = 0, ci_hot_y = 0, ci_rgba = []\<rparr>"

definition cursor_of :: "int \<Rightarrow> int \<Rightarrow> u32 \<Rightarrow> u32 \<Rightarrow> bytes \<Rightarrow> cursor_image" where
  "cursor_of hx hy w h rgba =
     \<lparr>ci_w = ucast w, ci_h = ucast h, ci_hot_x = word_of_int (max hx 0), ci_hot_y = word_of_int (max hy 0), ci_rgba = rgba\<rparr>"

text \<open>\<open>cursor_shm_argb_bytes\<close>: size, stride, bytes, and whether the alpha byte means nothing.\<close>

definition cursor_shm_argb_bytes :: "buffer_kind \<Rightarrow> (u32 \<times> u32 \<times> u32 \<times> bytes \<times> bool) option" where
  "cursor_shm_argb_bytes k =
     (case k of
        ShmBuf sb \<Rightarrow>
          (case with_bytes k of
             None \<Rightarrow> None
           | Some v \<Rightarrow>
               if vb_format v = Argb8888 \<or> vb_format v = Xrgb8888
               then Some (word_of_int (vb_width v), word_of_int (vb_height v), word_of_int (vb_stride v), vb_bytes v, vb_format v = Xrgb8888)
               else None)
      | _ \<Rightarrow> None)"

definition note_cursor_dirty :: "tap_io \<Rightarrow> compositor \<Rightarrow> compositor outcome" where
  "note_cursor_dirty io s =
     (case co_cursor s of
        None \<Rightarrow> Returned (s\<lparr>co_cursor_image := Some hidden_cursor\<rparr>)
      | Some (f, hx, hy) \<Rightarrow>
          (case current_kind f s of
             None \<Rightarrow> Returned s
           | Some (b, k) \<Rightarrow>
               let (s, fresh) = cursor_changed b s
               in if \<not> fresh then Returned s
                  else case k of
                    ShmBuf _ \<Rightarrow>
                      (case cursor_shm_argb_bytes k of
                         None \<Rightarrow> Returned s
                       | Some (w, h, stride, bs, opaque) \<Rightarrow>
                           if unat w > MAX_CURSOR_DIM \<or> unat h > MAX_CURSOR_DIM then Returned s
                           else obind (argb8888_bytes_to_rgba bs w h stride) (\<lambda>rgba.
                             Returned (s\<lparr>co_cursor_image :=
                               Some (cursor_of hx hy w h (if opaque then force_opaque rgba else rgba))\<rparr>)))
                  | DmabufBuf d \<Rightarrow>
                      let w = word_of_int (db_width d); h = word_of_int (db_height d)
                      in if unat w > MAX_CURSOR_DIM \<or> unat h > MAX_CURSOR_DIM then Returned s
                         else if db_format d \<noteq> Argb8888 \<and> db_format d \<noteq> Xrgb8888 then Returned s
                         else Returned (case tio_cursor io d of
                                          Some rgba \<Rightarrow> s\<lparr>co_cursor_image := Some (cursor_of hx hy w h rgba)\<rparr>
                                        | None \<Rightarrow> s)
                  | _ \<Rightarrow> Returned s))"

section \<open>Lemmas: holds as steps of the buffer protocol\<close>

definition held :: "(nat \<times> buffer \<times> nat) list \<Rightarrow> buffer \<Rightarrow> nat" where
  "held hs b = card {i. \<exists>n. map_of hs i = Some (b, n)}"

definition bufs_of :: "compositor \<Rightarrow> buffers" where
  "bufs_of s = ses_bufs (co_session s)"

text \<open>The state of the protocol of \<open>Buffer_Hold\<close> behind a state of the compositor, and what it means
  that a piece of code does nothing to buffers but steps of that protocol.\<close>

definition co_world :: "(buffer \<Rightarrow> point list) \<Rightarrow> compositor \<Rightarrow> world" where
  "co_world nt s = \<lparr>bufs = bufs_of s, live = held (co_holds s), noted = nt\<rparr>"

definition refines :: "compositor \<Rightarrow> compositor \<Rightarrow> bool" where
  "refines s s' \<longleftrightarrow> (\<forall>nt. \<exists>nt'. buf_step\<^sup>*\<^sup>* (co_world nt s) (co_world nt' s'))"

lemma bufs_of_frame [simp]:
  "bufs_of (on_bufs g s) = g (bufs_of s)" "co_holds (on_bufs g s) = co_holds s"
  "co_slots (on_bufs g s) = co_slots s" "co_taken (on_bufs g s) = co_taken s"
  "co_forwarded (on_bufs g s) = co_forwarded s" "co_next_hold (on_bufs g s) = co_next_hold s"
  "co_recording (on_bufs g s) = co_recording s" "co_viewer (on_bufs g s) = co_viewer s"
  "co_kind (on_bufs g s) = co_kind s" "co_surfs (on_bufs g s) = co_surfs s"
  "bufs_of (s\<lparr>co_holds := hs\<rparr>) = bufs_of s"
  by (simp_all add: on_bufs_def on_session_def bufs_of_def)

lemma woken_frame [simp]:
  "bufs_of (woken s) = bufs_of s" "co_holds (woken s) = co_holds s" "co_slots (woken s) = co_slots s"
  "co_taken (woken s) = co_taken s" "co_forwarded (woken s) = co_forwarded s" "co_next_hold (woken s) = co_next_hold s"
  by (simp_all add: woken_def on_session_def bufs_of_def wake_compositor_def)

lemma co_world_woken [simp]: "co_world nt (woken s) = co_world nt s"
  by (simp add: co_world_def)

lemma refines_refl [simp]: "refines s s"
  unfolding refines_def by blast

lemma refines_trans: "refines a b \<Longrightarrow> refines b c \<Longrightarrow> refines a c"
  unfolding refines_def by (meson rtranclp_trans)

lemma refines_same: "bufs_of s' = bufs_of s \<Longrightarrow> co_holds s' = co_holds s \<Longrightarrow> refines s s'"
  unfolding refines_def co_world_def by auto

lemma refines_step: "(\<And>nt. \<exists>nt'. buf_step (co_world nt s) (co_world nt' s')) \<Longrightarrow> refines s s'"
  unfolding refines_def by blast

lemma refines_bufs:
  "refines s (on_bufs (release_inner_buffer b) s)" "refines s (on_bufs (queue_deferred_release b) s)"
  "refines s (on_bufs flush_pending_releases s)" "refines s (on_bufs (\<lambda>t. snd (take_pending_releases_split k d t)) s)"
  "refines s (on_bufs (\<lambda>t. t\<lparr>dead := b # dead t\<rparr>) s)"
proof -
  have w: "co_world nt (on_bufs g s) = (co_world nt s)\<lparr>bufs := g (bufs (co_world nt s))\<rparr>" for nt g
    by (simp add: co_world_def)
  show "refines s (on_bufs (release_inner_buffer b) s)" "refines s (on_bufs (queue_deferred_release b) s)"
    "refines s (on_bufs flush_pending_releases s)" "refines s (on_bufs (\<lambda>t. snd (take_pending_releases_split k d t)) s)"
    "refines s (on_bufs (\<lambda>t. t\<lparr>dead := b # dead t\<rparr>) s)"
    by (rule refines_step, unfold w, rule exI, rule buf_step.intros)+
qed

lemma refines_note: "refines s (on_bufs (note_buffer_release_point b pt) s)"
proof (rule refines_step)
  fix nt
  have "co_world (nt(b := nt b @ [pt])) (on_bufs (note_buffer_release_point b pt) s)
      = (co_world nt s)\<lparr>bufs := note_buffer_release_point b pt (bufs (co_world nt s)),
          noted := (noted (co_world nt s))(b := noted (co_world nt s) b @ [pt])\<rparr>"
    by (simp add: co_world_def)
  then show "\<exists>nt'. buf_step (co_world nt s) (co_world nt' (on_bufs (note_buffer_release_point b pt) s))"
    by (metis Note)
qed

lemma refines_fold_release: "refines s (on_bufs (fold release_inner_buffer bs) s)"
proof (induction bs arbitrary: s)
  case (Cons b bs)
  have "on_bufs (fold release_inner_buffer (b # bs)) s = on_bufs (fold release_inner_buffer bs) (on_bufs (release_inner_buffer b) s)"
    by (simp add: on_bufs_def on_session_def)
  then show ?case using Cons refines_bufs(1) refines_trans by metis
qed (simp add: on_bufs_def on_session_def)

lemma finite_held: "finite {i. \<exists>n. map_of hs i = Some (b, n)}"
  by (rule finite_subset [OF _ finite_dom_map_of [of hs]]) auto

lemma held_new: "map_of hs i = None \<Longrightarrow> held ((i, b, n) # hs) = (held hs)(b := held hs b + 1)"
proof (rule ext)
  fix b' assume i: "map_of hs i = None"
  have "{j. \<exists>m. map_of ((i, b, n) # hs) j = Some (b', m)}
      = (if b' = b then insert i {j. \<exists>m. map_of hs j = Some (b', m)} else {j. \<exists>m. map_of hs j = Some (b', m)})"
    using i by auto
  moreover have "i \<notin> {j. \<exists>m. map_of hs j = Some (b', m)}" using i by simp
  ultimately show "held ((i, b, n) # hs) b' = ((held hs)(b := held hs b + 1)) b'"
    using finite_held [of hs b'] unfolding held_def by (simp only: card_insert_disjoint fun_upd_def split: if_splits) auto
qed

lemma held_remove: "map_of hs i = Some (b, n) \<Longrightarrow> held (alist_remove i hs) = (held hs)(b := held hs b - 1)"
proof (rule ext)
  fix b' assume i: "map_of hs i = Some (b, n)"
  have "{j. \<exists>m. map_of (alist_remove i hs) j = Some (b', m)} = {j. \<exists>m. map_of hs j = Some (b', m)} - {i}" by auto
  moreover have "i \<in> {j. \<exists>m. map_of hs j = Some (b', m)} \<longleftrightarrow> b' = b" using i by auto
  ultimately show "held (alist_remove i hs) b' = ((held hs)(b := held hs b - 1)) b'"
    using finite_held [of hs b'] by (auto simp: held_def card_Diff_singleton_if simp del: map_of_eq_Some_iff)
qed

lemma held_pos: "map_of hs i = Some (b, n) \<Longrightarrow> 0 < held hs b"
  using finite_held [of hs b] by (auto simp: held_def card_gt_0_iff)

lemma map_of_refs: "map_of (map (\<lambda>(j, b, n). (j, b, if j = i then f n else n)) hs) j
    = (case map_of hs j of None \<Rightarrow> None | Some (b, n) \<Rightarrow> Some (b, if j = i then f n else n))"
  by (induction hs) auto

lemma held_refs [simp]: "held (map (\<lambda>(j, b, n). (j, b, if j = i then f n else n)) hs) = held hs"
proof (rule ext)
  fix b
  have "{j. \<exists>m. map_of (map (\<lambda>(j, b, n). (j, b, if j = i then f n else n)) hs) j = Some (b, m)}
      = {j. \<exists>m. map_of hs j = Some (b, m)}"
    by (auto simp: map_of_refs split: option.splits)
  then show "held (map (\<lambda>(j, b, n). (j, b, if j = i then f n else n)) hs) b = held hs b" by (simp add: held_def)
qed

lemma refines_hold_clone: "refines s (hold_clone i s)"
  unfolding refines_def co_world_def by (auto simp: hold_clone_def bufs_of_def)

lemma refines_hold_new:
  assumes "map_of (co_holds s) (co_next_hold s) = None"
  shows "refines s (fst (hold_new b s))"
proof (rule refines_step)
  fix nt
  let ?w = "co_world nt s"
  have "co_world nt (fst (hold_new b s)) = ?w\<lparr>bufs := register_buffer_hold b (bufs ?w), live := (live ?w)(b := live ?w b + 1)\<rparr>"
    using held_new [OF assms] by (simp add: co_world_def hold_new_def Let_def bufs_of_def on_bufs_def on_session_def)
  then show "\<exists>nt'. buf_step ?w (co_world nt' (fst (hold_new b s)))" by (metis Hold)
qed

lemma refines_hold_drop: "refines s (hold_drop i s)"
proof (cases "map_of (co_holds s) i")
  case None
  then show ?thesis by (simp add: hold_drop_def)
next
  case (Some p)
  obtain b n where p: "p = (b, n)" by (cases p)
  show ?thesis
  proof (cases "n \<le> 1")
    case True
    show ?thesis
    proof (rule refines_step)
      fix nt
      let ?w = "co_world nt s"
      have "co_world nt (hold_drop i s) = ?w\<lparr>bufs := drop_buffer_hold b (bufs ?w), live := (live ?w)(b := live ?w b - 1)\<rparr>"
        using True Some p held_remove [of "co_holds s" i b n]
        by (simp add: co_world_def hold_drop_def)
      moreover have "live ?w b > 0" using Some p held_pos [of "co_holds s" i b n] by (simp add: co_world_def)
      ultimately show "\<exists>nt'. buf_step ?w (co_world nt' (hold_drop i s))" by (metis Unhold)
    qed
  next
    case False
    then show ?thesis using Some p by (auto simp: refines_def co_world_def hold_drop_def bufs_of_def)
  qed
qed

lemma refines_fold: "(\<And>x s. refines s (f x s)) \<Longrightarrow> refines s (fold f xs s)"
proof (induction xs arbitrary: s)
  case (Cons x xs)
  then show ?case using refines_trans [of s "f x s"] by simp
qed simp

section \<open>Lemmas: who owns the references\<close>

text \<open>The references to holds that are stored: in the slots, in the tasks being encoded, in the
  forwarded frames.\<close>

definition slot_holds :: "task_slot \<Rightarrow> nat list" where
  "slot_holds sl = (case sl_task sl of Some t \<Rightarrow> holds_of t | None \<Rightarrow> [])"

fun release_holds_of :: "nat \<times> inner_releases \<Rightarrow> nat list" where
  "release_holds_of (ob, Refcounted hs) = hs"
| "release_holds_of (ob, Direct bs) = []"

definition refs_of :: "compositor \<Rightarrow> nat multiset" where
  "refs_of s = mset (concat (map slot_holds (co_slots s))) + mset (concat (map holds_of (co_taken s)))
     + mset (concat (map release_holds_of (co_forwarded s)))"

definition refcount :: "compositor \<Rightarrow> nat \<Rightarrow> nat" where
  "refcount s i = (case map_of (co_holds s) i of Some (b, n) \<Rightarrow> n | None \<Rightarrow> 0)"

text \<open>The counts are exact when \<open>X\<close> are the references the running code holds itself.\<close>

definition owns :: "nat multiset \<Rightarrow> compositor \<Rightarrow> bool" where
  "owns X s \<longleftrightarrow> (\<forall>i. refcount s i = count (refs_of s + X) i)
     \<and> (\<forall>i b n. map_of (co_holds s) i = Some (b, n) \<longrightarrow> 0 < n \<and> i < co_next_hold s)"

definition slots_ok :: "compositor \<Rightarrow> bool" where
  "slots_ok s \<longleftrightarrow> (\<forall>d. co_recording s = Some d \<longrightarrow> en_slot (dh_primary d) < length (co_slots s)
        \<and> (\<forall>e. dh_secondary d = Some e \<longrightarrow> en_slot e < length (co_slots s)))
     \<and> (\<forall>v. co_viewer s = Some v \<longrightarrow> en_slot v < length (co_slots s))"

text \<open>What the code in this theory leaves alone.\<close>

definition rest :: "compositor \<Rightarrow> compositor" where
  "rest s = s\<lparr>co_session := (co_session s)\<lparr>ses_bufs := buffers_new, last_activity_ms := 0, wakes := 0\<rparr>, co_slots := replicate (length (co_slots s)) slot_new,
     co_taken := [], co_holds := [], co_next_hold := 0, co_forwarded := [], co_last_capture := None\<rparr>"

lemma rest_fields:
  assumes "rest s' = rest s"
  shows "co_recording s' = co_recording s" "co_viewer s' = co_viewer s" "length (co_slots s') = length (co_slots s)"
    "co_surfs s' = co_surfs s" "co_kind s' = co_kind s" "co_callbacks s' = co_callbacks s" "co_sent s' = co_sent s"
    "(co_session s')\<lparr>ses_bufs := b, last_activity_ms := a, wakes := n\<rparr> = (co_session s)\<lparr>ses_bufs := b, last_activity_ms := a, wakes := n\<rparr>"
proof -
  show "co_recording s' = co_recording s" using arg_cong [OF assms, of co_recording] by (simp add: rest_def)
  show "co_viewer s' = co_viewer s" using arg_cong [OF assms, of co_viewer] by (simp add: rest_def)
  show "length (co_slots s') = length (co_slots s)"
    using arg_cong [OF assms, of "\<lambda>s. length (co_slots s)"] by (simp add: rest_def)
  show "co_surfs s' = co_surfs s" using arg_cong [OF assms, of co_surfs] by (simp add: rest_def)
  show "co_kind s' = co_kind s" using arg_cong [OF assms, of co_kind] by (simp add: rest_def)
  show "co_callbacks s' = co_callbacks s" using arg_cong [OF assms, of co_callbacks] by (simp add: rest_def)
  show "co_sent s' = co_sent s" using arg_cong [OF assms, of co_sent] by (simp add: rest_def)
  show "(co_session s')\<lparr>ses_bufs := b, last_activity_ms := a, wakes := n\<rparr> = (co_session s)\<lparr>ses_bufs := b, last_activity_ms := a, wakes := n\<rparr>"
    using arg_cong [OF assms, of "\<lambda>s. (co_session s)\<lparr>ses_bufs := b, last_activity_ms := a, wakes := n\<rparr>"] by (simp add: rest_def)
qed

lemma rest_slots_ok: "rest s' = rest s \<Longrightarrow> slots_ok s' = slots_ok s"
  using rest_fields(1-3) [of s' s] by (simp add: slots_ok_def)

lemma rest_on_bufs [simp]: "rest (on_bufs g s) = rest s" "rest (woken s) = rest s"
  by (simp_all add: rest_def on_bufs_def on_session_def woken_def wake_compositor_def)

lemma rest_hold_ops [simp]: "rest (fst (hold_new b s)) = rest s" "rest (hold_clone i s) = rest s" "rest (hold_drop i s) = rest s"
  by (simp_all add: rest_def hold_new_def hold_clone_def hold_drop_def on_bufs_def on_session_def woken_def wake_compositor_def Let_def split: option.splits prod.splits)

lemma rest_fold_drop [simp]: "rest (fold hold_drop hs s) = rest s" "rest (fold hold_clone hs s) = rest s"
  by (induction hs arbitrary: s) simp_all

lemma rest_slot_put [simp]: "rest (slot_put i t s) = rest s"
  by (simp add: slot_put_def Let_def drop_task_def split: option.split) (simp add: rest_def)

text \<open>From owning \<open>X\<close> to owning \<open>Y\<close>, by steps of the protocol.\<close>

definition moves :: "nat multiset \<Rightarrow> compositor \<Rightarrow> nat multiset \<Rightarrow> compositor \<Rightarrow> bool" where
  "moves X s Y s' \<longleftrightarrow> (owns X s \<and> slots_ok s \<longrightarrow> owns Y s' \<and> refines s s' \<and> rest s' = rest s)"

lemma moves_refl [simp]: "moves X s X s"
  by (simp add: moves_def)

lemma moves_trans: "moves X a Y b \<Longrightarrow> moves Y b Z c \<Longrightarrow> moves X a Z c"
  unfolding moves_def using refines_trans rest_slots_ok by metis

lemma refs_frame [simp]:
  "refs_of (on_bufs g s) = refs_of s" "refs_of (woken s) = refs_of s" "refs_of (s\<lparr>co_holds := hs\<rparr>) = refs_of s" "refs_of (s\<lparr>co_next_hold := n\<rparr>) = refs_of s"
  "refs_of (s\<lparr>co_last_capture := lc\<rparr>) = refs_of s"
  by (simp_all add: refs_of_def)

lemma moves_hold_new:
  assumes "hold_new b s = (s', i)"
  shows "moves X s (add_mset i X) s'"
proof -
  have s': "s' = fst (hold_new b s)" using assms by simp
  have i: "i = co_next_hold s" using assms by (simp add: hold_new_def Let_def)
  { assume o: "owns X s"
    have none: "map_of (co_holds s) i = None"
    proof (rule ccontr)
      assume "map_of (co_holds s) i \<noteq> None"
      then obtain b' n where "map_of (co_holds s) i = Some (b', n)" by auto
      then have "i < co_next_hold s" using o unfolding owns_def by blast
      with i show False by simp
    qed
    have refs: "refs_of s' = refs_of s" unfolding s' by (simp add: hold_new_def Let_def)
    have h: "co_holds s' = (i, b, 1) # co_holds s" "co_next_hold s' = i + 1" unfolding s' i by (simp_all add: hold_new_def Let_def)
    have "count (refs_of s + X) i = 0" using o none unfolding owns_def refcount_def by (metis option.simps(4))
    then have "refcount s' j = count (refs_of s' + add_mset i X) j" for j
      using o refs by (cases "j = i") (simp_all add: owns_def refcount_def h)
    moreover have "0 < n \<and> j < co_next_hold s'" if "map_of (co_holds s') j = Some (b', n)" for j b' n
      using that o i unfolding owns_def h by (auto split: if_splits intro: less_SucI)
    ultimately have "owns (add_mset i X) s'" by (simp add: owns_def)
    moreover have "refines s s'" unfolding s' using none i by (intro refines_hold_new) simp
    ultimately have "owns (add_mset i X) s' \<and> refines s s'" by simp }
  then show ?thesis by (simp add: moves_def s')
qed

lemma moves_hold_clone:
  assumes "i \<in># refs_of s + X"
  shows "moves X s (add_mset i X) (hold_clone i s)"
proof -
  { assume o: "owns X s"
    have "0 < count (refs_of s + X) i" using assms by (simp only: count_greater_zero_iff)
    then have "map_of (co_holds s) i \<noteq> None" using o unfolding owns_def refcount_def by (metis option.simps(4) less_numeral_extra(3))
    then have "refcount (hold_clone i s) j = (if j = i then Suc (refcount s i) else refcount s j)" for j
      by (auto simp: refcount_def hold_clone_def map_of_refs split: option.splits)
    moreover have "refs_of (hold_clone i s) = refs_of s" by (simp add: hold_clone_def)
    ultimately have "refcount (hold_clone i s) j = count (refs_of (hold_clone i s) + add_mset i X) j" for j
      using o by (simp add: owns_def)
    moreover have "0 < n \<and> j < co_next_hold (hold_clone i s)" if "map_of (co_holds (hold_clone i s)) j = Some (b, n)" for j b n
      using that o by (auto simp: owns_def hold_clone_def map_of_refs split: option.splits if_splits)
    ultimately have "owns (add_mset i X) (hold_clone i s)" by (simp add: owns_def) }
  then show ?thesis by (simp add: moves_def refines_hold_clone)
qed

lemma moves_hold_drop: "moves (add_mset i X) s X (hold_drop i s)"
proof -
  { assume o: "owns (add_mset i X) s"
    then have "0 < refcount s i" by (simp add: owns_def)
    then obtain b n where m: "map_of (co_holds s) i = Some (b, n)" "refcount s i = n"
      by (auto simp: refcount_def split: option.splits)
    have refs: "refs_of (hold_drop i s) = refs_of s" using m(1) by (simp add: hold_drop_def)
    have h: "map_of (co_holds (hold_drop i s)) j = (if j = i then (if n \<le> 1 then None else Some (b, n - 1)) else map_of (co_holds s) j)" for j
      using m(1) by (auto simp: hold_drop_def map_of_refs split: option.splits)
    have "refcount (hold_drop i s) j = count (refs_of (hold_drop i s) + X) j" for j
    proof (cases "j = i")
      case True
      have "n = Suc (count (refs_of s + X) i)" using o m(2) by (simp add: owns_def)
      then show ?thesis using True by (simp add: refcount_def h refs)
    next
      case False
      have "refcount s j = count (refs_of s + X) j" using o False by (simp add: owns_def)
      then show ?thesis using False by (simp add: refcount_def h refs)
    qed
    moreover have "0 < k \<and> j < co_next_hold (hold_drop i s)" if "map_of (co_holds (hold_drop i s)) j = Some (b', k)" for j b' k
    proof -
      have "co_next_hold (hold_drop i s) = co_next_hold s" using m(1) by (simp add: hold_drop_def)
      moreover have "i < co_next_hold s" using o m(1) unfolding owns_def by blast
      ultimately show ?thesis using that o unfolding h owns_def by (auto split: if_splits)
    qed
    ultimately have "owns X (hold_drop i s)" by (simp add: owns_def) }
  then show ?thesis by (simp add: moves_def refines_hold_drop)
qed

lemma moves_fold_drop: "moves (mset hs + X) s X (fold hold_drop hs s)"
proof (induction hs arbitrary: s)
  case (Cons h hs)
  have "moves (add_mset h (mset hs + X)) s (mset hs + X) (hold_drop h s)" by (rule moves_hold_drop)
  then show ?case using Cons moves_trans by simp
qed simp

lemma concat_list_update:
  "i < length xs \<Longrightarrow> mset (concat (map f (xs[i := y]))) + mset (f (xs ! i)) = mset (concat (map f xs)) + mset (f y)"
proof (induction xs arbitrary: i)
  case (Cons x xs)
  then show ?case by (cases i) (simp_all add: union_assoc union_commute union_lcomm)
qed simp

lemma concat_remove1: "x \<in> set xs \<Longrightarrow> mset (concat (map f (remove1 x xs))) + mset (f x) = mset (concat (map f xs))"
  by (induction xs) (auto simp: union_assoc union_commute union_lcomm)

lemma moves_same:
  assumes "bufs_of s' = bufs_of s" "co_holds s' = co_holds s" "co_next_hold s' = co_next_hold s" "rest s' = rest s"
    and "refs_of s' + Y = refs_of s + X"
  shows "moves X s Y s'"
  using assms refines_same [of s' s] by (simp add: moves_def owns_def refcount_def)

lemma slot_put_alt:
  "slot_put i t s = fold hold_drop (slot_holds (co_slots s ! i)) (s\<lparr>co_slots := (co_slots s)[i :=
     \<lparr>sl_task = Some t, sl_produced = sl_produced (co_slots s ! i) + 1,
      sl_dropped = (if sl_task (co_slots s ! i) \<noteq> None then sl_dropped (co_slots s ! i) + 1 else sl_dropped (co_slots s ! i))\<rparr>]\<rparr>)"
  by (simp add: slot_put_def slot_holds_def drop_task_def Let_def split: option.split)

lemma moves_slot_put:
  assumes "slots_ok s \<Longrightarrow> i < length (co_slots s)"
  shows "moves (mset (holds_of t) + X) s X (slot_put i t s)"
proof (cases "slots_ok s")
  case True
  let ?sl = "\<lparr>sl_task = Some t, sl_produced = sl_produced (co_slots s ! i) + 1,
      sl_dropped = (if sl_task (co_slots s ! i) \<noteq> None then sl_dropped (co_slots s ! i) + 1 else sl_dropped (co_slots s ! i))\<rparr>"
  let ?s = "s\<lparr>co_slots := (co_slots s)[i := ?sl]\<rparr>"
  have "slot_holds ?sl = holds_of t" by (simp add: slot_holds_def)
  then have "mset (concat (map slot_holds ((co_slots s)[i := ?sl]))) + mset (slot_holds (co_slots s ! i))
      = mset (concat (map slot_holds (co_slots s))) + mset (holds_of t)"
    using concat_list_update [where f = slot_holds and y = ?sl, OF assms [OF True]] by simp
  then have "refs_of ?s + (mset (slot_holds (co_slots s ! i)) + X) = refs_of s + (mset (holds_of t) + X)"
    by (simp add: refs_of_def union_assoc union_commute union_lcomm)
  then have "moves (mset (holds_of t) + X) s (mset (slot_holds (co_slots s ! i)) + X) ?s"
    by (intro moves_same) (simp_all add: bufs_of_def rest_def)
  from moves_trans [OF this moves_fold_drop] show ?thesis by (simp only: slot_put_alt)
qed (simp add: moves_def)

text \<open>The same for code that may panic: whatever it returns.\<close>

definition omoves :: "nat multiset \<Rightarrow> compositor \<Rightarrow> nat multiset \<Rightarrow> compositor outcome \<Rightarrow> bool" where
  "omoves X s Y r \<longleftrightarrow> (\<forall>s'. r = Returned s' \<longrightarrow> moves X s Y s')"

lemma omoves_simps [simp]:
  "omoves X s Y (Returned s') = moves X s Y s'" "omoves X s Y Panicked" "omoves X s Y StackOverflow"
  by (simp_all add: omoves_def)

lemma omoves_bind: "omoves X s Y r \<Longrightarrow> (\<And>s'. omoves Y s' Z (f s')) \<Longrightarrow> omoves X s Z (obind r f)"
  by (cases r) (auto simp: omoves_def intro: moves_trans)

lemma omoves_bind_val: "(\<And>v. omoves X s Y (f v)) \<Longrightarrow> omoves X s Y (obind r f)"
  by (cases r) simp_all

lemma omoves_ofold:
  assumes "\<And>x s'. x \<in> set xs \<Longrightarrow> rest s' = rest s \<Longrightarrow> omoves X s' X (f x s')"
  shows "omoves X s X (ofold f xs s)"
proof -
  have "rest t = rest s \<Longrightarrow> omoves X t X (ofold f xs t)" for t
    using assms
  proof (induction xs arbitrary: t)
    case (Cons x xs)
    have m: "omoves X t X (f x t)" using Cons.prems by simp
    show ?case
    proof (cases "f x t")
      case (Returned u)
      show ?thesis
      proof (cases "owns X t \<and> slots_ok t")
        case True
        with m Returned have "rest u = rest t" by (simp add: moves_def)
        with Cons have "omoves X u X (ofold f xs u)" by simp
        with m Returned show ?thesis by (auto simp: omoves_def intro: moves_trans)
      next
        case False
        then show ?thesis by (auto simp: omoves_def moves_def)
      qed
    qed simp_all
  qed simp
  then show ?thesis by simp
qed

lemma moves_put_pinned:
  assumes "slots_ok s \<Longrightarrow> i < length (co_slots s)"
  shows "moves X s X (put_pinned i d b s)"
proof -
  obtain s' h where n: "hold_new b s = (s', h)" by fastforce
  then have "s' = fst (hold_new b s)" by simp
  then have r: "rest s' = rest s" by simp
  have "slots_ok s' \<Longrightarrow> i < length (co_slots s')"
    using assms rest_slots_ok [OF r] rest_fields(3) [OF r] by simp
  then have "moves (add_mset h X) s' X (slot_put i (DmabufTask d [h]) s')"
    using moves_slot_put [of s' i "DmabufTask d [h]" X] by simp
  from moves_trans [OF moves_hold_new [OF n] this] show ?thesis by (simp add: put_pinned_def n)
qed

lemma omoves_put_copied:
  assumes "slots_ok s \<Longrightarrow> i < length (co_slots s)"
  shows "omoves X s X (put_copied io i codec d b s)"
proof -
  obtain s' h where n: "hold_new b s = (s', h)" by fastforce
  then have "s' = fst (hold_new b s)" by simp
  then have r: "rest s' = rest s" by simp
  have l: "slots_ok s' \<Longrightarrow> i < length (co_slots s')"
    using assms rest_slots_ok [OF r] rest_fields(3) [OF r] by simp
  have "moves (add_mset h X) s' (add_mset h X) (slot_put i (PixelsTask p w hh) s')" for p w hh
    using moves_slot_put [OF l, of "PixelsTask p w hh" "add_mset h X"] by simp
  then have "omoves (add_mset h X) s' (add_mset h X) (eager_copy io i codec d b s')"
    by (auto simp: eager_copy_def Let_def intro!: omoves_bind_val split: option.split)
  then have "omoves (add_mset h X) s' X (obind (eager_copy io i codec d b s') (\<lambda>s. Returned (hold_drop h s)))"
    by (rule omoves_bind) (simp add: moves_hold_drop)
  then show ?thesis
    using moves_hold_new [OF n] moves_trans unfolding put_copied_def n omoves_def by simp blast
qed

lemma omoves_push:
  assumes "slots_ok s \<Longrightarrow> en_slot e < length (co_slots s)"
  shows "omoves {#} s {#} (push_focused_buffer_to_recording io f e s)"
proof -
  have "moves {#} s {#} (slot_put (en_slot e) (PixelsTask p w h) s)" for p w h
    using moves_slot_put [OF assms, of "PixelsTask p w h" "{#}"] by simp
  then have read: "omoves {#} s {#} (obind (read_surface_buffer_for_recording io f s) (\<lambda>r.
      Returned (case r of Some (p, w, h) \<Rightarrow> slot_put (en_slot e) (PixelsTask p w h) s | None \<Rightarrow> s)))"
    by (intro omoves_bind_val) (simp split: option.split)
  show ?thesis
  proof (cases "current_kind f s")
    case (Some p)
    obtain b k where p: "p = (b, k)" by (cases p)
    show ?thesis
      using Some p read moves_put_pinned [OF assms] omoves_put_copied [OF assms]
      by (cases k) (simp_all add: push_focused_buffer_to_recording_def)
  qed (simp add: push_focused_buffer_to_recording_def)
qed

lemma tap_encoders_ok:
  assumes "e \<in> set (snd (tap_encoders s))" "slots_ok s"
  shows "en_slot e < length (co_slots s)"
  using assms by (auto simp: tap_encoders_def Let_def slots_ok_def split: option.splits if_splits)

lemma omoves_capture:
  assumes "\<And>e. e \<in> set es \<Longrightarrow> slots_ok s \<Longrightarrow> en_slot e < length (co_slots s)"
  shows "omoves {#} s {#} (capture_for io es s)"
proof -
  let ?s = "s\<lparr>co_last_capture := Some (tio_now io)\<rparr>"
  have r: "rest ?s = rest s" by (simp add: rest_def)
  have first: "moves {#} s {#} ?s" by (rule moves_same) (simp_all add: bufs_of_def r)
  have "moves {#} t {#} (fold (\<lambda>e. slot_put (en_slot e) (PixelsTask p w h)) es t)" if "rest t = rest s" for t p w h
    using assms that
  proof (induction es arbitrary: t)
    case (Cons e es)
    have "slots_ok t \<Longrightarrow> en_slot e < length (co_slots t)"
      using Cons.prems(1) [of e] rest_slots_ok [OF Cons.prems(2)] rest_fields(3) [OF Cons.prems(2)] by simp
    from moves_slot_put [OF this, of "PixelsTask p w h" "{#}"]
    have "moves {#} t {#} (slot_put (en_slot e) (PixelsTask p w h) t)" by simp
    moreover have "moves {#} (slot_put (en_slot e) (PixelsTask p w h) t) {#}
        (fold (\<lambda>e. slot_put (en_slot e) (PixelsTask p w h)) es (slot_put (en_slot e) (PixelsTask p w h) t))"
      using Cons.IH [of "slot_put (en_slot e) (PixelsTask p w h) t"] Cons.prems by simp
    ultimately show ?case using moves_trans by simp
  qed simp
  from moves_trans [OF first this [OF r]] first show ?thesis
    by (auto simp: capture_for_def Let_def intro!: omoves_bind_val split: option.split)
qed

lemma omoves_tap: "omoves {#} s {#} (maybe_tap_for_recording io f a s)"
proof -
  obtain mode es where t: "tap_encoders s = (mode, es)" by fastforce
  have ok: "en_slot e < length (co_slots s)" if "e \<in> set es" "slots_ok s" for e
    using tap_encoders_ok [of e s] that t by simp
  have push: "omoves {#} s {#} (ofold (push_focused_buffer_to_recording io f) (filter P es) s)" for P
  proof (rule omoves_ofold)
    fix e s' assume "e \<in> set (filter P es)" and r: "rest s' = rest s"
    then show "omoves {#} s' {#} (push_focused_buffer_to_recording io f e s')"
      using ok [of e] rest_slots_ok [OF r] rest_fields(3) [OF r] by (intro omoves_push) simp
  qed
  have "omoves {#} s {#} (obind (ofold (push_focused_buffer_to_recording io f) (filter (wants_dmabuf \<circ> en_codec) es) s)
      (capture_for io (filter (\<lambda>e. \<not> wants_dmabuf (en_codec e)) es)))"
  proof (cases "ofold (push_focused_buffer_to_recording io f) (filter (wants_dmabuf \<circ> en_codec) es) s")
    case (Returned u)
    have m: "moves {#} s {#} u" using push [of "wants_dmabuf \<circ> en_codec"] Returned by simp
    show ?thesis
    proof (cases "owns {#} s \<and> slots_ok s")
      case True
      with m have r: "rest u = rest s" by (simp add: moves_def)
      have "omoves {#} u {#} (capture_for io (filter (\<lambda>e. \<not> wants_dmabuf (en_codec e)) es) u)"
        using ok rest_slots_ok [OF r] rest_fields(3) [OF r] by (intro omoves_capture) simp
      with m Returned show ?thesis by (auto simp: omoves_def intro: moves_trans)
    next
      case False
      then show ?thesis by (auto simp: omoves_def moves_def)
    qed
  qed simp_all
  with push [of "\<lambda>_. True"] t show ?thesis
    by (cases mode) (simp_all add: maybe_tap_for_recording_def)
qed

lemma omoves_prime: "omoves {#} s {#} (prime_recording_first_frame io s)"
  by (simp add: prime_recording_first_frame_def Let_def omoves_tap split: option.split list.split)

lemma refs_forward [simp]:
  "refs_of (s\<lparr>co_forwarded := (ob, Direct bs) # co_forwarded s\<rparr>) = refs_of s"
  "refs_of (s\<lparr>co_forwarded := (ob, Refcounted hs) # co_forwarded s\<rparr>) = refs_of s + mset hs"
  by (simp_all add: refs_of_def union_assoc union_commute union_lcomm)

lemma moves_refines: "refines s (on_bufs g s) \<Longrightarrow> moves X s X (on_bufs g s)"
  by (simp add: moves_def owns_def refcount_def)

lemma moves_woken [simp]: "moves X s Y (woken_if c t) = moves X s Y t"
  by (simp add: woken_if_def moves_def owns_def refcount_def refines_def)

lemma moves_slot_take:
  assumes "i < length (co_slots s)"
  shows "moves X s X (fst (slot_take i s))"
proof (cases "sl_task (co_slots s ! i)")
  case (Some t)
  let ?sl = "(co_slots s ! i)\<lparr>sl_task := None\<rparr>"
  have "mset (concat (map slot_holds ((co_slots s)[i := ?sl]))) + mset (holds_of t) = mset (concat (map slot_holds (co_slots s)))"
    using concat_list_update [where f = slot_holds and y = ?sl, OF assms] Some by (simp add: slot_holds_def)
  then have "refs_of (fst (slot_take i s)) = refs_of s"
    using Some by (simp add: slot_take_def refs_of_def union_assoc union_commute union_lcomm)
  with Some show ?thesis by (intro moves_same) (simp_all add: slot_take_def bufs_of_def rest_def)
qed (simp add: slot_take_def)

lemma moves_task_done:
  assumes "t \<in> set (co_taken s)"
  shows "moves X s X (task_done t s)"
proof -
  let ?s = "s\<lparr>co_taken := remove1 t (co_taken s)\<rparr>"
  have "refs_of ?s + (mset (holds_of t) + X) = refs_of s + X"
    using concat_remove1 [where f = holds_of, OF assms]
    by (simp add: refs_of_def union_assoc union_commute union_lcomm)
  then have "moves X s (mset (holds_of t) + X) ?s" by (intro moves_same) (simp_all add: bufs_of_def rest_def)
  from moves_trans [OF this moves_fold_drop] show ?thesis by (simp add: task_done_def drop_task_def)
qed

lemma moves_outer_release: "moves X s X (outer_release ob s)"
proof (cases "map_of (co_forwarded s) ob")
  case (Some r)
  let ?s = "s\<lparr>co_forwarded := remove1 (ob, r) (co_forwarded s)\<rparr>"
  have "(ob, r) \<in> set (co_forwarded s)" using Some by (rule map_of_SomeD)
  from concat_remove1 [where f = release_holds_of, OF this]
  have "refs_of ?s + (mset (release_holds_of (ob, r)) + X) = refs_of s + X"
    by (simp add: refs_of_def union_assoc union_commute union_lcomm)
  then have m: "moves X s (mset (release_holds_of (ob, r)) + X) ?s" by (intro moves_same) (simp_all add: bufs_of_def rest_def)
  show ?thesis
  proof (cases r)
    case (Direct bs)
    with m have "moves X s X ?s" by simp
    from moves_trans [OF this moves_refines [OF refines_fold_release]] Some Direct show ?thesis
      by (simp add: outer_release_def)
  next
    case (Refcounted hs)
    with m have "moves X s (mset hs + X) ?s" by simp
    from moves_trans [OF this moves_fold_drop] Some Refcounted show ?thesis by (simp add: outer_release_def)
  qed
qed (simp add: outer_release_def)

lemma moves_hold_all: "hold_all bs s = (s', hs) \<Longrightarrow> moves X s (mset hs + X) s'"
proof (induction bs arbitrary: s s' hs X)
  case (Cons b bs)
  obtain s1 h where n: "hold_new b s = (s1, h)" by fastforce
  obtain s2 hs2 where a: "hold_all bs s1 = (s2, hs2)" by fastforce
  from Cons.prems n a have eq: "s' = s2" "hs = h # hs2" by simp_all
  from moves_trans [OF moves_hold_new [OF n] Cons.IH [OF a]] show ?case by (simp add: eq)
qed simp

lemma rest_hold_all: "hold_all bs s = (s', hs) \<Longrightarrow> rest s' = rest s"
proof (induction bs arbitrary: s s' hs)
  case (Cons b bs)
  obtain s1 h where n: "hold_new b s = (s1, h)" by fastforce
  obtain s2 hs2 where a: "hold_all bs s1 = (s2, hs2)" by fastforce
  have "rest s1 = rest s" using rest_hold_ops(1) [of b s] n by simp
  with Cons.IH [OF a] Cons.prems n a show ?case by simp
qed simp

lemma moves_fold_clone: "set hs \<subseteq> set_mset X \<Longrightarrow> moves X s (mset hs + X) (fold hold_clone hs s)"
proof (induction hs arbitrary: s X)
  case (Cons h hs)
  then have "moves X s (add_mset h X) (hold_clone h s)" by (intro moves_hold_clone) simp
  moreover have "moves (add_mset h X) (hold_clone h s) (mset hs + add_mset h X) (fold hold_clone hs (hold_clone h s))"
    using Cons by (intro Cons.IH) auto
  ultimately show ?case using moves_trans by simp
qed simp

lemma moves_try_pixels: "moves X s X (try_push_recording_pixels p w h s)"
proof (cases "\<exists>d. co_recording s = Some d \<and> \<not> en_stop (dh_primary d)")
  case True
  then obtain d where d: "co_recording s = Some d" "\<not> en_stop (dh_primary d)" by blast
  have put: "moves X t X (slot_put i (PixelsTask p w h) t)" if "slots_ok t \<Longrightarrow> i < length (co_slots t)" for i t
    using moves_slot_put [OF that, of "PixelsTask p w h" X] by simp
  let ?s = "case dh_secondary d of Some e \<Rightarrow> if en_stop e then s else slot_put (en_slot e) (PixelsTask p w h) s | None \<Rightarrow> s"
  have r: "rest ?s = rest s" by (simp split: option.split)
  have "moves X s X ?s" using d by (auto simp: slots_ok_def intro!: put split: option.split)
  moreover have "moves X ?s X (slot_put (en_slot (dh_primary d)) (PixelsTask p w h) ?s)"
    using d(1) rest_slots_ok [OF r] rest_fields(3) [OF r] by (intro put) (simp add: slots_ok_def)
  ultimately show ?thesis using d moves_trans by (simp add: try_push_recording_pixels_def Let_def)
qed (auto simp: try_push_recording_pixels_def split: option.split)

lemma moves_try_dmabuf: "moves (mset hs) s {#} (try_push_recording_dmabuf dma hs s)"
proof (cases "\<exists>d. co_recording s = Some d \<and> \<not> en_stop (dh_primary d)")
  case True
  then obtain d where d: "co_recording s = Some d" "\<not> en_stop (dh_primary d)" by blast
  let ?t = "DmabufTask dma hs"
  let ?s = "case dh_secondary d of Some e \<Rightarrow> if en_stop e then s else slot_put (en_slot e) ?t (fold hold_clone hs s) | None \<Rightarrow> s"
  have r: "rest ?s = rest s" by (simp split: option.split)
  have "moves (mset hs) s (mset hs) ?s"
  proof (cases "\<exists>e. dh_secondary d = Some e \<and> \<not> en_stop e")
    case True
    then obtain e where e: "dh_secondary d = Some e" "\<not> en_stop e" by blast
    have rc: "rest (fold hold_clone hs s) = rest s" by simp
    have "moves (mset hs) s (mset hs + mset hs) (fold hold_clone hs s)" by (rule moves_fold_clone) simp
    moreover have "slots_ok (fold hold_clone hs s) \<Longrightarrow> en_slot e < length (co_slots (fold hold_clone hs s))"
      using d(1) e(1) rest_slots_ok [OF rc] rest_fields(3) [OF rc] by (simp add: slots_ok_def)
    from moves_slot_put [OF this, of ?t "mset hs"]
    have "moves (mset hs + mset hs) (fold hold_clone hs s) (mset hs) (slot_put (en_slot e) ?t (fold hold_clone hs s))" by simp
    ultimately show ?thesis using e moves_trans by simp
  qed (auto split: option.split)
  moreover have "slots_ok ?s \<Longrightarrow> en_slot (dh_primary d) < length (co_slots ?s)"
    using d(1) rest_slots_ok [OF r] rest_fields(3) [OF r] by (simp add: slots_ok_def)
  from moves_slot_put [OF this, of ?t "{#}"]
  have "moves (mset hs) ?s {#} (slot_put (en_slot (dh_primary d)) ?t ?s)" by simp
  ultimately show ?thesis using d moves_trans by (simp add: try_push_recording_dmabuf_def Let_def)
next
  case False
  then show ?thesis using moves_fold_drop [of hs "{#}" s]
    by (auto simp: try_push_recording_dmabuf_def split: option.split)
qed

lemma moves_forward: "moves {#} s {#} (forward_frame buf_dma fwd ob dma s)"
proof -
  let ?split = "\<lambda>t. snd (take_pending_releases_split buf_dma fwd t)"
  obtain inner skipped bs where sp: "take_pending_releases_split buf_dma fwd (bufs_of s) = ((inner, skipped), bs)" by (metis surj_pair)
  let ?s1 = "woken_if (skipped \<noteq> []) (on_bufs (fold release_inner_buffer skipped) (on_bufs ?split s))"
  have eq: "on_bufs (\<lambda>_. bs) s = on_bufs ?split s" using sp by (simp add: on_bufs_def on_session_def bufs_of_def)
  have "moves {#} s {#} (on_bufs ?split s)" by (intro moves_refines refines_bufs)
  moreover have "moves {#} (on_bufs ?split s) {#} ?s1"
    using moves_refines [OF refines_fold_release [of "on_bufs ?split s" skipped], of "{#}"] by simp
  ultimately have m1: "moves {#} s {#} ?s1" by (rule moves_trans)
  show ?thesis
  proof (cases "is_recording ?s1")
    case True
    obtain s2 hs where h: "hold_all inner ?s1 = (s2, hs)" by fastforce
    let ?s3 = "fold hold_clone hs s2"
    let ?s4 = "?s3\<lparr>co_forwarded := (ob, Refcounted hs) # co_forwarded ?s3\<rparr>"
    have "moves {#} ?s1 (mset hs) s2" using moves_hold_all [OF h, of "{#}"] by simp
    moreover have "moves (mset hs) s2 (mset hs + mset hs) ?s3" by (rule moves_fold_clone) simp
    moreover have "moves (mset hs + mset hs) ?s3 (mset hs) ?s4"
      by (rule moves_same) (simp_all add: bufs_of_def rest_def)
    moreover have "moves (mset hs) ?s4 {#} (try_push_recording_dmabuf dma hs ?s4)" by (rule moves_try_dmabuf)
    ultimately have "moves {#} s {#} (try_push_recording_dmabuf dma hs ?s4)" using m1 moves_trans by blast
    then show ?thesis using sp h True eq by (simp add: forward_frame_def bufs_of_def Let_def)
  next
    case False
    have "moves {#} t {#} (t\<lparr>co_forwarded := (ob, Direct inner) # co_forwarded t\<rparr>)" for t
      by (rule moves_same) (simp_all add: bufs_of_def rest_def)
    from moves_trans [OF m1 this [of ?s1]] show ?thesis
      using sp False eq by (simp add: forward_frame_def bufs_of_def Let_def)
  qed
qed

end
