(* ===== verification/Spec2Isabelle.thy ===== *)
theory Spec2Isabelle
  imports Prelude Codec Ebml Mkv Viewer_Protocol Buffer_Hold Messages Session_State Composite Registry_State Registry Registry_Steps Registry_Rpc Session_Control Server Events Bridge Pixels Frame_Tap
begin

text \<open>
  \<^bold>\<open>waymux\<close>: a daemon that runs isolated Wayland sessions. This development models the parts of
  the repository that decide what the program does with its sessions, windows, frames and files,
  and proves what they promise. All paths below are under \<open>src/crates/\<close>.

  \<^bold>\<open>The program.\<close> Clients talk to the daemon (\<open>waymux-daemon\<close>) over a socket with
  length-prefixed MessagePack frames (\<open>waymux-protocol\<close>). The daemon keeps a table of sessions;
  each session is a process (\<open>waymux-session\<close>), a Wayland compositor without a screen, with a
  control socket the daemon calls and an event connection back to the daemon. A session records its
  output into Matroska files (\<open>waymux-mux-mkv\<close>) and streams it to a viewer bridge.

  \<^bold>\<open>The theories.\<close>
  \<^item> \<open>Prelude\<close>: machine integers, results, byte encodings, read cursors, association lists.
  \<^item> \<open>Codec\<close> (\<open>waymux-protocol/src/codec.rs\<close>, \<open>read_frame\<close> of the daemon): framing, the size cap, its
    errors; the locale \<open>self_delimiting\<close> gives round trips of streams, and every wire format of the
    development is an interpretation of it.
  \<^item> \<open>Messages\<close> (\<open>waymux-protocol/src/messages.rs\<close>): the protocol types.
  \<^item> \<open>Ebml\<close>, \<open>Mkv\<close> (\<open>waymux-mux-mkv\<close>): the file writer and, as specification, a reader written from
    the format's rules; a finished recording is read back exactly.
  \<^item> \<open>Viewer_Protocol\<close> (\<open>waymux-session/src/viewer/protocol.rs\<close>): the frames to and from the bridge.
  \<^item> \<open>Buffer_Hold\<close> (\<open>state.rs\<close>, \<open>recording.rs\<close>): when a client's buffer goes back to it, under any
    interleaving of the threads.
  \<^item> \<open>Session_State\<close> (\<open>state.rs\<close>): windows, focus, input injection, resizing, attach and detach. The
    step relation \<open>ses_step\<close> has one step per operation; the events a session emits refine its
    window table.
  \<^item> \<open>Composite\<close> (\<open>composite.rs\<close>, \<open>buffer.rs\<close>, \<open>shm.rs\<close>, subsurfaces and viewports of
    \<open>compositor.rs\<close>, captures, PNG conversion): pixel-exact blits in machine arithmetic, where panics
    and stack exhaustion are outcomes.
  \<^item> \<open>Session_Control\<close> (\<open>control.rs\<close>, \<open>recording.rs\<close>): the control socket and every request on it.
  \<^item> \<open>Registry_State\<close>, \<open>Registry\<close>, \<open>Registry_Steps\<close>, \<open>Registry_Rpc\<close> (\<open>waymux-daemon/src/registry.rs\<close>,
    \<open>backend/\<close>): the session table, its operations split at the lock, their interleaving as a
    transition system with its invariant, and the calls to session processes.
  \<^item> \<open>Server\<close> (\<open>waymux-daemon/src/server.rs\<close>): connections, the hello gate, dispatch, subscriptions.
  \<^item> \<open>Events\<close> (\<open>waymux-session/src/events.rs\<close> and the daemon's accept loop): events on their way.
  \<^item> \<open>Bridge\<close> (\<open>waymux-neko-bridge\<close>, \<open>viewer/encoder.rs\<close>): the Go process between a session and its
    browsers: frames, input translation, viewer slots and who holds the input, the pump, and the
    session's reader of what comes back. \<open>br_step\<close> interleaves connections, messages and departures.
  \<^item> this theory: the daemon and a session put together, from the daemon's operation through its
    control connection to what the session's clients are sent.

  \<^bold>\<open>Conventions.\<close> A struct is a record, an enum a datatype, an error a value of \<open>result\<close>. State is
  passed explicitly. A section of code under one lock is one function; where tasks interleave, an
  inductive relation interleaves those functions. What is outside the repository (the operating
  system, the MessagePack and PNG libraries, clocks, processes) is an argument: a record of answers
  named \<open>io\<close> or a function, and what was asked of it is appended to a log in the state. Integers keep
  their width where the code can overflow; an \<open>f64\<close> is a rational number.

  \<^bold>\<open>Bounds.\<close> \<open>ctl_handle\<close> and the connection loops take the length of the input plus one as the bound
  on the number of frames, which is enough as a frame has at least four bytes. \<open>wait_for_idle\<close> is
  proved to return within its rounds. The depth given to \<open>composite_into\<close> is the stack: for a tree of
  surfaces any depth above the height of the tree suffices, and for a cycle none does.

  \<^bold>\<open>Not modelled.\<close> The GPU encoders and dmabuf handling (\<open>vulkan_record.rs\<close>, \<open>hevc_vk_record.rs\<close>,
  \<open>ffv1_vk_record.rs\<close>, \<open>vaapi_h264_record.rs\<close>, \<open>cuda_nvenc_record.rs\<close>, \<open>dmabuf.rs\<close>, \<open>syncobj.rs\<close>) are calls
  into drivers; the outer view and the other Wayland handlers are callbacks of client and server
  libraries; the entry points, the usage records, the keymap and the audio capture are I/O. The
  command line and the MCP server translate arguments to the requests modelled here.
\<close>

section \<open>A call from the daemon to a session\<close>

text \<open>The session's end of a fresh control connection: it is served what the daemon writes, and the
  daemon reads what it answers.\<close>

definition linked ::
    "ctl_writer \<Rightarrow> (bytes \<Rightarrow> (session_ctl_request, string) result) \<Rightarrow> (session_ctl_response \<Rightarrow> bytes \<times> string option)
      \<Rightarrow> (nat \<Rightarrow> control_io) \<Rightarrow> rpc_io \<Rightarrow> session_ctl_method \<Rightarrow> control_state \<Rightarrow> control_state \<Rightarrow> bool" where
  "linked wn dr ww ios io meth cs cs' \<longleftrightarrow>
     (\<exists>c out uid. rpc_connect io = Ok c \<and> rpc_fresh io = (True, (out, AtEof))
        \<and> ctl_serve uid (Some uid) dr ww ios (\<lambda>_. True) (fst (encode_frame wn \<lparr>ctl_id = 1, ctl_method = meth\<rparr> []), AtEof) cs
          = Returned (cs', out))"

lemma ctl_handle_nil: "ctl_handle k dr ww ios wr n ([], AtEof) s = Returned (s, [])"
  by (cases k) (simp_all add: read_frame_def read_exact_def)

lemma ctl_handle_one:
  assumes "serde_ok wn dr" "wn req = (p, None)" "length p \<le> MAX_FRAME_SIZE"
    and "ctl_dispatch (ios n) (ctl_id req) (ctl_method req) s = Returned (s1, resp)"
    and "ww resp = (q, None)" "length q \<le> MAX_FRAME_SIZE"
  shows "ctl_handle (Suc k) dr ww ios (\<lambda>_. True) n (frame_bytes p, AtEof) s = Returned (s1, frame_bytes q)"
proof -
  have "read_frame (frame_bytes p, AtEof) = Ok (Some (frame_bytes p), ([], AtEof))"
    using read_frame_bytes [OF assms(3), of "[]" AtEof] by simp
  moreover have "decode_frame dr (frame_bytes p) = Ok req"
    using assms(1,2) decode_frame_bytes [OF assms(3), of dr] by (simp add: serde_ok_def)
  moreover have "encode_frame ww resp [] = (frame_bytes q, Ok ())"
    using assms(5,6) by (simp add: encode_frame_ok_iff)
  ultimately show ?thesis using assms(4) by (simp add: ctl_handle_nil)
qed

lemma session_call:
  assumes "serde_ok wn dr" "serde_ok ww de" "wn \<lparr>ctl_id = 1, ctl_method = meth\<rparr> = (p, None)" "length p \<le> MAX_FRAME_SIZE"
    and "ctl_dispatch (ios 0) 1 meth cs = Returned (cs1, resp)" "ww resp = (q, None)" "length q \<le> MAX_FRAME_SIZE"
    and "linked wn dr ww ios io meth cs cs'" "find_session n st = Some e" "conns st (se_conn e) = None"
  shows "cs' = cs1" "snd (session_control wn de io n meth st) = Ok resp"
proof -
  have enc: "encode_frame wn \<lparr>ctl_id = 1, ctl_method = meth\<rparr> [] = (frame_bytes p, Ok ())"
    using assms(3,4) by (simp add: encode_frame_ok_iff)
  obtain c out uid where l: "rpc_connect io = Ok c" "rpc_fresh io = (True, (out, AtEof))"
    "ctl_handle (Suc (length (frame_bytes p))) dr ww ios (\<lambda>_. True) 0 (frame_bytes p, AtEof) cs = Returned (cs', out)"
    using assms(8) enc by (auto simp: linked_def ctl_serve_def simp del: ctl_handle.simps)
  with ctl_handle_one [OF assms(1,3,4), of ios 0 cs cs1 resp ww q] assms(5,6,7)
  have "cs' = cs1" and out: "out = frame_bytes q" by simp_all
  then show "cs' = cs1" by simp
  have "rpc (rpc_fresh io) = Ok (frame_bytes q)"
    using rpc_frame_bytes [OF assms(7), of "[]" AtEof] l(2) out by simp
  moreover have "decode_ctl de (frame_bytes q) = Ok resp"
    using assms(2,6) decode_frame_bytes [OF assms(7), of de] by (simp add: decode_ctl_def serde_ok_def)
  ultimately show "snd (session_control wn de io n meth st) = Ok resp"
    using assms(9,10) enc l(1) by (simp add: session_control_def rpc_cached_def rpc_reconnect_def Let_def)
qed

lemma unit_call_session:
  assumes "snd (session_control wn de io n meth st) = Ok resp"
  shows "snd (unit_call wn de io n meth st) = Ok () \<longleftrightarrow> ctlr_ok resp"
  using assms by (cases "session_control wn de io n meth st") (simp add: unit_call_def ctl_call_def)

text \<open>The events a resize sends.\<close>

lemma resize_fold_sends:
  "\<exists>new. wl_sent (fold (configure_toplevel w h) ps s) = wl_sent s @ new
    \<and> (\<forall>p \<in> set ps. TopConfigure (snd p) (sint w) (sint h) \<in> set new)
    \<and> (\<forall>r a b. OutMode r a b \<notin> set new) \<and> (\<forall>r a b. TopConfigure r a b \<in> set new \<longrightarrow> a = sint w \<and> b = sint h)"
proof (induction ps arbitrary: s)
  case (Cons p ps)
  obtain k where k: "wl_sent (configure_toplevel w h p s)
      = wl_sent s @ [TopConfigure (snd p) (sint w) (sint h), XdgConfigure (fst p) k]"
    by (auto simp: configure_toplevel_def Let_def case_prod_beta)
  from Cons.IH [of "configure_toplevel w h p s"] obtain new where
    "wl_sent (fold (configure_toplevel w h) ps (configure_toplevel w h p s))
      = wl_sent (configure_toplevel w h p s) @ new"
    "\<forall>p \<in> set ps. TopConfigure (snd p) (sint w) (sint h) \<in> set new"
    "\<forall>r a b. OutMode r a b \<notin> set new" "\<forall>r a b. TopConfigure r a b \<in> set new \<longrightarrow> a = sint w \<and> b = sint h"
    by blast
  with k show ?case
    by (intro exI [of _ "[TopConfigure (snd p) (sint w) (sint h), XdgConfigure (fst p) k] @ new"]) auto
qed simp

definition live_toplevels :: "session_state \<Rightarrow> resource set" where
  "live_toplevels s = {tlv. \<exists>i xs. (i, xs, tlv) \<in> set (toplevels s) \<and> xs \<notin> set (dead_res s) \<and> tlv \<notin> set (dead_res s)}"

lemma resize_sends:
  "\<exists>new. wl_sent (resize_state now w h s) = wl_sent s @ new
    \<and> (\<forall>r \<in> set (alive_of s (output_globals s)). OutMode r (sint w) (sint h) \<in> set new)
    \<and> (\<forall>r \<in> live_toplevels s. TopConfigure r (sint w) (sint h) \<in> set new)
    \<and> (\<forall>r a b. OutMode r a b \<in> set new \<or> TopConfigure r a b \<in> set new \<longrightarrow> a = sint w \<and> b = sint h)"
proof -
  let ?outs = "alive_of s (output_globals s)"
  let ?tls = "filter (\<lambda>(i, xs, tlv). xs \<notin> set (dead_res s) \<and> tlv \<notin> set (dead_res s)) (toplevels s)"
  let ?modes = "concat (map (output_mode w h s) ?outs)"
  let ?s = "s\<lparr>ses_width := w, ses_height := h, output_globals := ?outs, wl_sent := wl_sent s @ ?modes, toplevels := ?tls\<rparr>"
  have om: "output_mode w h (s\<lparr>ses_width := w, ses_height := h, output_globals := gs\<rparr>) = output_mode w h s" for gs
    by (simp add: output_mode_def fun_eq_iff)
  have eq: "resize_state now w h s = wake_compositor now (fold (configure_toplevel w h) (map snd ?tls) ?s)"
    by (simp add: resize_state_def Let_def send_wl_def alive_of_def om)
  from resize_fold_sends [of w h "map snd ?tls" ?s] obtain new where
    n: "wl_sent (fold (configure_toplevel w h) (map snd ?tls) ?s) = wl_sent ?s @ new"
      "\<forall>p \<in> set (map snd ?tls). TopConfigure (snd p) (sint w) (sint h) \<in> set new"
      "\<forall>r a b. OutMode r a b \<notin> set new" "\<forall>r a b. TopConfigure r a b \<in> set new \<longrightarrow> a = sint w \<and> b = sint h"
    by blast
  have "\<forall>r \<in> live_toplevels s. TopConfigure r (sint w) (sint h) \<in> set new"
    using n(2) by (force simp: live_toplevels_def)
  moreover have "\<forall>r \<in> set ?outs. OutMode r (sint w) (sint h) \<in> set ?modes" by (auto simp: output_mode_def)
  moreover have "\<forall>r a b. OutMode r a b \<in> set ?modes \<or> TopConfigure r a b \<in> set ?modes \<longrightarrow> a = sint w \<and> b = sint h"
    by (auto simp: output_mode_def split: if_splits)
  ultimately show ?thesis using n eq by (intro exI [of _ "?modes @ new"]) auto
qed

lemma resize_size: "ses_width (resize_state now w h s) = w \<and> ses_height (resize_state now w h s) = h"
proof -
  have "ses_width (fold (configure_toplevel w h) ps t) = ses_width t \<and> ses_height (fold (configure_toplevel w h) ps t) = ses_height t"
    for ps t by (induction ps arbitrary: t) (simp_all add: configure_toplevel_def send_wl_def next_serial_def)
  then show ?thesis by (simp add: resize_state_def Let_def send_wl_def wake_compositor_def)
qed

lemma valid_size_sint:
  assumes "validate_output_size w h = Ok ()"
  shows "sint w = uint w" "sint h = uint h" "1 \<le> uint w" "uint w \<le> 16384" "1 \<le> uint h" "uint h \<le> 16384"
proof -
  from assms have "w \<noteq> 0" "h \<noteq> 0" "w \<le> 16384" "h \<le> 16384"
    by (simp_all add: validate_output_size_def MAX_OUTPUT_DIMENSION_def not_less split: if_splits)
  moreover have "1 \<le> uint x" if "x \<noteq> 0" for x :: u32
    using that uint_ge_0 [of x] uint_0_iff [of x] by linarith
  ultimately show "sint w = uint w" "sint h = uint h" "1 \<le> uint w" "uint w \<le> 16384" "1 \<le> uint h" "uint h \<le> 16384"
    using sint_small [of w] sint_small [of h] by auto
qed

text \<open>A serialiser that can write one value, for the examples.\<close>

definition one_value :: "'a \<Rightarrow> u8 \<Rightarrow> 'a \<Rightarrow> bytes \<times> string option" where
  "one_value v b x = (if x = v then ([b], None) else ([], Some ''unsupported''))"

definition read_value :: "'a \<Rightarrow> bytes \<Rightarrow> ('a, string) result" where
  "read_value v bs = Ok v"

lemma serde_one_value: "serde_ok (one_value v b) (read_value v)"
  by (auto simp: serde_ok_def one_value_def read_value_def split: if_splits)

definition sample_link :: rpc_io where
  "sample_link = \<lparr>rpc_reuse = (False, ([], AtEof)), rpc_connect = Ok 5, rpc_fresh = (True, (frame_bytes [2], AtEof))\<rparr>"

lemma sample_linked:
  assumes "ctl_dispatch sample_cio 1 meth cs = Returned (cs1, resp)" "ww resp = ([2], None)"
  shows "linked (one_value \<lparr>ctl_id = 1, ctl_method = meth\<rparr> 1) (read_value \<lparr>ctl_id = 1, ctl_method = meth\<rparr>)
    ww (\<lambda>_. sample_cio) sample_link meth cs cs1"
proof -
  let ?req = "\<lparr>ctl_id = 1, ctl_method = meth\<rparr>"
  have "encode_frame (one_value ?req 1) ?req [] = (frame_bytes [1], Ok ())"
    by (simp add: encode_frame_ok_iff one_value_def MAX_FRAME_SIZE_def)
  moreover have "ctl_handle (Suc (length (frame_bytes [1]))) (read_value ?req) ww (\<lambda>_. sample_cio) (\<lambda>_. True) 0
      (frame_bytes [1], AtEof) cs = Returned (cs1, frame_bytes [2])"
    by (rule ctl_handle_one [where wn = "one_value ?req 1" and req = ?req and ww = ww, OF serde_one_value _ _ _ assms(2)])
      (simp_all add: one_value_def MAX_FRAME_SIZE_def assms(1))
  ultimately show ?thesis
    by (simp add: linked_def sample_link_def ctl_serve_def del: ctl_handle.simps)
qed

lemma sample_no_conn: "conns sample_registry (se_conn sample_entry) = None"
  by (simp add: sample_registry_def registry_new_def)

section \<open>Properties\<close>





end
